(* ===== verification/Vault_Prelude.thy ===== *)
theory Vault_Prelude
  imports Main "HOL-Library.Word" "HOL-Library.Sublist"
begin

text \<open>
  What every other theory of the development shares: the machine integers and byte strings of the
  Rust code, the big-endian encodings (\<open>to_be_bytes\<close>, \<open>from_be_bytes\<close>) and their laws, ASCII
  classification of bytes, decimal printing, splitting a byte string into chunks, and the plumbing of
  \<open>Result\<close> values.  The interface \<open>self_delimiting\<close> collects the encodings that can be concatenated
  without losing injectivity; the fixed-width integers are instances of it here, the length-prefixed
  fields of the manifest in their own theory.
\<close>

section \<open>Machine integers and byte strings\<close>

type_synonym u8 = "8 word"
type_synonym u16 = "16 word"
type_synonym u32 = "32 word"
type_synonym u64 = "64 word"
type_synonym i32 = "32 word"
type_synonym bytes = "u8 list"

named_theorems result_simps \<open>equations of the result plumbing\<close>
named_theorems layout_simps \<open>lengths and constants of the on-disk and on-wire layouts\<close>

text \<open>A Rust \<open>String\<close> is a sequence of UTF-8 bytes; here each \<open>char\<close> is one such byte.\<close>

definition as_bytes :: "string \<Rightarrow> bytes" where
  "as_bytes s = map of_char s"

lemma length_as_bytes [simp]: "length (as_bytes s) = length s"
  by (simp add: as_bytes_def)

lemma unat_of_char: "unat (of_char c :: u8) = of_char c"
proof -
  have "of_nat (of_char c) = (of_char c :: u8)"
    by (rule of_nat_of_char)
  then have "unat (of_char c :: u8) = unat (of_nat (of_char c) :: u8)"
    by simp
  also have "\<dots> = take_bit 8 (of_char c :: nat)"
    by (simp add: unsigned_of_nat)
  also have "\<dots> = of_char c"
    by (simp add: take_bit_nat_eq_self_iff)
  finally show ?thesis .
qed

lemma of_char_u8_inject: "(of_char c = (of_char d :: u8)) \<longleftrightarrow> c = d"
  by (metis of_char_eq_iff unat_of_char)

lemma as_bytes_inject [simp]: "as_bytes s = as_bytes t \<longleftrightarrow> s = t"
proof -
  have "inj (of_char :: char \<Rightarrow> u8)"
    by (rule injI) (simp add: of_char_u8_inject)
  then show ?thesis
    by (simp add: as_bytes_def inj_map_eq_map)
qed

section \<open>Results\<close>

text \<open>
  \<open>Result<T, E>\<close> is \<open>'e + 'a\<close> with \<open>Inl\<close> for \<open>Err\<close>.  A fallible stateful computation takes the state
  and returns the result with the new state; \<open>andthen\<close> is the \<open>?\<close> operator.
\<close>

type_synonym ('s, 'e, 'a) action = "'s \<Rightarrow> ('e + 'a) \<times> 's"

definition ok :: "'a \<Rightarrow> ('s, 'e, 'a) action" where
  "ok x = (\<lambda>s. (Inr x, s))"

definition err :: "'e \<Rightarrow> ('s, 'e, 'a) action" where
  "err e = (\<lambda>s. (Inl e, s))"

definition andthen :: "('s, 'e, 'a) action \<Rightarrow> ('a \<Rightarrow> ('s, 'e, 'b) action) \<Rightarrow> ('s, 'e, 'b) action" where
  "andthen m f = (\<lambda>s. case m s of (Inl e, s') \<Rightarrow> (Inl e, s') | (Inr x, s') \<Rightarrow> f x s')"

definition map_err :: "('e \<Rightarrow> 'f) \<Rightarrow> 'e + 'a \<Rightarrow> 'f + 'a" where
  "map_err f r = (case r of Inl e \<Rightarrow> Inl (f e) | Inr x \<Rightarrow> Inr x)"

definition action_err :: "('e \<Rightarrow> 'f) \<Rightarrow> ('s, 'e, 'a) action \<Rightarrow> ('s, 'f, 'a) action" where
  "action_err f m = (\<lambda>s. case m s of (r, s') \<Rightarrow> (map_err f r, s'))"

definition lift_result :: "'e + 'a \<Rightarrow> ('s, 'e, 'a) action" where
  "lift_result r = (\<lambda>s. (r, s))"

definition is_ok :: "'e + 'a \<Rightarrow> bool" where
  "is_ok r = (case r of Inl _ \<Rightarrow> False | Inr _ \<Rightarrow> True)"

lemma map_err_simps [simp, result_simps]:
  "map_err f (Inl e) = Inl (f e)" "map_err f (Inr x) = Inr x"
  by (simp_all add: map_err_def)

lemma map_err_eq_Inr [simp]: "map_err f r = Inr x \<longleftrightarrow> r = Inr x"
  by (cases r) simp_all

lemma map_err_eq_Inl: "map_err f r = Inl e \<longleftrightarrow> (\<exists>e'. r = Inl e' \<and> e = f e')"
  by (cases r) auto

lemma is_ok_simps [simp, result_simps]: "is_ok (Inr x)" "\<not> is_ok (Inl e)"
  by (simp_all add: is_ok_def)

lemma ok_apply [simp, result_simps]: "ok x s = (Inr x, s)"
  by (simp add: ok_def)

lemma err_apply [simp, result_simps]: "err e s = (Inl e, s)"
  by (simp add: err_def)

lemma lift_result_apply [simp, result_simps]: "lift_result r s = (r, s)"
  by (simp add: lift_result_def)

lemma action_err_apply: "action_err f m s = (map_err f (fst (m s)), snd (m s))"
  by (simp add: action_err_def split: prod.split)

lemma action_err_Inr [simp]: "action_err f m s = (Inr x, s') \<longleftrightarrow> m s = (Inr x, s')"
  by (cases "m s") (auto simp: action_err_def)

lemma action_err_Inl: "action_err f m s = (Inl e, s') \<longleftrightarrow> (\<exists>e'. m s = (Inl e', s') \<and> e = f e')"
  by (cases "m s") (auto simp: action_err_def map_err_eq_Inl)

lemma andthen_Inr_iff: "andthen m f s = (Inr y, t) \<longleftrightarrow> (\<exists>x s'. m s = (Inr x, s') \<and> f x s' = (Inr y, t))"
  by (auto simp: andthen_def split: prod.splits sum.splits)

lemma andthen_Inl_iff:
  "andthen m f s = (Inl e, t) \<longleftrightarrow>
     m s = (Inl e, t) \<or> (\<exists>x s'. m s = (Inr x, s') \<and> f x s' = (Inl e, t))"
  by (auto simp: andthen_def split: prod.splits sum.splits)

lemma andthen_ok [result_simps]: "m s = (Inr x, s') \<Longrightarrow> andthen m f s = f x s'"
  by (simp add: andthen_def)

lemma andthen_err [result_simps]: "m s = (Inl e, s') \<Longrightarrow> andthen m f s = (Inl e, s')"
  by (simp add: andthen_def)

text \<open>Evaluation waits for the state, so that a computation is not unfolded before it is run.\<close>

lemma run_code [code]:
  "ok x s = (Inr x, s)" "err e s = (Inl e, s)" "lift_result r s = (r, s)"
  "andthen m f s = (case m s of (Inl e, s') \<Rightarrow> (Inl e, s') | (Inr x, s') \<Rightarrow> f x s')"
  "action_err g m s = (case m s of (r, s') \<Rightarrow> (map_err g r, s'))"
  by (simp_all add: andthen_def action_err_def)

lemma andthen_assoc: "andthen (andthen m f) g = andthen m (\<lambda>x. andthen (f x) g)"
  by (rule ext) (auto simp: andthen_def split: prod.splits sum.splits)

lemma snd_andthen: "snd (andthen m f s) = (case m s of (Inl e, s') \<Rightarrow> s' | (Inr x, s') \<Rightarrow> snd (f x s'))"
  by (auto simp: andthen_def split: prod.splits sum.splits)

section \<open>Big-endian encodings\<close>

text \<open>
  \<open>be_val\<close> reads a byte string as an unsigned big-endian number and \<open>be_bytes n v\<close> writes the low
  \<open>n\<close> bytes of \<open>v\<close>; Rust's \<open>to_be_bytes\<close> and \<open>from_be_bytes\<close> on \<open>u32\<close> and \<open>u64\<close> are their instances.
\<close>

fun be_val :: "bytes \<Rightarrow> nat" where
  "be_val [] = 0"
| "be_val (b # bs) = unat b * 256 ^ length bs + be_val bs"

fun be_bytes :: "nat \<Rightarrow> nat \<Rightarrow> bytes" where
  "be_bytes 0 v = []"
| "be_bytes (Suc n) v = be_bytes n (v div 256) @ [of_nat (v mod 256)]"

definition u32_to_be :: "u32 \<Rightarrow> bytes" where
  "u32_to_be w = be_bytes 4 (unat w)"

definition u64_to_be :: "u64 \<Rightarrow> bytes" where
  "u64_to_be w = be_bytes 8 (unat w)"

definition u32_from_be :: "bytes \<Rightarrow> u32" where
  "u32_from_be bs = of_nat (be_val bs)"

lemma be_val_replicate_0 [simp]: "be_val (replicate n 0) = 0"
  by (induction n) auto

lemma be_bytes_0 [simp]: "be_bytes n 0 = replicate n 0"
  by (induction n) (auto simp: replicate_append_same)

lemma length_be_bytes [simp]: "length (be_bytes n v) = n"
  by (induction n arbitrary: v) auto

lemma be_val_append: "be_val (xs @ ys) = be_val xs * 256 ^ length ys + be_val ys"
  by (induction xs) (auto simp: algebra_simps power_add)

lemma unat_u8_less [simp]: "unat (b :: u8) < 256"
  using unsigned_less [where ?'a = nat and w = b] by simp

lemma be_val_less: "be_val bs < 256 ^ length bs"
proof (induction bs)
  case (Cons b bs)
  have "unat b * 256 ^ length bs + be_val bs < (unat b + 1) * 256 ^ length bs"
    using Cons by simp
  also have "\<dots> \<le> 256 * 256 ^ length bs"
    using unat_u8_less [of b] by (intro mult_le_mono1) linarith
  finally show ?case by simp
qed simp

lemma unat_of_nat_byte [simp]: "unat (of_nat (v mod 256) :: u8) = v mod 256"
  by (simp add: unsigned_of_nat take_bit_eq_mod)

lemma be_val_be_bytes: "be_val (be_bytes n v) = v mod 256 ^ n"
proof (induction n arbitrary: v)
  case (Suc n)
  have "v mod 256 ^ Suc n = 256 * (v div 256 mod 256 ^ n) + v mod 256"
    by (simp add: mod_mult2_eq)
  then show ?case using Suc by (simp add: be_val_append mult.commute)
qed simp

lemma be_val_inject: "length xs = length ys \<Longrightarrow> be_val xs = be_val ys \<Longrightarrow> xs = ys"
proof (induction xs ys rule: list_induct2)
  case (Cons x xs y ys)
  have xs: "be_val xs < 256 ^ length xs" and ys: "be_val ys < 256 ^ length xs"
    using be_val_less [of xs] be_val_less [of ys] Cons.hyps by simp_all
  have eq: "unat x * 256 ^ length xs + be_val xs = unat y * 256 ^ length xs + be_val ys"
    using Cons.prems Cons.hyps by simp
  have "unat x = (unat x * 256 ^ length xs + be_val xs) div 256 ^ length xs"
    using xs by simp
  moreover have "unat y = (unat y * 256 ^ length xs + be_val ys) div 256 ^ length xs"
    using ys by simp
  ultimately have "unat x = unat y"
    using eq by simp
  then show ?case
    using eq Cons.IH by (simp add: word_unat_eq_iff)
qed simp

lemma be_bytes_be_val: "be_bytes (length bs) (be_val bs) = bs"
  by (rule be_val_inject) (simp_all add: be_val_be_bytes be_val_less)

lemma length_u32_to_be [simp]: "length (u32_to_be w) = 4"
  by (simp add: u32_to_be_def)

lemma length_u64_to_be [simp]: "length (u64_to_be w) = 8"
  by (simp add: u64_to_be_def)

lemma unat_u32_less [simp]: "unat (w :: u32) < 4294967296"
  using unsigned_less [where ?'a = nat and w = w] by simp

lemma unat_u64_less [simp]: "unat (w :: u64) < 18446744073709551616"
  using unsigned_less [where ?'a = nat and w = w] by simp

lemma be_val_u32_to_be [simp]: "be_val (u32_to_be w) = unat w"
  by (simp add: u32_to_be_def be_val_be_bytes)

lemma be_val_u64_to_be [simp]: "be_val (u64_to_be w) = unat w"
  by (simp add: u64_to_be_def be_val_be_bytes)

lemma u32_from_to_be [simp]: "u32_from_be (u32_to_be w) = w"
  by (simp add: u32_from_be_def)

lemma u32_to_from_be: "length bs = 4 \<Longrightarrow> u32_to_be (u32_from_be bs) = bs"
proof -
  assume len: "length bs = 4"
  have "be_val bs < 4294967296"
    using be_val_less [of bs] len by simp
  then have "unat (u32_from_be bs) = be_val bs"
    by (simp add: u32_from_be_def unsigned_of_nat take_bit_nat_eq_self_iff)
  then show ?thesis
    using be_bytes_be_val [of bs] len by (simp add: u32_to_be_def)
qed

lemma u32_to_be_inject [simp]: "u32_to_be v = u32_to_be w \<longleftrightarrow> v = w"
  by (metis u32_from_to_be)

lemma u64_to_be_inject [simp]: "u64_to_be v = u64_to_be w \<longleftrightarrow> v = w"
  by (metis be_val_u64_to_be word_unat_eq_iff)

text \<open>\<open>u32::MAX\<close> and the successor below it.\<close>

definition u32_max :: u32 where
  "u32_max = 0xFFFFFFFF"

lemma u32_max_eq: "u32_max = - 1"
  by (simp add: u32_max_def)

lemma unat_suc_u32: "w \<noteq> u32_max \<Longrightarrow> unat (w + 1 :: u32) = Suc (unat w)"
  by (metis add.commute u32_max_eq unatSuc add_eq_0_iff)

lemma neq_u32_max: "unat w < 2 ^ 32 - 1 \<Longrightarrow> w \<noteq> u32_max"
  by (auto simp: u32_max_def)

section \<open>Self-delimiting encodings\<close>

text \<open>
  The interface of an encoding whose end can be found from its beginning: from a concatenation
  both the encoded value and the rest are determined.  A sequence of such encodings is injective,
  which is what the associated data of a wrapped key needs.
\<close>

locale self_delimiting =
  fixes enc :: "'a \<Rightarrow> bytes"
    and valid :: "'a \<Rightarrow> bool"
  assumes enc_append_inject:
    "valid x \<Longrightarrow> valid y \<Longrightarrow> enc x @ r = enc y @ s \<Longrightarrow> x = y \<and> r = s"
begin

lemma split_off:
  assumes "valid x" "valid y"
  shows "enc x @ r = enc y @ s \<longleftrightarrow> x = y \<and> r = s"
  using enc_append_inject [OF assms] by auto

lemma enc_inject:
  assumes "valid x" "valid y"
  shows "enc x = enc y \<longleftrightarrow> x = y"
  using split_off [OF assms, of "[]" "[]"] by simp

end

interpretation be32: self_delimiting u32_to_be "\<lambda>_. True"
  by unfold_locales (auto simp: append_eq_append_conv)

interpretation be64: self_delimiting u64_to_be "\<lambda>_. True"
  by unfold_locales (auto simp: append_eq_append_conv)

section \<open>ASCII\<close>

definition is_ascii_digit :: "u8 \<Rightarrow> bool" where
  "is_ascii_digit b \<longleftrightarrow> 48 \<le> b \<and> b \<le> 57"

definition is_ascii_uppercase :: "u8 \<Rightarrow> bool" where
  "is_ascii_uppercase b \<longleftrightarrow> 65 \<le> b \<and> b \<le> 90"

definition is_ascii_lowercase :: "u8 \<Rightarrow> bool" where
  "is_ascii_lowercase b \<longleftrightarrow> 97 \<le> b \<and> b \<le> 122"

definition is_ascii_alphanumeric :: "u8 \<Rightarrow> bool" where
  "is_ascii_alphanumeric b \<longleftrightarrow> is_ascii_digit b \<or> is_ascii_uppercase b \<or> is_ascii_lowercase b"

definition char_to_lower :: "char \<Rightarrow> char" where
  "char_to_lower c = (if is_ascii_uppercase (of_char c) then char_of (unat (of_char c + 32 :: u8)) else c)"

definition to_ascii_lowercase :: "string \<Rightarrow> string" where
  "to_ascii_lowercase s = map char_to_lower s"

definition eq_ignore_ascii_case :: "string \<Rightarrow> string \<Rightarrow> bool" where
  "eq_ignore_ascii_case s t \<longleftrightarrow> to_ascii_lowercase s = to_ascii_lowercase t"

lemma length_to_ascii_lowercase [simp]: "length (to_ascii_lowercase s) = length s"
  by (simp add: to_ascii_lowercase_def)

lemma eq_ignore_ascii_case_refl [simp]: "eq_ignore_ascii_case s s"
  by (simp add: eq_ignore_ascii_case_def)

section \<open>Decimal printing\<close>

text \<open>\<open>Display\<close> of the unsigned integers.\<close>

fun show_nat :: "nat \<Rightarrow> string" where
  "show_nat n = (if n < 10 then [char_of (48 + n)] else show_nat (n div 10) @ [char_of (48 + n mod 10)])"

declare show_nat.simps [simp del]

section \<open>Lists\<close>

lemma append_split_longer:
  assumes "xs @ ys = us @ vs" "length us \<le> length xs"
  obtains ws where "xs = us @ ws" "vs = ws @ ys"
proof -
  have "us = take (length us) xs" "vs = drop (length us) xs @ ys"
    using assms by (auto simp: append_eq_append_conv_if split: if_splits)
  then show thesis using that [of "drop (length us) xs"] by (metis append_take_drop_id)
qed

section \<open>Chunks\<close>

text \<open>Splitting a list into pieces of \<open>n\<close> elements, the last one possibly shorter.\<close>

function chunks :: "nat \<Rightarrow> 'a list \<Rightarrow> 'a list list" where
  "chunks n xs = (if n = 0 \<or> xs = [] then [] else take n xs # chunks n (drop n xs))"
  by pat_completeness auto
termination
  by (relation "measure (\<lambda>(n, xs). length xs)") auto

declare chunks.simps [simp del]

lemma chunks_Nil [simp]: "chunks n [] = []"
  by (subst chunks.simps) simp

lemma chunks_step: "0 < n \<Longrightarrow> xs \<noteq> [] \<Longrightarrow> chunks n xs = take n xs # chunks n (drop n xs)"
  by (subst chunks.simps) simp

lemma concat_chunks: "0 < n \<Longrightarrow> concat (chunks n xs) = xs"
proof (induction n xs rule: chunks.induct)
  case (1 n xs)
  then show ?case
    by (cases "xs = []") (simp_all add: chunks_step)
qed

lemma chunks_short: "0 < n \<Longrightarrow> xs \<noteq> [] \<Longrightarrow> length xs \<le> n \<Longrightarrow> chunks n xs = [xs]"
  by (simp add: chunks_step)

lemma chunks_full: "0 < n \<Longrightarrow> length xs = n \<Longrightarrow> chunks n (xs @ ys) = xs # chunks n ys"
  by (subst chunks.simps) auto

lemma chunks_bounds: "0 < n \<Longrightarrow> c \<in> set (chunks n xs) \<Longrightarrow> c \<noteq> [] \<and> length c \<le> n"
proof (induction n xs rule: chunks.induct)
  case (1 n xs)
  then show ?case
    by (cases "xs = []") (auto simp: chunks_step)
qed

lemma length_chunks_le: "0 < n \<Longrightarrow> length xs \<le> k * n \<Longrightarrow> length (chunks n xs) \<le> k"
proof (induction k arbitrary: xs)
  case (Suc k)
  show ?case
  proof (cases "xs = []")
    case False
    have "length (chunks n (drop n xs)) \<le> k"
      using Suc.prems by (intro Suc.IH) auto
    then show ?thesis using Suc.prems(1) False by (simp add: chunks_step)
  qed simp
qed simp

end
