(* ===== verification/Vault_Error.thy ===== *)
theory Vault_Error
  imports Vault_Prelude
begin

text \<open>
  The errors of the program: \<open>std::io::Error\<close> as far as the code looks at it, and \<open>VaultError\<close> of
  \<open>src/error.rs\<close> with the \<open>Display\<close> strings its \<open>thiserror\<close> attributes give.
\<close>

section \<open>I/O errors\<close>

datatype error_kind =
    NotFound | PermissionDenied | ConnectionRefused | AlreadyExists | WouldBlock | TimedOut
  | Interrupted | UnexpectedEof | WriteZero | InvalidData | InvalidInput | OtherKind

text \<open>
  An \<open>io::Error\<close> has a kind, a message, and possibly a custom source.  The only custom source the
  program downcasts to is its own \<open>IntegrityIoError\<close>, kept here as the optional payload.
\<close>

record io_error =
  io_kind :: error_kind
  io_integrity_payload :: "string option"
  io_message :: string

definition io_other :: "string \<Rightarrow> io_error" where
  "io_other m = \<lparr>io_kind = OtherKind, io_integrity_payload = None, io_message = m\<rparr>"

definition os_error :: "error_kind \<Rightarrow> string \<Rightarrow> io_error" where
  "os_error k m = \<lparr>io_kind = k, io_integrity_payload = None, io_message = m\<rparr>"

definition unexpected_eof :: io_error where
  "unexpected_eof = os_error UnexpectedEof ''failed to fill whole buffer''"

lemma io_kind_simps [simp]:
  "io_kind (io_other m) = OtherKind" "io_kind (os_error k m) = k" "io_kind unexpected_eof = UnexpectedEof"
  "io_integrity_payload (io_other m) = None" "io_integrity_payload (os_error k m) = None"
  "io_integrity_payload unexpected_eof = None"
  by (simp_all add: io_other_def os_error_def unexpected_eof_def)

section \<open>VaultError\<close>

datatype vault_error =
    Io io_error
  | Authentication
  | Integrity string
  | InvalidConfiguration string
  | UserExists string
  | Locked
  | Launch string
  | Protocol string
  | PeerRejected u32
  | DaemonAlreadyRunning
  | UnsupportedPlatform string
  | Serialization string
  | Cryptography string

type_synonym 'a vault_result = "vault_error + 'a"
type_synonym 'a io_result = "io_error + 'a"

fun vault_error_display :: "vault_error \<Rightarrow> string" where
  "vault_error_display (Io e) = ''I/O error: '' @ io_message e"
| "vault_error_display Authentication = ''invalid username or password''"
| "vault_error_display (Integrity m) = ''vault integrity verification failed: '' @ m"
| "vault_error_display (InvalidConfiguration m) = ''invalid configuration: '' @ m"
| "vault_error_display (UserExists u) = ''user already exists: '' @ u"
| "vault_error_display Locked = ''this user vault is already unlocked''"
| "vault_error_display (Launch m) = ''failed to launch Codex: '' @ m"
| "vault_error_display (Protocol m) = ''daemon protocol error: '' @ m"
| "vault_error_display (PeerRejected uid) = ''daemon rejected peer UID '' @ show_nat (unat uid)"
| "vault_error_display DaemonAlreadyRunning = ''Codex Vault daemon is already running''"
| "vault_error_display (UnsupportedPlatform m) = ''unsupported platform: '' @ m"
| "vault_error_display (Serialization m) = ''serialization error: '' @ m"
| "vault_error_display (Cryptography m) = ''cryptographic operation failed: '' @ m"

text \<open>\<open>io::Error::other(error.to_string())\<close>, as the writer wraps its errors.\<close>

definition io_error_of_vault :: "vault_error \<Rightarrow> io_error" where
  "io_error_of_vault e = io_other (vault_error_display e)"

end
