(* ===== verification/Rust_Io.thy ===== *)
theory Rust_Io
  imports Vault_Error
begin

text \<open>
  The parts of \<open>std::io\<close> the program reads and writes through.  A reader is a script of what its
  successive \<open>read\<close> calls can deliver: runs of bytes (a call takes at most what it asked for) and
  errors.  A writer is a handle into a state with the operations \<open>write_all\<close> and \<open>flush\<close>; the
  interface \<open>byte_sink\<close> says what a sink promises, and a \<open>Vec<u8>\<close> is its first instance.
\<close>

section \<open>Readers\<close>

datatype read_event = Chunk bytes | Fail io_error

type_synonym source = "read_event list"

text \<open>One call of \<open>read\<close> with a buffer of \<open>n\<close> bytes; no event left is the end of the input.\<close>

fun read_once :: "nat \<Rightarrow> source \<Rightarrow> bytes io_result \<times> source" where
  "read_once n [] = (Inr [], [])"
| "read_once n (Fail e # es) = (if n = 0 then (Inr [], Fail e # es) else (Inl e, es))"
| "read_once n (Chunk b # es) =
     (if length b \<le> n then (Inr b, es) else (Inr (take n b), Chunk (drop n b) # es))"

text \<open>\<open>Read::read_exact\<close>: interrupted reads are retried, an empty read is the end of the input.\<close>

fun read_exact :: "nat \<Rightarrow> source \<Rightarrow> bytes io_result \<times> source" where
  "read_exact n [] = (if n = 0 then (Inr [], []) else (Inl unexpected_eof, []))"
| "read_exact n (Fail e # es) =
     (if n = 0 then (Inr [], Fail e # es)
      else if io_kind e = Interrupted then read_exact n es
      else (Inl e, es))"
| "read_exact n (Chunk b # es) =
     (if n = 0 then (Inr [], Chunk b # es)
      else if b = [] then (Inl unexpected_eof, es)
      else if length b \<le> n then
        (case read_exact (n - length b) es of
           (Inl e, es') \<Rightarrow> (Inl e, es')
         | (Inr r, es') \<Rightarrow> (Inr (b @ r), es'))
      else (Inr (take n b), Chunk (drop n b) # es))"

text \<open>The bytes a script still holds, and the scripts with neither errors nor early ends.\<close>

fun source_data :: "source \<Rightarrow> bytes" where
  "source_data [] = []"
| "source_data (Fail e # es) = source_data es"
| "source_data (Chunk b # es) = b @ source_data es"

definition plain_source :: "source \<Rightarrow> bool" where
  "plain_source es \<longleftrightarrow> (\<forall>e \<in> set es. case e of Chunk b \<Rightarrow> b \<noteq> [] | Fail _ \<Rightarrow> False)"

text \<open>A regular file read from its start, or a \<open>Cursor\<close> over a byte string.\<close>

definition bytes_source :: "bytes \<Rightarrow> source" where
  "bytes_source bs = (if bs = [] then [] else [Chunk bs])"

lemma source_data_bytes_source [simp]: "source_data (bytes_source bs) = bs"
  by (simp add: bytes_source_def)

lemma plain_bytes_source [simp]: "plain_source (bytes_source bs)"
  by (simp add: bytes_source_def plain_source_def)

lemma plain_source_simps [simp]:
  "plain_source []" "\<not> plain_source (Fail e # es)"
  "plain_source (Chunk b # es) \<longleftrightarrow> b \<noteq> [] \<and> plain_source es"
  by (auto simp: plain_source_def)

lemma read_exact_0 [simp]: "read_exact 0 es = (Inr [], es)"
  by (cases es rule: source_data.cases) auto

lemma read_exact_Inr:
  "read_exact n es = (Inr r, es') \<Longrightarrow> length r = n \<and> source_data es = r @ source_data es'"
proof (induction n es arbitrary: r es' rule: read_exact.induct)
  case (3 n b es)
  show ?case
  proof (cases "n \<noteq> 0 \<and> b \<noteq> [] \<and> length b \<le> n")
    case True
    with "3.prems" obtain r0 where r0: "read_exact (n - length b) es = (Inr r0, es')" "r = b @ r0"
      by (cases "read_exact (n - length b) es") (simp split: sum.splits)
    with True show ?thesis using "3.IH" [OF _ _ _ r0(1)] by simp
  qed (use "3.prems" in \<open>auto split: if_splits\<close>)
qed (auto split: if_splits)

lemma read_exact_data_le: "length (source_data (snd (read_exact n es))) \<le> length (source_data es)"
proof (induction n es rule: read_exact.induct)
  case (3 n b es)
  then show ?case
    by (cases "read_exact (n - length b) es") (auto split: sum.splits)
qed auto

lemma read_once_Inr: "read_once n es = (Inr r, es') \<Longrightarrow> source_data es = r @ source_data es'"
  by (induction n es rule: read_once.induct) (auto split: if_splits)

lemma read_once_Inl: "read_once n es = (Inl e, es') \<Longrightarrow> source_data es = source_data es' \<and> es = Fail e # es'"
  by (induction n es rule: read_once.induct) (auto split: if_splits)

lemma read_exact_plain:
  assumes "plain_source es"
  shows "if n \<le> length (source_data es)
         then \<exists>es'. read_exact n es = (Inr (take n (source_data es)), es') \<and> plain_source es'
                \<and> source_data es' = drop n (source_data es)
         else \<exists>es'. read_exact n es = (Inl unexpected_eof, es')"
  using assms
proof (induction n es rule: read_exact.induct)
  case (3 n b es)
  show ?case
  proof (cases "n \<noteq> 0 \<and> length b \<le> n")
    case True
    then have "b \<noteq> []" "plain_source es" using "3.prems" by auto
    with True "3.IH" show ?thesis
      by (auto split: if_splits)
  next
    case False
    then show ?thesis using "3.prems" by auto
  qed
qed auto

lemma read_exact_enough:
  assumes "plain_source es" "source_data es = r @ rest"
  obtains es' where "read_exact (length r) es = (Inr r, es')" "plain_source es'" "source_data es' = rest"
  using read_exact_plain [OF assms(1), of "length r"] assms(2) by auto

lemma read_exact_short:
  assumes "plain_source es" "length (source_data es) < n"
  obtains es' where "read_exact n es = (Inl unexpected_eof, es')"
  using read_exact_plain [OF assms(1), of n] assms(2) by auto

lemma read_exact_plain_source:
  assumes "plain_source es" "read_exact n es = (Inr r, es')"
  shows "plain_source es'"
  using read_exact_plain [OF assms(1), of n] assms(2) by (auto split: if_splits)

lemma read_once_plain:
  assumes "plain_source es" "0 < n"
  shows "fst (read_once n es) = Inr [] \<longleftrightarrow> source_data es = []"
    and "\<exists>r. fst (read_once n es) = Inr r"
  using assms by (cases es rule: source_data.cases; auto)+

section \<open>Writers\<close>

text \<open>
  \<open>impl Write\<close>: the operations the program calls on a writer, over a handle \<open>'h\<close> into a state \<open>'s\<close>.
\<close>

record ('h, 's) write_ops =
  op_write_all :: "'h \<Rightarrow> bytes \<Rightarrow> ('s, io_error, unit) action"
  op_flush :: "'h \<Rightarrow> ('s, io_error, unit) action"

text \<open>
  The promise of a byte sink: what it holds after a successful \<open>write_all\<close> is what it held with the
  bytes appended, and after a failed one what it held with some beginning of the bytes appended.
\<close>

locale byte_sink =
  fixes ops :: "('h, 's) write_ops"
    and content :: "'h \<Rightarrow> 's \<Rightarrow> bytes"
    and live :: "'h \<Rightarrow> 's \<Rightarrow> bool"
  assumes write_all_ok:
      "live h s \<Longrightarrow> op_write_all ops h b s = (Inr u, s') \<Longrightarrow> live h s' \<and> content h s' = content h s @ b"
    and write_all_err:
      "live h s \<Longrightarrow> op_write_all ops h b s = (Inl e, s') \<Longrightarrow>
         live h s' \<and> (\<exists>p. prefix p b \<and> content h s' = content h s @ p)"
    and flush_keeps:
      "live h s \<Longrightarrow> op_flush ops h s = (r, s') \<Longrightarrow> live h s' \<and> content h s' = content h s"
begin

lemma write_all_grows:
  assumes "live h s" "op_write_all ops h b s = (r, s')"
  shows "live h s' \<and> prefix (content h s) (content h s')"
proof (cases r)
  case (Inl e)
  then show ?thesis using write_all_err [of h s b e s'] assms by auto
next
  case (Inr u)
  then show ?thesis using write_all_ok [of h s b u s'] assms by auto
qed

end

text \<open>A \<open>Vec<u8>\<close> as a writer: the state is the vector, and nothing fails.\<close>

definition vec_ops :: "(unit, bytes) write_ops" where
  "vec_ops = \<lparr>op_write_all = (\<lambda>_ b v. (Inr (), v @ b)), op_flush = (\<lambda>_ v. (Inr (), v))\<rparr>"

interpretation vec: byte_sink vec_ops "\<lambda>_ v. v" "\<lambda>_ _. True"
  by unfold_locales (auto simp: vec_ops_def)

end
