(* ===== verification/Frame_Format.thy ===== *)
theory Frame_Format
  imports Rust_Io
begin

text \<open>
  The format of an encrypted vault, \<open>src/crypto/vault_stream.rs\<close>: its constants, the nonce of a frame
  (\<open>nonce_bytes\<close>), the header of a frame (\<open>frame_header\<close>), and the parameters that stand for the
  \<open>aes-gcm\<close> and \<open>getrandom\<close> crates with the behaviour of theirs the code relies on.  The last section
  is the format as a whole: the byte string a vault with given contents must be.
\<close>

unbundle bit_operations_syntax

section \<open>Third-party primitives\<close>

text \<open>
  \<open>Aes256Gcm\<close>: which byte strings are accepted as a key and as a nonce, and encryption and decryption
  of a message with associated data, each of which can fail (\<open>None\<close>).
\<close>

record aead =
  aead_key_ok :: "bytes \<Rightarrow> bool"
  aead_nonce_ok :: "bytes \<Rightarrow> bool"
  aead_encrypt :: "bytes \<Rightarrow> bytes \<Rightarrow> bytes \<Rightarrow> bytes \<Rightarrow> bytes option"
  aead_decrypt :: "bytes \<Rightarrow> bytes \<Rightarrow> bytes \<Rightarrow> bytes \<Rightarrow> bytes option"

text \<open>
  What AES-256-GCM documents: 32-byte keys and 12-byte nonces are accepted, messages of up to the
  size the program uses are encrypted, with a tag of 16 bytes added, and decrypt to themselves.
\<close>

definition aead_sizes :: "aead \<Rightarrow> bool" where
  "aead_sizes A \<longleftrightarrow>
     (\<forall>k. aead_key_ok A k = (length k = 32)) \<and> (\<forall>n. aead_nonce_ok A n = (length n = 12)) \<and>
     (\<forall>k n a m c. aead_encrypt A k n a m = Some c \<longrightarrow> length c = length m + 16)"

definition aead_decrypts :: "aead \<Rightarrow> bool" where
  "aead_decrypts A \<longleftrightarrow>
     (\<forall>k n a m. length k = 32 \<longrightarrow> length n = 12 \<longrightarrow> length m \<le> 65536 \<longrightarrow>
        (\<exists>c. aead_encrypt A k n a m = Some c \<and> aead_decrypt A k n a c = Some m))"

text \<open>
  Authenticity under one key, as an assumption on the primitive: what decrypts under the key was
  encrypted under it, with the same nonce and associated data, in one of the recorded calls.
\<close>

definition aead_authentic :: "aead \<Rightarrow> bytes \<Rightarrow> (bytes \<times> bytes \<times> bytes) set \<Rightarrow> bool" where
  "aead_authentic A k log \<longleftrightarrow>
     (\<forall>n a c m. aead_decrypt A k n a c = Some m \<longrightarrow>
        (n, a, m) \<in> log \<and> aead_encrypt A k n a m = Some c)"

text \<open>\<open>getrandom::fill\<close> on a buffer of \<open>n\<close> bytes: an error, or the buffer filled.\<close>

type_synonym 's entropy = "nat \<Rightarrow> ('s, unit, bytes) action"

definition entropy_fills :: "'s entropy \<Rightarrow> bool" where
  "entropy_fills fill \<longleftrightarrow> (\<forall>n s b s'. fill n s = (Inr b, s') \<longrightarrow> length b = n)"

lemma aead_sizesD:
  assumes "aead_sizes A"
  shows "aead_key_ok A k = (length k = 32)" "aead_nonce_ok A n = (length n = 12)"
    "aead_encrypt A k n a m = Some c \<Longrightarrow> length c = length m + 16"
  using assms by (auto simp: aead_sizes_def)

lemma aead_decryptsD:
  assumes "aead_decrypts A" "aead_encrypt A k n a m = Some c"
    and "length k = 32" "length n = 12" "length m \<le> 65536"
  shows "aead_decrypt A k n a c = Some m"
  using assms unfolding aead_decrypts_def by (metis option.inject)

section \<open>Constants\<close>

definition magic :: bytes where
  "magic = as_bytes ''CDXVLT02''"

definition nonce_seed_length :: nat where "nonce_seed_length = 12"
definition file_header_length :: nat where "file_header_length = length magic + nonce_seed_length"
definition frame_header_length :: nat where "frame_header_length = 9"
definition tag_length :: nat where "tag_length = 16"
definition chunk_size :: nat where "chunk_size = 64 * 1024"
definition data_frame :: u8 where "data_frame = 0"
definition final_frame :: u8 where "final_frame = 1"

lemma length_magic [simp]: "length magic = 8"
  by (simp add: magic_def)

lemmas [layout_simps] = nonce_seed_length_def frame_header_length_def tag_length_def

lemma file_header_length [layout_simps]: "file_header_length = 20"
  by (simp add: file_header_length_def layout_simps)

lemma chunk_size_pos [simp]: "0 < chunk_size"
  by (simp add: chunk_size_def)

lemma chunk_size_u32: "chunk_size < 2 ^ 32"
  by (simp add: chunk_size_def)

lemma frame_types_differ [simp]: "data_frame \<noteq> final_frame" "final_frame \<noteq> data_frame"
  by (simp_all add: data_frame_def final_frame_def)

section \<open>Nonces\<close>

text \<open>
  The loop of \<open>nonce_bytes\<close> runs over the seed from its last byte to its first with a 64-bit carry
  that starts as the sequence number; \<open>nonce_loop\<close> takes the seed reversed.
\<close>

fun nonce_loop :: "bytes \<Rightarrow> u64 \<Rightarrow> bytes \<times> u64" where
  "nonce_loop [] carry = ([], carry)"
| "nonce_loop (b # bs) carry =
     (let sum = ucast b + (carry AND 0xff);
          b' = ucast (sum AND 0xff);
          (bs', carry') = nonce_loop bs (drop_bit 8 carry + drop_bit 8 sum)
      in (b' # bs', carry'))"

definition nonce_bytes :: "bytes \<Rightarrow> u32 \<Rightarrow> bytes vault_result" where
  "nonce_bytes seed seq =
     (case nonce_loop (rev seed) (ucast seq) of (bs, carry) \<Rightarrow>
        if carry \<noteq> 0 then Inl (Cryptography ''vault nonce sequence overflow'') else Inr (rev bs))"

text \<open>The loop adds: the digits it leaves and its last carry make the sum of the seed and the carry.\<close>

lemma unat_and_ff: "unat (w AND 0xff :: 'a::len word) = unat w mod 256"
proof -
  have "w AND 0xff = take_bit 8 w"
    by (simp add: take_bit_eq_mask mask_eq_exp_minus_1)
  then show ?thesis
    by (simp only: unsigned_take_bit_eq) (simp add: take_bit_eq_mod)
qed

lemma nonce_loop_step:
  fixes b :: u8 and c :: u64
  assumes "unat c < 2 ^ 63"
  defines "s \<equiv> ucast b + (c AND 0xff)"
  shows "unat s = unat b + unat c mod 256"
    and "unat (ucast (s AND 0xff) :: u8) = unat s mod 256"
    and "unat (drop_bit 8 c + drop_bit 8 s) = unat c div 256 + unat s div 256"
proof -
  have cm: "unat (c AND 0xff) = unat c mod 256"
    by (rule unat_and_ff)
  have ub: "unat (ucast b :: u64) = unat b"
    using order_less_trans [OF unat_u8_less [of b]]
    by (simp add: unsigned_ucast_eq take_bit_nat_eq_self_iff)
  have lt: "unat c mod 256 < 256" by simp
  show s: "unat s = unat b + unat c mod 256"
    unfolding s_def unat_word_ariths ub cm
    using add_strict_mono [OF unat_u8_less [of b] lt] by simp
  have "unat (s AND 0xff) = unat s mod 256"
    by (rule unat_and_ff)
  then show "unat (ucast (s AND 0xff) :: u8) = unat s mod 256"
    by (simp add: unsigned_ucast_eq take_bit_eq_mod)
  have "unat s div 256 < 2"
    unfolding s using add_strict_mono [OF unat_u8_less [of b] lt] by (intro less_mult_imp_div_less) simp
  moreover have "unat c div 256 \<le> unat c" by (rule div_le_dividend)
  ultimately have "unat c div 256 + unat s div 256 < 2 ^ 64"
    using assms(1) by simp
  then show "unat (drop_bit 8 c + drop_bit 8 s) = unat c div 256 + unat s div 256"
    by (simp add: unat_word_ariths unsigned_drop_bit_eq drop_bit_eq_div)
qed

lemma nonce_loop_adds:
  "nonce_loop bs c = (bs', c') \<Longrightarrow> unat c < 2 ^ 63 \<Longrightarrow>
     length bs' = length bs \<and>
     be_val (rev bs') + unat c' * 256 ^ length bs = be_val (rev bs) + unat c"
proof (induction bs arbitrary: c bs' c')
  case (Cons b bs)
  define s where "s = ucast b + (c AND 0xff)"
  define d where "d = drop_bit 8 c + drop_bit 8 s"
  obtain t e where rec: "nonce_loop bs d = (t, e)" by fastforce
  note step = nonce_loop_step [OF Cons.prems(2), of b, folded s_def, folded d_def]
  have res: "bs' = ucast (s AND 0xff) # t" "c' = e"
    using Cons.prems(1) rec by (auto simp: s_def d_def Let_def)
  have "unat d < 2 ^ 63"
    unfolding step(1,3) using Cons.prems(2) unat_u8_less [of b] by linarith
  from Cons.IH [OF rec this] have len: "length t = length bs"
    and IH: "be_val (rev t) + unat e * 256 ^ length bs = be_val (rev bs) + unat d" by auto
  have "be_val (rev bs') + unat c' * 256 ^ length (b # bs)
      = 256 * (be_val (rev t) + unat e * 256 ^ length bs) + unat s mod 256"
    by (simp add: res be_val_append step(2) algebra_simps)
  also have "\<dots> = 256 * be_val (rev bs) + 256 * (unat c div 256) + (256 * (unat s div 256) + unat s mod 256)"
    unfolding IH step(3) by simp
  also have "\<dots> = 256 * be_val (rev bs) + 256 * (unat c div 256) + (unat b + unat c mod 256)"
    using step(1) by simp
  also have "\<dots> = be_val (rev (b # bs)) + unat c"
    by (simp add: be_val_append)
  finally show ?case using len res by simp
qed simp

lemma unat_ucast_u32_u64: "unat (ucast (w :: u32) :: u64) = unat w"
  using order_less_trans [OF unat_u32_less [of w]]
  by (simp add: unsigned_ucast_eq take_bit_nat_eq_self_iff)

text \<open>\<open>nonce_bytes\<close> is addition to the seed read as a big-endian number, with overflow an error.\<close>

lemma nonce_bytes_eq:
  "nonce_bytes seed seq =
     (if be_val seed + unat seq < 256 ^ length seed
      then Inr (be_bytes (length seed) (be_val seed + unat seq))
      else Inl (Cryptography ''vault nonce sequence overflow''))"
proof -
  obtain bs c where loop: "nonce_loop (rev seed) (ucast seq) = (bs, c)" by fastforce
  have "unat (ucast seq :: u64) < 2 ^ 63"
    using order_less_trans [OF unat_u32_less [of seq]] by (simp add: unat_ucast_u32_u64)
  from nonce_loop_adds [OF loop this] have len: "length bs = length seed"
    and sum: "be_val (rev bs) + unat c * 256 ^ length seed = be_val seed + unat seq"
    by (simp_all add: unat_ucast_u32_u64)
  have less: "be_val (rev bs) < 256 ^ length seed"
    using be_val_less [of "rev bs"] len by simp
  show ?thesis
  proof (cases "c = 0")
    case True
    then have "be_val (rev bs) = be_val seed + unat seq" using sum by simp
    moreover have "rev bs = be_bytes (length seed) (be_val (rev bs))"
      using be_bytes_be_val [of "rev bs"] len by simp
    ultimately show ?thesis
      using True less by (simp add: nonce_bytes_def loop)
  next
    case False
    then have "1 \<le> unat c" by (simp add: Suc_le_eq unat_gt_0)
    then have "1 * 256 ^ length seed \<le> unat c * 256 ^ length seed" by (rule mult_le_mono1)
    then have "\<not> be_val seed + unat seq < 256 ^ length seed" using sum by linarith
    then show ?thesis
      using False by (simp add: nonce_bytes_def loop)
  qed
qed

lemma nonce_bytes_Inr:
  assumes "nonce_bytes seed seq = Inr n"
  shows "length n = length seed" "be_val n = be_val seed + unat seq"
  using assms by (auto simp: nonce_bytes_eq be_val_be_bytes split: if_splits)

lemma nonce_bytes_inject:
  assumes "nonce_bytes seed i = Inr n" "nonce_bytes seed j = Inr n"
  shows "i = j"
  using nonce_bytes_Inr(2) [OF assms(1)] nonce_bytes_Inr(2) [OF assms(2)]
  by (simp add: word_unat_eq_iff)

section \<open>Frame headers\<close>

definition frame_header :: "u8 \<Rightarrow> u32 \<Rightarrow> nat \<Rightarrow> bytes vault_result" where
  "frame_header frame_type seq len =
     (if len < 2 ^ 32 then Inr ([frame_type] @ u32_to_be seq @ u32_to_be (of_nat len))
      else Inl (Cryptography ''vault frame length overflow''))"

lemma frame_header_Inr:
  "len < 2 ^ 32 \<Longrightarrow> frame_header ty seq len = Inr (ty # u32_to_be seq @ u32_to_be (of_nat len))"
  by (simp add: frame_header_def)

lemma length_frame_header: "frame_header ty seq len = Inr h \<Longrightarrow> length h = frame_header_length"
  by (auto simp: frame_header_def layout_simps split: if_splits)

text \<open>The fields a reader takes from the nine bytes of a header.\<close>

definition header_type :: "bytes \<Rightarrow> u8" where
  "header_type h = h ! 0"

definition header_sequence :: "bytes \<Rightarrow> u32" where
  "header_sequence h = u32_from_be [h ! 1, h ! 2, h ! 3, h ! 4]"

definition header_length :: "bytes \<Rightarrow> nat" where
  "header_length h = unat (u32_from_be [h ! 5, h ! 6, h ! 7, h ! 8])"

lemma length4E:
  assumes "length xs = 4"
  obtains a b c d where "xs = [a, b, c, d]"
  using assms by (auto simp: numeral_eq_Suc length_Suc_conv)

lemma unat_of_nat_u32: "n < 2 ^ 32 \<Longrightarrow> unat (of_nat n :: u32) = n"
  by (simp add: unsigned_of_nat take_bit_nat_eq_self_iff)

lemma header_fields:
  assumes "frame_header ty seq len = Inr h"
  shows "header_type h = ty" "header_sequence h = seq" "header_length h = len"
proof -
  have len: "len < 2 ^ 32" and h: "h = ty # u32_to_be seq @ u32_to_be (of_nat len)"
    using assms by (auto simp: frame_header_def split: if_splits)
  obtain a b c d where s: "u32_to_be seq = [a, b, c, d]"
    by (rule length4E [OF length_u32_to_be])
  obtain p q r t where l: "u32_to_be (of_nat len) = [p, q, r, t]"
    by (rule length4E [OF length_u32_to_be])
  have "u32_from_be [a, b, c, d] = seq" "u32_from_be [p, q, r, t] = of_nat len"
    by (simp_all flip: s l)
  then show "header_type h = ty" "header_sequence h = seq" "header_length h = len"
    using len by (simp_all add: header_type_def header_sequence_def header_length_def h s l unat_of_nat_u32)
qed

lemma header_rebuild:
  assumes "length h = 9"
  shows "h = header_type h # u32_to_be (header_sequence h) @ u32_to_be (of_nat (header_length h))"
proof -
  obtain a0 a1 a2 a3 a4 a5 a6 a7 a8 where h: "h = [a0, a1, a2, a3, a4, a5, a6, a7, a8]"
    using assms by (auto simp: numeral_eq_Suc length_Suc_conv)
  show ?thesis
    by (simp add: h header_type_def header_sequence_def header_length_def u32_to_from_be)
qed

lemma header_rebuild_frame:
  "length h = 9 \<Longrightarrow> frame_header (header_type h) (header_sequence h) (header_length h) = Inr h"
  using header_rebuild [of h] by (simp add: frame_header_def header_length_def)

section \<open>The format as a whole\<close>

text \<open>
  One frame with its ciphertext, and a vault: the file header, a data frame for every chunk, the
  final frame.  \<open>None\<close> where a step of the encoding is refused.
\<close>

definition file_header_of :: "bytes \<Rightarrow> bytes" where
  "file_header_of seed = magic @ seed"

definition encode_frame :: "aead \<Rightarrow> bytes \<Rightarrow> bytes \<Rightarrow> u32 \<Rightarrow> u8 \<Rightarrow> bytes \<Rightarrow> bytes option" where
  "encode_frame A key seed seq ty plain =
     (case (frame_header ty seq (length plain), nonce_bytes seed seq) of
        (Inr h, Inr n) \<Rightarrow>
          map_option (\<lambda>c. h @ c) (aead_encrypt A key n (file_header_of seed @ h) plain)
      | _ \<Rightarrow> None)"

fun encode_frames :: "aead \<Rightarrow> bytes \<Rightarrow> bytes \<Rightarrow> u32 \<Rightarrow> bytes list \<Rightarrow> bytes option" where
  "encode_frames A key seed seq [] = encode_frame A key seed seq final_frame []"
| "encode_frames A key seed seq (p # ps) =
     (case encode_frame A key seed seq data_frame p of
        None \<Rightarrow> None
      | Some f \<Rightarrow> map_option (\<lambda>fs. f @ fs) (encode_frames A key seed (seq + 1) ps))"

definition encode_vault :: "aead \<Rightarrow> bytes \<Rightarrow> bytes \<Rightarrow> bytes list \<Rightarrow> bytes option" where
  "encode_vault A key seed ps = map_option (\<lambda>fs. file_header_of seed @ fs) (encode_frames A key seed 0 ps)"

text \<open>The data frames alone; a vault is the file header, these, and the final frame.\<close>

fun encode_data :: "aead \<Rightarrow> bytes \<Rightarrow> bytes \<Rightarrow> u32 \<Rightarrow> bytes list \<Rightarrow> bytes option" where
  "encode_data A key seed seq [] = Some []"
| "encode_data A key seed seq (p # ps) =
     (case encode_frame A key seed seq data_frame p of
        None \<Rightarrow> None
      | Some f \<Rightarrow> map_option (\<lambda>fs. f @ fs) (encode_data A key seed (seq + 1) ps))"

text \<open>The same frames as a list, one byte string each.\<close>

fun encode_frame_list :: "aead \<Rightarrow> bytes \<Rightarrow> bytes \<Rightarrow> u32 \<Rightarrow> bytes list \<Rightarrow> bytes list option" where
  "encode_frame_list A key seed seq [] = map_option (\<lambda>f. [f]) (encode_frame A key seed seq final_frame [])"
| "encode_frame_list A key seed seq (p # ps) =
     (case encode_frame A key seed seq data_frame p of
        None \<Rightarrow> None
      | Some f \<Rightarrow> map_option (\<lambda>fs. f # fs) (encode_frame_list A key seed (seq + 1) ps))"

lemma encode_frames_list:
  "encode_frames A key seed seq ps = map_option concat (encode_frame_list A key seed seq ps)"
  by (induction ps arbitrary: seq) (auto simp: option.map_comp o_def option.map_ident split: option.split)

lemma encode_frames_data:
  "encode_frames A key seed seq ps = Some bs \<longleftrightarrow>
     (\<exists>d f. encode_data A key seed seq ps = Some d \<and>
            encode_frame A key seed (seq + of_nat (length ps)) final_frame [] = Some f \<and> bs = d @ f)"
  by (induction ps arbitrary: seq bs) (auto simp: algebra_simps split: option.splits)

lemma encode_data_snoc:
  "encode_data A key seed seq (ps @ [p]) = Some bs \<longleftrightarrow>
     (\<exists>d f. encode_data A key seed seq ps = Some d \<and>
            encode_frame A key seed (seq + of_nat (length ps)) data_frame p = Some f \<and> bs = d @ f)"
  by (induction ps arbitrary: seq bs) (auto simp: algebra_simps split: option.splits)

lemma encode_frame_Some:
  "encode_frame A key seed seq ty plain = Some f \<longleftrightarrow>
     (\<exists>h n c. frame_header ty seq (length plain) = Inr h \<and> nonce_bytes seed seq = Inr n \<and>
            aead_encrypt A key n (file_header_of seed @ h) plain = Some c \<and> f = h @ c)"
  by (auto simp: encode_frame_def split: sum.splits)

lemma encode_frames_nonces:
  "encode_frames A key seed seq ps = Some bs \<Longrightarrow> i \<le> length ps \<Longrightarrow>
     is_ok (nonce_bytes seed (seq + of_nat i))"
proof (induction ps arbitrary: seq bs i)
  case (Cons p ps)
  then show ?case
    by (cases i) (force simp: encode_frame_Some algebra_simps split: option.splits)+
qed (auto simp: encode_frame_Some)

text \<open>Where the encoding exists: enough room above the seed and below the sequence limit.\<close>

lemma encode_frame_exists:
  assumes "aead_decrypts A" "length key = 32" "length seed = 12" "length plain \<le> chunk_size"
    and "be_val seed + unat seq < 256 ^ 12"
  shows "\<exists>f. encode_frame A key seed seq ty plain = Some f"
proof -
  have "length plain < 2 ^ 32" using assms(4) chunk_size_u32 by simp
  then obtain h where h: "frame_header ty seq (length plain) = Inr h"
    by (simp add: frame_header_def)
  obtain n where n: "nonce_bytes seed seq = Inr n"
    using assms(3,5) by (simp add: nonce_bytes_eq)
  have "length n = 12" using nonce_bytes_Inr(1) [OF n] assms(3) by simp
  then obtain c where "aead_encrypt A key n (file_header_of seed @ h) plain = Some c"
    using assms(1,2,4) unfolding aead_decrypts_def chunk_size_def by fastforce
  then show ?thesis using h n by (auto simp: encode_frame_Some)
qed

end
