(* ===== verification/Vault_Writer.thy ===== *)
theory Vault_Writer
  imports Frame_Format
begin

text \<open>
  \<open>VaultWriter\<close> of \<open>src/crypto/vault_stream.rs\<close>: the buffering encrypting writer.  The writer's record
  and the state of its sink are passed together; the lemmas inside \<open>byte_sink\<close> show what the sink
  holds after each operation, whatever the sink is, and those inside \<open>reliable_sink\<close> that a sink that
  accepts everything makes the operations succeed.
\<close>

section \<open>State\<close>

record 'h vault_writer =
  vw_inner :: "'h option"
  vw_cipher :: bytes
  vw_file_header :: bytes
  vw_nonce_seed :: bytes
  vw_pending :: bytes
  vw_sequence :: u32
  vw_finished :: bool

type_synonym ('h, 's, 'e, 'a) writer_action = "('h vault_writer \<times> 's, 'e, 'a) action"

definition writer_finished :: string where
  "writer_finished = ''vault writer is already finished''"

section \<open>Operations\<close>

definition vault_writer_new ::
  "aead \<Rightarrow> ('h, 's) write_ops \<Rightarrow> 's entropy \<Rightarrow> 'h \<Rightarrow> bytes \<Rightarrow> ('s, vault_error, 'h vault_writer) action" where
  "vault_writer_new A W fill inner data_key =
     andthen (action_err (\<lambda>_. Cryptography ''operating-system random source failed'') (fill nonce_seed_length))
       (\<lambda>nonce_seed. andthen (action_err Io (op_write_all W inner (magic @ nonce_seed)))
         (\<lambda>_. if \<not> aead_key_ok A data_key then err (Cryptography ''invalid vault data key'')
              else ok \<lparr>vw_inner = Some inner, vw_cipher = data_key, vw_file_header = magic @ nonce_seed,
                       vw_nonce_seed = nonce_seed, vw_pending = [], vw_sequence = 0,
                       vw_finished = False\<rparr>))"

definition vw_write_frame ::
  "aead \<Rightarrow> ('h, 's) write_ops \<Rightarrow> u8 \<Rightarrow> bytes \<Rightarrow> ('h, 's, vault_error, unit) writer_action" where
  "vw_write_frame A W frame_type plaintext = (\<lambda>(w, s).
     if vw_sequence w = u32_max then (Inl (Cryptography ''vault frame sequence exhausted''), (w, s))
     else case frame_header frame_type (vw_sequence w) (length plaintext) of
       Inl e \<Rightarrow> (Inl e, (w, s))
     | Inr header \<Rightarrow>
       (case nonce_bytes (vw_nonce_seed w) (vw_sequence w) of
          Inl e \<Rightarrow> (Inl e, (w, s))
        | Inr nonce \<Rightarrow>
          if \<not> aead_nonce_ok A nonce then (Inl (Cryptography ''invalid vault nonce''), (w, s))
          else (case aead_encrypt A (vw_cipher w) nonce (vw_file_header w @ header) plaintext of
             None \<Rightarrow> (Inl (Cryptography ''vault frame encryption failed''), (w, s))
           | Some ciphertext \<Rightarrow>
             (case vw_inner w of
                None \<Rightarrow> (Inl (Cryptography writer_finished), (w, s))
              | Some inner \<Rightarrow>
                (case op_write_all W inner header s of
                   (Inl e, s1) \<Rightarrow> (Inl (Io e), (w, s1))
                 | (Inr _, s1) \<Rightarrow>
                   (case op_write_all W inner ciphertext s1 of
                      (Inl e, s2) \<Rightarrow> (Inl (Io e), (w, s2))
                    | (Inr _, s2) \<Rightarrow> (Inr (), (w\<lparr>vw_sequence := vw_sequence w + 1\<rparr>, s2))))))))"

text \<open>
  \<open>Write::write\<close>: top up the pending bytes and emit them when they fill a chunk, emit the whole
  chunks of the rest, keep what is left.  Each part returns the input still to be written.
\<close>

definition vw_fill_pending ::
  "aead \<Rightarrow> ('h, 's) write_ops \<Rightarrow> bytes \<Rightarrow> ('h, 's, io_error, bytes) writer_action" where
  "vw_fill_pending A W input = (\<lambda>(w, s).
     if vw_pending w = [] then (Inr input, (w, s))
     else
       let needed = chunk_size - length (vw_pending w);
           n = min needed (length input);
           w1 = w\<lparr>vw_pending := vw_pending w @ take n input\<rparr>;
           rest = drop n input
       in if length (vw_pending w1) = chunk_size then
            andthen (action_err io_error_of_vault (vw_write_frame A W data_frame (vw_pending w1)))
              (\<lambda>_. ok rest) (w1\<lparr>vw_pending := []\<rparr>, s)
          else (Inr rest, (w1, s)))"

function vw_write_chunks ::
  "aead \<Rightarrow> ('h, 's) write_ops \<Rightarrow> bytes \<Rightarrow> ('h, 's, io_error, bytes) writer_action" where
  "vw_write_chunks A W input st =
     (if chunk_size \<le> length input then
        (case vw_write_frame A W data_frame (take chunk_size input) st of
           (Inl e, st') \<Rightarrow> (Inl (io_error_of_vault e), st')
         | (Inr _, st') \<Rightarrow> vw_write_chunks A W (drop chunk_size input) st')
      else (Inr input, st))"
  by pat_completeness auto
termination
  by (relation "measure (\<lambda>(A, W, input, st). length input)") (simp_all add: chunk_size_def)

declare vw_write_chunks.simps [simp del]

definition vw_keep_pending :: "bytes \<Rightarrow> ('h, 's, io_error, unit) writer_action" where
  "vw_keep_pending input = (\<lambda>(w, s). (Inr (), (w\<lparr>vw_pending := vw_pending w @ input\<rparr>, s)))"

definition vw_write :: "aead \<Rightarrow> ('h, 's) write_ops \<Rightarrow> bytes \<Rightarrow> ('h, 's, io_error, nat) writer_action" where
  "vw_write A W input = (\<lambda>(w, s).
     if vw_finished w then (Inl (io_other writer_finished), (w, s))
     else andthen (vw_fill_pending A W input)
       (\<lambda>rest. andthen (vw_write_chunks A W rest)
         (\<lambda>rest. andthen (vw_keep_pending rest) (\<lambda>_. ok (length input)))) (w, s))"

definition vw_flush :: "('h, 's) write_ops \<Rightarrow> ('h, 's, io_error, unit) writer_action" where
  "vw_flush W = (\<lambda>(w, s).
     case vw_inner w of
       None \<Rightarrow> (Inl (io_other writer_finished), (w, s))
     | Some inner \<Rightarrow> (case op_flush W inner s of (r, s') \<Rightarrow> (r, (w, s'))))"

text \<open>
  \<open>write_all\<close> of the standard library, as the archive builder calls it: \<open>write\<close> until all is
  written, which for this writer is after one call.
\<close>

definition vw_write_all :: "aead \<Rightarrow> ('h, 's) write_ops \<Rightarrow> bytes \<Rightarrow> ('h, 's, io_error, unit) writer_action" where
  "vw_write_all A W input =
     (if input = [] then ok () else andthen (vw_write A W input) (\<lambda>_. ok ()))"

fun vw_write_list :: "aead \<Rightarrow> ('h, 's) write_ops \<Rightarrow> bytes list \<Rightarrow> ('h, 's, io_error, unit) writer_action" where
  "vw_write_list A W [] = ok ()"
| "vw_write_list A W (x # xs) = andthen (vw_write_all A W x) (\<lambda>_. vw_write_list A W xs)"

definition vw_finish_pending :: "aead \<Rightarrow> ('h, 's) write_ops \<Rightarrow> ('h, 's, vault_error, unit) writer_action" where
  "vw_finish_pending A W = (\<lambda>(w, s).
     if vw_pending w = [] then (Inr (), (w, s))
     else vw_write_frame A W data_frame (vw_pending w) (w\<lparr>vw_pending := []\<rparr>, s))"

definition vw_finish_inner :: "('h, 's) write_ops \<Rightarrow> ('h, 's, vault_error, 'h) writer_action" where
  "vw_finish_inner W = (\<lambda>(w, s).
     case vw_inner w of
       None \<Rightarrow> (Inl (Cryptography writer_finished), (w, s))
     | Some inner \<Rightarrow>
       (case op_flush W inner s of
          (Inl e, s') \<Rightarrow> (Inl (Io e), (w, s'))
        | (Inr _, s') \<Rightarrow> (Inr inner, (w\<lparr>vw_finished := True, vw_inner := None\<rparr>, s'))))"

definition vw_finish :: "aead \<Rightarrow> ('h, 's) write_ops \<Rightarrow> ('h, 's, vault_error, 'h) writer_action" where
  "vw_finish A W =
     andthen (vw_finish_pending A W)
       (\<lambda>_. andthen (vw_write_frame A W final_frame []) (\<lambda>_. vw_finish_inner W))"

text \<open>A whole vault: open the writer, hand it the inputs one call each, finish it.\<close>

definition write_vault ::
  "aead \<Rightarrow> ('h, 's) write_ops \<Rightarrow> 's entropy \<Rightarrow> 'h \<Rightarrow> bytes \<Rightarrow> bytes list \<Rightarrow> ('s, vault_error, unit) action" where
  "write_vault A W fill inner data_key inputs =
     andthen (vault_writer_new A W fill inner data_key)
       (\<lambda>w s. case andthen (action_err Io (vw_write_list A W inputs)) (\<lambda>_. vw_finish A W) (w, s) of
          (r, (_, s')) \<Rightarrow> (case r of Inl e \<Rightarrow> Inl e | Inr _ \<Rightarrow> Inr (), s'))"

section \<open>What the sink holds\<close>

text \<open>
  The writer's invariant.  \<open>cs\<close> are the chunks emitted so far, each of the full size; the sink holds
  what it held at the start, the file header and the frames of \<open>cs\<close>; the next sequence number is
  the number of frames; less than a chunk is pending.
\<close>

context byte_sink
begin

definition writer_rep ::
  "aead \<Rightarrow> bytes \<Rightarrow> bytes \<Rightarrow> 'h \<Rightarrow> bytes \<Rightarrow> bytes list \<Rightarrow> 'h vault_writer \<Rightarrow> 's \<Rightarrow> bool" where
  "writer_rep A key seed h base cs w s \<longleftrightarrow>
     live h s \<and> vw_inner w = Some h \<and> vw_cipher w = key \<and> vw_nonce_seed w = seed \<and>
     vw_file_header w = file_header_of seed \<and> \<not> vw_finished w \<and>
     length (vw_pending w) < chunk_size \<and> (\<forall>c \<in> set cs. length c = chunk_size) \<and>
     unat (vw_sequence w) = length cs \<and>
     (\<exists>d. encode_data A key seed 0 cs = Some d \<and> content h s = base @ file_header_of seed @ d)"

lemma write_frame_Inr:
  assumes "vw_write_frame A ops ty p (w, s) = (Inr u, (w', s'))"
    and "vw_inner w = Some h" "live h s" "vw_file_header w = file_header_of (vw_nonce_seed w)"
  obtains f where "encode_frame A (vw_cipher w) (vw_nonce_seed w) (vw_sequence w) ty p = Some f"
    and "live h s'" "content h s' = content h s @ f"
    and "w' = w\<lparr>vw_sequence := vw_sequence w + 1\<rparr>" "vw_sequence w \<noteq> u32_max"
proof -
  obtain hd n c s1 u1 u2 where
      hd: "frame_header ty (vw_sequence w) (length p) = Inr hd"
    and n: "nonce_bytes (vw_nonce_seed w) (vw_sequence w) = Inr n"
    and c: "aead_encrypt A (vw_cipher w) n (file_header_of (vw_nonce_seed w) @ hd) p = Some c"
    and w1: "op_write_all ops h hd s = (Inr u1, s1)"
    and w2: "op_write_all ops h c s1 = (Inr u2, s')"
    and w': "w' = w\<lparr>vw_sequence := vw_sequence w + 1\<rparr>" and seq: "vw_sequence w \<noteq> u32_max"
    using assms(1,2,4) unfolding vw_write_frame_def
    by (auto split: if_splits sum.splits option.splits prod.splits)
  from write_all_ok [OF assms(3) w1] have 1: "live h s1" "content h s1 = content h s @ hd" by auto
  from write_all_ok [OF 1(1) w2] have 2: "live h s'" "content h s' = content h s @ hd @ c"
    using 1(2) by auto
  show thesis
    by (rule that [of "hd @ c"]) (use hd n c 2 w' seq in \<open>auto simp: encode_frame_Some\<close>)
qed

text \<open>Emitting one more full chunk keeps the invariant.\<close>

lemma emit_chunk:
  assumes rep: "writer_rep A key seed h base cs w s"
    and p: "length p = chunk_size" and pend: "length q < chunk_size"
    and wf: "vw_write_frame A ops data_frame p (w\<lparr>vw_pending := q\<rparr>, s) = (Inr u, (w', s'))"
  shows "writer_rep A key seed h base (cs @ [p]) w' s' \<and> vw_pending w' = q"
proof -
  let ?w = "w\<lparr>vw_pending := q\<rparr>"
  from rep obtain d where d: "encode_data A key seed 0 cs = Some d"
    and cont: "content h s = base @ file_header_of seed @ d"
    by (auto simp: writer_rep_def)
  from rep have w: "vw_inner ?w = Some h" "live h s" "vw_file_header ?w = file_header_of (vw_nonce_seed ?w)"
    by (auto simp: writer_rep_def)
  from write_frame_Inr [OF wf w] obtain f where
      f: "encode_frame A (vw_cipher ?w) (vw_nonce_seed ?w) (vw_sequence ?w) data_frame p = Some f"
    and s': "live h s'" "content h s' = content h s @ f"
    and w': "w' = ?w\<lparr>vw_sequence := vw_sequence ?w + 1\<rparr>" "vw_sequence ?w \<noteq> u32_max" by blast
  have "vw_sequence w = of_nat (length cs)"
    using rep by (metis writer_rep_def of_nat_unat ucast_id)
  then have "encode_data A key seed 0 (cs @ [p]) = Some (d @ f)"
    using d f rep by (auto simp: encode_data_snoc writer_rep_def)
  then show ?thesis
    using rep s' w' cont p pend by (auto simp: writer_rep_def unat_suc_u32)
qed

lemma write_chunks_Inr:
  assumes "vw_write_chunks A ops input (w, s) = (Inr rest, (w', s'))"
    and "writer_rep A key seed h base cs w s"
  shows "\<exists>cs'. writer_rep A key seed h base cs' w' s' \<and> vw_pending w' = vw_pending w \<and>
           concat cs' @ rest = concat cs @ input \<and> length rest < chunk_size"
  using assms
proof (induction input arbitrary: w s cs rule: measure_induct_rule [where f = length])
  case (less input)
  show ?case
  proof (cases "chunk_size \<le> length input")
    case True
    obtain u w1 s1 where wf: "vw_write_frame A ops data_frame (take chunk_size input) (w, s) = (Inr u, (w1, s1))"
      and rec: "vw_write_chunks A ops (drop chunk_size input) (w1, s1) = (Inr rest, (w', s'))"
      using less.prems(1) True
      by (subst (asm) vw_write_chunks.simps) (auto split: sum.splits prod.splits)
    have pend: "length (vw_pending w) < chunk_size"
      using less.prems(2) by (simp add: writer_rep_def)
    have wf': "vw_write_frame A ops data_frame (take chunk_size input)
        (w\<lparr>vw_pending := vw_pending w\<rparr>, s) = (Inr u, (w1, s1))"
      using wf by simp
    have "length (take chunk_size input) = chunk_size" using True by simp
    from emit_chunk [OF less.prems(2) this pend wf']
    have rep1: "writer_rep A key seed h base (cs @ [take chunk_size input]) w1 s1"
      and p1: "vw_pending w1 = vw_pending w" by auto
    have "length (drop chunk_size input) < length input"
      using True chunk_size_pos by (simp add: chunk_size_def)
    from less.IH [OF this rec rep1] p1 show ?thesis by auto
  next
    case False
    then have "rest = input" "w' = w" "s' = s"
      using less.prems(1) vw_write_chunks.simps [of A ops input "(w, s)"] by simp_all
    then show ?thesis using less.prems(2) False by auto
  qed
qed

lemma write_chunks_short:
  "length input < chunk_size \<Longrightarrow> vw_write_chunks A ops input st = (Inr input, st)"
  by (subst vw_write_chunks.simps) simp

lemma fill_pending_Inr:
  assumes "vw_fill_pending A ops input (w, s) = (Inr rest, (w', s'))"
    and rep: "writer_rep A key seed h base cs w s"
  shows "\<exists>cs'. writer_rep A key seed h base cs' w' s' \<and>
           concat cs' @ vw_pending w' @ rest = concat cs @ vw_pending w @ input \<and>
           (vw_pending w' = [] \<or> rest = [])"
proof (cases "vw_pending w = []")
  case True
  then show ?thesis using assms by (auto simp: vw_fill_pending_def)
next
  case False
  define n where "n = min (chunk_size - length (vw_pending w)) (length input)"
  define p where "p = vw_pending w @ take n input"
  have pend: "length (vw_pending w) < chunk_size"
    using rep by (simp add: writer_rep_def)
  have def': "vw_fill_pending A ops input (w, s) =
      (if length p = chunk_size
       then andthen (action_err io_error_of_vault (vw_write_frame A ops data_frame p))
              (\<lambda>_. ok (drop n input)) (w\<lparr>vw_pending := []\<rparr>, s)
       else (Inr (drop n input), (w\<lparr>vw_pending := p\<rparr>, s)))"
    using False by (simp add: vw_fill_pending_def Let_def n_def p_def)
  show ?thesis
  proof (cases "length p = chunk_size")
    case True
    then obtain u where wf: "vw_write_frame A ops data_frame p (w\<lparr>vw_pending := []\<rparr>, s) = (Inr u, (w', s'))"
      and rest: "rest = drop n input"
      using assms(1) def' by (auto simp: andthen_Inr_iff)
    from emit_chunk [OF rep True _ wf] show ?thesis
      by (auto simp: p_def rest intro!: exI [of _ "cs @ [p]"])
  next
    case False
    then have eqs: "rest = drop n input" "w' = w\<lparr>vw_pending := p\<rparr>" "s' = s"
      using assms(1) def' by simp_all
    have "length p < chunk_size" "rest = []"
      using False pend by (auto simp: p_def n_def eqs min_def split: if_splits)
    then show ?thesis
      using rep eqs by (auto simp: writer_rep_def p_def)
  qed
qed

lemma write_Inr:
  assumes "vw_write A ops input (w, s) = (Inr n, (w', s'))"
    and rep: "writer_rep A key seed h base cs w s"
  shows "n = length input \<and> (\<exists>cs'. writer_rep A key seed h base cs' w' s' \<and>
           concat cs' @ vw_pending w' = concat cs @ vw_pending w @ input)"
proof -
  have "\<not> vw_finished w" using rep by (simp add: writer_rep_def)
  then obtain rest w1 s1 rest2 w2 s2 where
      fill: "vw_fill_pending A ops input (w, s) = (Inr rest, (w1, s1))"
    and chunks: "vw_write_chunks A ops rest (w1, s1) = (Inr rest2, (w2, s2))"
    and fin: "w' = w2\<lparr>vw_pending := vw_pending w2 @ rest2\<rparr>" "s' = s2" "n = length input"
    using assms(1) by (auto simp: vw_write_def andthen_Inr_iff vw_keep_pending_def)
  from fill_pending_Inr [OF fill rep] obtain cs1 where
      rep1: "writer_rep A key seed h base cs1 w1 s1"
    and eq1: "concat cs1 @ vw_pending w1 @ rest = concat cs @ vw_pending w @ input"
    and emp: "vw_pending w1 = [] \<or> rest = []" by blast
  from write_chunks_Inr [OF chunks rep1] obtain cs2 where
      rep2: "writer_rep A key seed h base cs2 w2 s2" and pend: "vw_pending w2 = vw_pending w1"
    and eq2: "concat cs2 @ rest2 = concat cs1 @ rest" and short: "length rest2 < chunk_size" by blast
  show ?thesis
  proof (cases "rest = []")
    case True
    then have "rest2 = []" "w2 = w1" "s2 = s1"
      using chunks write_chunks_short [of "[]" A "(w1, s1)"] by simp_all
    then show ?thesis using rep1 eq1 True fin by auto
  next
    case False
    then have "vw_pending w1 = []" using emp by simp
    then show ?thesis
      using rep2 eq1 eq2 pend short fin by (auto simp: writer_rep_def)
  qed
qed

lemma write_list_Inr:
  assumes "vw_write_list A ops xs (w, s) = (Inr u, (w', s'))"
    and "writer_rep A key seed h base cs w s"
  shows "\<exists>cs'. writer_rep A key seed h base cs' w' s' \<and>
           concat cs' @ vw_pending w' = concat cs @ vw_pending w @ concat xs"
  using assms
proof (induction xs arbitrary: w s cs)
  case (Cons x xs)
  show ?case
  proof (cases "x = []")
    case True
    then show ?thesis using Cons by (auto simp: andthen_Inr_iff vw_write_all_def)
  next
    case False
    then obtain n w1 s1 where "vw_write A ops x (w, s) = (Inr n, (w1, s1))"
      and rec: "vw_write_list A ops xs (w1, s1) = (Inr u, (w', s'))"
      using Cons.prems(1) by (auto simp: andthen_Inr_iff vw_write_all_def)
    from write_Inr [OF this(1) Cons.prems(2)] obtain cs1 where
      rep1: "writer_rep A key seed h base cs1 w1 s1"
      and eq1: "concat cs1 @ vw_pending w1 = concat cs @ vw_pending w @ x" by blast
    from Cons.IH [OF rec rep1] eq1 show ?thesis by auto
  qed
qed auto

text \<open>Full chunks followed by a shorter rest are what splitting their concatenation gives.\<close>

lemma chunks_of_full:
  "(\<forall>c \<in> set cs. length c = chunk_size) \<Longrightarrow> length p < chunk_size \<Longrightarrow>
     chunks chunk_size (concat cs @ p) = cs @ (if p = [] then [] else [p])"
  by (induction cs) (auto simp: chunks_full chunks_short)

lemma finish_Inr:
  assumes "vw_finish A ops (w, s) = (Inr r, (w', s'))"
    and rep: "writer_rep A key seed h base cs w s"
  shows "r = h \<and> live h s' \<and> vw_finished w' \<and>
    (\<exists>bs. encode_vault A key seed (chunks chunk_size (concat cs @ vw_pending w)) = Some bs \<and>
          content h s' = base @ bs)"
proof -
  let ?p = "vw_pending w" let ?ps = "cs @ (if ?p = [] then [] else [?p])"
  from assms(1) obtain u1 w1 s1 u2 w2 s2 where
      fin1: "vw_finish_pending A ops (w, s) = (Inr u1, (w1, s1))"
    and wf: "vw_write_frame A ops final_frame [] (w1, s1) = (Inr u2, (w2, s2))"
    and fin2: "vw_finish_inner ops (w2, s2) = (Inr r, (w', s'))"
    by (auto simp: vw_finish_def andthen_Inr_iff)
  from rep obtain d where d: "encode_data A key seed 0 cs = Some d"
    and cont: "content h s = base @ file_header_of seed @ d" and inner: "vw_inner w = Some h"
    and seq: "unat (vw_sequence w) = length cs" "vw_sequence w = of_nat (length cs)"
    and w: "live h s" "vw_file_header w = file_header_of seed" "vw_nonce_seed w = seed" "vw_cipher w = key"
    by (auto simp: writer_rep_def) (metis of_nat_unat ucast_id)
  have "\<exists>d1. encode_data A key seed 0 ?ps = Some d1 \<and> content h s1 = base @ file_header_of seed @ d1 \<and>
      live h s1 \<and> vw_inner w1 = Some h \<and> vw_sequence w1 = of_nat (length ?ps) \<and>
      vw_file_header w1 = file_header_of seed \<and> vw_nonce_seed w1 = seed \<and> vw_cipher w1 = key"
  proof (cases "?p = []")
    case True
    then show ?thesis using fin1 d cont inner seq w by (auto simp: vw_finish_pending_def)
  next
    case False
    then have "vw_write_frame A ops data_frame ?p (w\<lparr>vw_pending := []\<rparr>, s) = (Inr u1, (w1, s1))"
      using fin1 by (simp add: vw_finish_pending_def)
    then obtain f where "encode_frame A key seed (vw_sequence w) data_frame ?p = Some f"
      and "live h s1" "content h s1 = content h s @ f"
      and "w1 = w\<lparr>vw_pending := [], vw_sequence := vw_sequence w + 1\<rparr>"
      by (rule write_frame_Inr) (use inner w in auto)
    then show ?thesis
      using False d cont inner seq w by (auto simp: encode_data_snoc algebra_simps)
  qed
  then obtain d1 where d1: "encode_data A key seed 0 ?ps = Some d1"
    and cont1: "content h s1 = base @ file_header_of seed @ d1" and live1: "live h s1"
    and w1: "vw_inner w1 = Some h" "vw_sequence w1 = of_nat (length ?ps)"
      "vw_file_header w1 = file_header_of seed" "vw_nonce_seed w1 = seed" "vw_cipher w1 = key" by blast
  obtain f where f: "encode_frame A key seed (of_nat (length ?ps)) final_frame [] = Some f"
    and live2: "live h s2" and cont2: "content h s2 = content h s1 @ f"
    and w2: "w2 = w1\<lparr>vw_sequence := vw_sequence w1 + 1\<rparr>"
    by (rule write_frame_Inr [OF wf w1(1) live1]) (use w1 in auto)
  have fl: "op_flush ops h s2 = (Inr (), s')" "r = h" "vw_finished w'"
    using fin2 w1 w2 by (auto simp: vw_finish_inner_def split: sum.splits prod.splits)
  have "encode_vault A key seed ?ps = Some (file_header_of seed @ d1 @ f)"
    using d1 f by (auto simp: encode_vault_def encode_frames_data)
  moreover have "chunks chunk_size (concat cs @ ?p) = ?ps"
    by (rule chunks_of_full) (use rep in \<open>auto simp: writer_rep_def\<close>)
  ultimately show ?thesis
    using flush_keeps [OF live2 fl(1)] fl cont1 cont2 by auto
qed

text \<open>The random source does not touch the sink.\<close>

definition fill_quiet :: "'s entropy \<Rightarrow> 'h \<Rightarrow> 's \<Rightarrow> bool" where
  "fill_quiet fill h s \<longleftrightarrow> (\<forall>n r s1. fill n s = (r, s1) \<longrightarrow> live h s1 \<and> content h s1 = content h s)"

lemma fill_quietD:
  assumes "fill_quiet fill h s" "fill n s = (r, s1)"
  shows "live h s1" "content h s1 = content h s"
  using assms by (auto simp: fill_quiet_def)

lemma writer_new_Inr:
  assumes "vault_writer_new A ops fill h key s = (Inr w, s')"
    and "entropy_fills fill" "fill_quiet fill h s"
  obtains seed s1 where "fill nonce_seed_length s = (Inr seed, s1)" "length seed = 12"
    and "writer_rep A key seed h (content h s) [] w s'" "vw_pending w = []"
proof -
  obtain seed s1 u where fill: "fill nonce_seed_length s = (Inr seed, s1)"
    and wr: "op_write_all ops h (magic @ seed) s1 = (Inr u, s')"
    and w: "w = \<lparr>vw_inner = Some h, vw_cipher = key, vw_file_header = magic @ seed,
      vw_nonce_seed = seed, vw_pending = [], vw_sequence = 0, vw_finished = False\<rparr>"
    using assms(1)
    by (auto simp: vault_writer_new_def andthen_Inr_iff err_def ok_def split: if_splits)
  note quiet = fill_quietD [OF assms(3) fill]
  with write_all_ok [OF quiet(1) wr] show thesis
    using that [OF fill] assms(2) fill w
    by (auto simp: writer_rep_def file_header_of_def entropy_fills_def layout_simps)
qed

lemma write_vault_Inr:
  assumes "write_vault A ops fill h key xs s = (Inr u, s')"
    and fills: "entropy_fills fill" "fill_quiet fill h s"
  shows "\<exists>seed s1 bs. fill nonce_seed_length s = (Inr seed, s1) \<and> length seed = 12 \<and>
    encode_vault A key seed (chunks chunk_size (concat xs)) = Some bs \<and>
    live h s' \<and> content h s' = content h s @ bs"
proof -
  let ?run = "andthen (action_err Io (vw_write_list A ops xs)) (\<lambda>_. vw_finish A ops)"
  obtain w s1 where new: "vault_writer_new A ops fill h key s = (Inr w, s1)"
    and rest: "(case ?run (w, s1) of (r, (_, s')) \<Rightarrow> (case r of Inl e \<Rightarrow> Inl e | Inr _ \<Rightarrow> Inr (), s')) = (Inr u, s')"
    using assms(1) by (auto simp: write_vault_def andthen_Inr_iff)
  from rest obtain r w3 where "?run (w, s1) = (Inr r, (w3, s'))"
    by (cases "?run (w, s1)") (auto split: sum.splits)
  then obtain u1 w2 s2 where
      list: "vw_write_list A ops xs (w, s1) = (Inr u1, (w2, s2))"
    and fin: "vw_finish A ops (w2, s2) = (Inr r, (w3, s'))"
    by (auto simp: andthen_Inr_iff)
  from writer_new_Inr [OF new fills] obtain seed s0 where
      seed: "fill nonce_seed_length s = (Inr seed, s0)" "length seed = 12"
    and rep: "writer_rep A key seed h (content h s) [] w s1" and p: "vw_pending w = []" by blast
  from write_list_Inr [OF list rep] obtain cs where
      rep2: "writer_rep A key seed h (content h s) cs w2 s2"
    and eq: "concat cs @ vw_pending w2 = concat xs" using p by auto
  from finish_Inr [OF fin rep2] seed eq show ?thesis by auto
qed

end

section \<open>Sinks that accept everything\<close>

text \<open>
  With room for \<open>n\<close> data frames and the final frame above the seed and below the sequence limit, a
  writer over a sink that never fails succeeds on any input of up to \<open>n\<close> chunks.
\<close>

definition frame_room :: "bytes \<Rightarrow> nat \<Rightarrow> bool" where
  "frame_room seed n \<longleftrightarrow> length seed = 12 \<and> be_val seed + n < 256 ^ 12 \<and> n < 2 ^ 32 - 1"

locale reliable_sink = byte_sink +
  assumes accepts: "live h s \<Longrightarrow> \<exists>s'. op_write_all ops h b s = (Inr (), s')"
    and flushes: "live h s \<Longrightarrow> \<exists>s'. op_flush ops h s = (Inr (), s')"
begin

lemma write_frame_ok:
  assumes "aead_sizes A" "aead_decrypts A" "length key = 32" "frame_room seed n"
    and "vw_inner w = Some h" "vw_cipher w = key" "vw_nonce_seed w = seed"
      "vw_file_header w = file_header_of seed" "live h s"
    and "unat (vw_sequence w) \<le> n" "length p \<le> chunk_size"
  shows "\<exists>w' s'. vw_write_frame A ops ty p (w, s) = (Inr (), (w', s'))"
proof -
  have seq: "vw_sequence w \<noteq> u32_max"
    using assms(4,10) by (auto simp: frame_room_def u32_max_def)
  have "be_val seed + unat (vw_sequence w) < 256 ^ 12" "length seed = 12"
    using assms(4,10) by (auto simp: frame_room_def)
  from encode_frame_exists [OF assms(2,3) this(2) assms(11) this(1), of ty]
  obtain hd m c where e: "frame_header ty (vw_sequence w) (length p) = Inr hd"
      "nonce_bytes seed (vw_sequence w) = Inr m"
      "aead_encrypt A key m (file_header_of seed @ hd) p = Some c"
    by (auto simp: encode_frame_Some)
  have nonce: "aead_nonce_ok A m"
    using aead_sizesD(2) [OF assms(1)] nonce_bytes_Inr(1) [OF e(2)] \<open>length seed = 12\<close> by simp
  obtain s1 where s1: "op_write_all ops h hd s = (Inr (), s1)" using accepts [OF assms(9)] by blast
  then obtain s2 where "op_write_all ops h c s1 = (Inr (), s2)"
    using accepts write_all_ok [OF assms(9) s1] by blast
  then show ?thesis
    using e seq nonce s1 assms(5-8) by (simp add: vw_write_frame_def)
qed

lemma rep_write_frame_ok:
  assumes "aead_sizes A" "aead_decrypts A" "length key = 32" "frame_room seed n"
    and "writer_rep A key seed h base cs w s" "length cs \<le> n" "length p \<le> chunk_size"
  shows "\<exists>w' s'. vw_write_frame A ops ty p (w\<lparr>vw_pending := q\<rparr>, s) = (Inr (), (w', s'))"
  by (rule write_frame_ok [OF assms(1-4)]) (use assms(5-7) in \<open>auto simp: writer_rep_def\<close>)

lemma length_concat_full:
  "\<forall>c \<in> set cs. length c = k \<Longrightarrow> length (concat cs) = length cs * k"
  by (induction cs) auto

lemma rep_length: "writer_rep A key seed h base cs w s \<Longrightarrow> length (concat cs) = length cs * chunk_size"
  by (rule length_concat_full) (simp add: writer_rep_def)

lemma fewer_chunks: "length cs * chunk_size + k \<le> n * chunk_size \<Longrightarrow> 0 < k \<Longrightarrow> length cs < n"
  by (metis add_leE le_add1 mult_less_cancel2 not_less order_less_le_trans less_add_same_cancel1)

lemma write_chunks_ok:
  assumes "aead_sizes A" "aead_decrypts A" "length key = 32" "frame_room seed n"
    and "writer_rep A key seed h base cs w s" "length (concat cs @ input) \<le> n * chunk_size"
  shows "\<exists>rest w' s'. vw_write_chunks A ops input (w, s) = (Inr rest, (w', s'))"
  using assms(5,6)
proof (induction input arbitrary: w s cs rule: measure_induct_rule [where f = length])
  case (less input)
  show ?case
  proof (cases "chunk_size \<le> length input")
    case True
    have "length cs * chunk_size + length input \<le> n * chunk_size"
      using less.prems by (simp add: rep_length)
    then have "length cs \<le> n"
      using fewer_chunks [of cs "length input" n] True chunk_size_pos by linarith
    have len: "length (take chunk_size input) = chunk_size" using True by simp
    obtain w1 s1 where wf: "vw_write_frame A ops data_frame (take chunk_size input)
        (w\<lparr>vw_pending := vw_pending w\<rparr>, s) = (Inr (), (w1, s1))"
      using rep_write_frame_ok [OF assms(1-4) less.prems(1) \<open>length cs \<le> n\<close>,
          of "take chunk_size input" data_frame "vw_pending w"] len
      by auto
    have "length (vw_pending w) < chunk_size" using less.prems(1) by (simp add: writer_rep_def)
    from emit_chunk [OF less.prems(1) len this wf]
    have rep1: "writer_rep A key seed h base (cs @ [take chunk_size input]) w1 s1" by simp
    have "length (drop chunk_size input) < length input"
      using True by (simp add: chunk_size_def)
    from less.IH [OF this rep1] less.prems(2) True wf show ?thesis
      by (subst vw_write_chunks.simps) simp
  qed (simp add: write_chunks_short)
qed

lemma write_ok:
  assumes "aead_sizes A" "aead_decrypts A" "length key = 32" "frame_room seed n"
    and rep: "writer_rep A key seed h base cs w s"
    and len: "length (concat cs @ vw_pending w @ input) \<le> n * chunk_size"
  shows "\<exists>w' s'. vw_write A ops input (w, s) = (Inr (length input), (w', s'))"
proof -
  have "\<exists>rest w1 s1. vw_fill_pending A ops input (w, s) = (Inr rest, (w1, s1))"
  proof (cases "vw_pending w = []")
    case False
    let ?p = "vw_pending w @ take (min (chunk_size - length (vw_pending w)) (length input)) input"
    show ?thesis
    proof (cases "length ?p = chunk_size")
      case True
      have "length ?p \<le> length (vw_pending w @ input)" by simp
      then have "length cs * chunk_size + length (vw_pending w @ input) \<le> n * chunk_size"
        "0 < length (vw_pending w @ input)"
        using len rep_length [OF rep] False by simp_all
      then have "length cs \<le> n" using less_imp_le [OF fewer_chunks] by blast
      from rep_write_frame_ok [OF assms(1-4) rep this, of ?p data_frame "[]"] True
      obtain w1 s1 where "vw_write_frame A ops data_frame ?p (w\<lparr>vw_pending := []\<rparr>, s) = (Inr (), (w1, s1))"
        by (metis order_refl)
      then show ?thesis
        using False True by (simp add: vw_fill_pending_def Let_def andthen_def action_err_def)
    qed (use False in \<open>simp add: vw_fill_pending_def Let_def\<close>)
  qed (simp add: vw_fill_pending_def)
  then obtain rest w1 s1 where fill: "vw_fill_pending A ops input (w, s) = (Inr rest, (w1, s1))" by blast
  from fill_pending_Inr [OF fill rep] obtain cs1 where
      rep1: "writer_rep A key seed h base cs1 w1 s1"
    and eq: "concat cs1 @ vw_pending w1 @ rest = concat cs @ vw_pending w @ input" by blast
  have "length (concat cs1 @ rest) \<le> length (concat cs1 @ vw_pending w1 @ rest)" by simp
  also have "\<dots> \<le> n * chunk_size" using len eq by simp
  finally obtain rest2 w2 s2 where "vw_write_chunks A ops rest (w1, s1) = (Inr rest2, (w2, s2))"
    using write_chunks_ok [OF assms(1-4) rep1] by blast
  then show ?thesis
    using fill rep by (simp add: vw_write_def writer_rep_def andthen_def vw_keep_pending_def)
qed

lemma write_list_ok:
  assumes "aead_sizes A" "aead_decrypts A" "length key = 32" "frame_room seed n"
    and "writer_rep A key seed h base cs w s"
    and "length (concat cs @ vw_pending w @ concat xs) \<le> n * chunk_size"
  shows "\<exists>w' s'. vw_write_list A ops xs (w, s) = (Inr (), (w', s'))"
  using assms(5,6)
proof (induction xs arbitrary: w s cs)
  case (Cons x xs)
  show ?case
  proof (cases "x = []")
    case True
    then show ?thesis using Cons by (simp add: vw_write_all_def andthen_def)
  next
    case False
    have "length (concat cs @ vw_pending w @ x) \<le> n * chunk_size" using Cons.prems(2) by simp
    then obtain w1 s1 where wr: "vw_write A ops x (w, s) = (Inr (length x), (w1, s1))"
      using write_ok [OF assms(1-4) Cons.prems(1)] by blast
    from write_Inr [OF wr Cons.prems(1)] obtain cs1 where
      rep1: "writer_rep A key seed h base cs1 w1 s1"
      and eq1: "concat cs1 @ vw_pending w1 = concat cs @ vw_pending w @ x" by blast
    have "length (concat cs1 @ vw_pending w1 @ concat xs) \<le> n * chunk_size"
      using Cons.prems(2) arg_cong [OF eq1, of length] by simp
    from Cons.IH [OF rep1 this] wr False show ?thesis
      by (simp add: vw_write_all_def andthen_def)
  qed
qed simp

lemma finish_ok:
  assumes "aead_sizes A" "aead_decrypts A" "length key = 32" "frame_room seed n"
    and rep: "writer_rep A key seed h base cs w s"
    and len: "length (concat cs @ vw_pending w) \<le> n * chunk_size"
  shows "\<exists>w' s'. vw_finish A ops (w, s) = (Inr h, (w', s'))"
proof -
  have total: "length cs * chunk_size + length (vw_pending w) \<le> n * chunk_size"
    using len rep_length [OF rep] by simp
  have short: "length (vw_pending w) \<le> chunk_size" using rep by (simp add: writer_rep_def)
  have "\<exists>w1 s1. vw_finish_pending A ops (w, s) = (Inr (), (w1, s1)) \<and> live h s1 \<and>
      vw_inner w1 = Some h \<and> vw_cipher w1 = key \<and> vw_nonce_seed w1 = seed \<and>
      vw_file_header w1 = file_header_of seed \<and> unat (vw_sequence w1) \<le> n"
  proof (cases "vw_pending w = []")
    case True
    then have "length cs \<le> n" using total by (simp add: chunk_size_def)
    then show ?thesis using True rep by (auto simp: vw_finish_pending_def writer_rep_def)
  next
    case False
    then have lt: "length cs < n" by (intro fewer_chunks [OF total]) simp
    from rep_write_frame_ok [OF assms(1-4) rep less_imp_le [OF this] short, of data_frame "[]"]
    obtain w1 s1 where wf: "vw_write_frame A ops data_frame (vw_pending w) (w\<lparr>vw_pending := []\<rparr>, s) = (Inr (), (w1, s1))"
      by blast
    have "live h s1 \<and> vw_inner w1 = Some h \<and> vw_cipher w1 = key \<and> vw_nonce_seed w1 = seed \<and>
      vw_file_header w1 = file_header_of seed \<and> unat (vw_sequence w1) = Suc (length cs)"
      by (rule write_frame_Inr [OF wf]) (use rep in \<open>auto simp: writer_rep_def unat_suc_u32\<close>)
    then show ?thesis using wf lt False by (auto simp: vw_finish_pending_def)
  qed
  then obtain w1 s1 where fin1: "vw_finish_pending A ops (w, s) = (Inr (), (w1, s1))"
    and w1: "live h s1" "vw_inner w1 = Some h" "vw_cipher w1 = key" "vw_nonce_seed w1 = seed"
      "vw_file_header w1 = file_header_of seed" "unat (vw_sequence w1) \<le> n" by blast
  from write_frame_ok [OF assms(1-4) w1(2-5) w1(1) w1(6), of "[]" final_frame]
  obtain w2 s2 where wf: "vw_write_frame A ops final_frame [] (w1, s1) = (Inr (), (w2, s2))" by auto
  have "live h s2 \<and> vw_inner w2 = Some h"
    by (rule write_frame_Inr [OF wf w1(2,1)]) (use w1 in auto)
  then obtain s3 where "op_flush ops h s2 = (Inr (), s3)" "vw_inner w2 = Some h"
    using flushes by blast
  then show ?thesis
    using fin1 wf by (simp add: vw_finish_def andthen_def vw_finish_inner_def)
qed

lemma write_vault_ok:
  assumes "aead_sizes A" "aead_decrypts A" "length key = 32" "frame_room seed n"
    and "entropy_fills fill" "fill_quiet fill h s" "fill nonce_seed_length s = (Inr seed, s0)"
    and "length (concat xs) \<le> n * chunk_size"
  shows "\<exists>s'. write_vault A ops fill h key xs s = (Inr (), s')"
proof -
  obtain s1 where "op_write_all ops h (magic @ seed) s0 = (Inr (), s1)"
    using accepts fill_quietD(1) [OF assms(6,7)] by blast
  then have "\<exists>w. vault_writer_new A ops fill h key s = (Inr w, s1)"
    using assms(3,7) aead_sizesD(1) [OF assms(1)]
    by (simp add: vault_writer_new_def andthen_def action_err_def)
  then obtain w where new: "vault_writer_new A ops fill h key s = (Inr w, s1)" by blast
  from writer_new_Inr [OF new assms(5,6)] assms(7)
  have rep: "writer_rep A key seed h (content h s) [] w s1" and p: "vw_pending w = []" by auto
  obtain w2 s2 where list: "vw_write_list A ops xs (w, s1) = (Inr (), (w2, s2))"
    using write_list_ok [OF assms(1-4) rep, of xs] p assms(8) by auto
  from write_list_Inr [OF list rep] obtain cs where
      rep2: "writer_rep A key seed h (content h s) cs w2 s2"
    and "concat cs @ vw_pending w2 = concat xs" using p by auto
  then obtain w3 s3 where "vw_finish A ops (w2, s2) = (Inr h, (w3, s3))"
    using finish_ok [OF assms(1-4) rep2] assms(8) by auto
  then show ?thesis
    using new list by (simp add: write_vault_def andthen_def action_err_def)
qed

end

interpretation vec: reliable_sink vec_ops "\<lambda>_ v. v" "\<lambda>_ _. True"
  by unfold_locales (auto simp: vec_ops_def)

end
