(* ===== verification/Stream_Grammar.thy ===== *)
theory Stream_Grammar
  imports Vault_Reader
begin

text \<open>
  The specification of the reader: \<open>stream_frames\<close> is the grammar of the frame sequences a reader
  accepts, \<open>accepts_vault\<close> that of whole vaults.  The lemmas show that the reader implements it on
  every source without I/O errors, that the grammar determines its contents, that no accepted string
  is a proper prefix of another, and that it is what the encoder produces.
\<close>

section \<open>The grammar\<close>

text \<open>One authenticated frame: its header and ciphertext, for the sequence number the reader expects.\<close>

definition frame_ok ::
  "aead \<Rightarrow> bytes \<Rightarrow> bytes \<Rightarrow> u32 \<Rightarrow> u8 \<Rightarrow> bytes \<Rightarrow> bytes \<Rightarrow> bytes \<Rightarrow> bool" where
  "frame_ok A key seed seq ty h c p \<longleftrightarrow>
     (\<exists>len n. frame_header ty seq len = Inr h \<and> len \<le> chunk_size \<and> (ty = final_frame \<longrightarrow> len = 0) \<and>
        length c = len + tag_length \<and> nonce_bytes seed seq = Inr n \<and> aead_nonce_ok A n \<and>
        aead_decrypt A key n (file_header_of seed @ h) c = Some p \<and> seq \<noteq> u32_max)"

inductive stream_frames :: "aead \<Rightarrow> bytes \<Rightarrow> bytes \<Rightarrow> u32 \<Rightarrow> bytes list \<Rightarrow> bytes \<Rightarrow> bool"
  for A :: aead and key :: bytes and seed :: bytes where
  final: "frame_ok A key seed seq final_frame h c m \<Longrightarrow> stream_frames A key seed seq [] (h @ c)"
| data: "frame_ok A key seed seq data_frame h c p \<Longrightarrow> stream_frames A key seed (seq + 1) ps rest \<Longrightarrow>
     stream_frames A key seed seq (p # ps) (h @ c @ rest)"

inductive_cases stream_frames_NilE: "stream_frames A key seed seq [] bs"
inductive_cases stream_frames_ConsE: "stream_frames A key seed seq (p # ps) bs"
inductive_simps stream_frames_Nil: "stream_frames A key seed seq [] bs"
inductive_simps stream_frames_Cons: "stream_frames A key seed seq (p # ps) bs"

definition accepts_vault :: "aead \<Rightarrow> bytes \<Rightarrow> bytes list \<Rightarrow> bytes \<Rightarrow> bool" where
  "accepts_vault A key ps bs \<longleftrightarrow>
     aead_key_ok A key \<and>
     (\<exists>seed rest. length seed = nonce_seed_length \<and> bs = file_header_of seed @ rest \<and>
        stream_frames A key seed 0 ps rest)"

lemma frame_ok_header:
  assumes "frame_ok A key seed seq ty h c p"
  shows "length h = 9" "header_type h = ty" "header_sequence h = seq"
    "length c = header_length h + tag_length" "header_length h \<le> chunk_size"
    "ty = final_frame \<Longrightarrow> header_length h = 0"
  using assms by (auto simp: frame_ok_def layout_simps header_fields length_frame_header)

text \<open>A string begins with at most one frame, so the grammar is deterministic.\<close>

lemma frame_ok_unique:
  assumes "frame_ok A key seed seq ty h c p" "frame_ok A key seed seq ty' h' c' p'"
    and "h @ c @ rest = h' @ c' @ rest'"
  shows "ty' = ty \<and> h' = h \<and> c' = c \<and> p' = p \<and> rest' = rest"
proof -
  note H = frame_ok_header [OF assms(1)] frame_ok_header [OF assms(2)]
  have h: "h' = h" using assms(3) H(1) H(7) by (simp add: append_eq_append_conv)
  then have "c @ rest = c' @ rest'" "length c = length c'" using assms(3) H by simp_all
  then have c: "c' = c" "rest' = rest" by simp_all
  have "ty' = ty" using h H(2) H(8) by simp
  then show ?thesis using assms(1,2) h c by (auto simp: frame_ok_def)
qed

lemma stream_frames_first:
  assumes "stream_frames A key seed seq ps bs"
  shows "\<exists>h c p rest ty. bs = h @ c @ rest \<and> (ty = data_frame \<or> ty = final_frame) \<and>
    frame_ok A key seed seq ty h c p \<and> (ty = final_frame \<longrightarrow> rest = [])"
  using assms
proof cases
  case (final h c m)
  then show ?thesis by (metis append.right_neutral)
next
  case (data h c p ps' rest)
  then show ?thesis by (metis frame_types_differ(1))
qed

lemma stream_frames_final:
  assumes "frame_ok A key seed seq final_frame h c p"
  shows "stream_frames A key seed seq ps (h @ c @ rest) \<longleftrightarrow> ps = [] \<and> rest = []"
proof
  assume "stream_frames A key seed seq ps (h @ c @ rest)"
  then show "ps = [] \<and> rest = []"
  proof cases
    case (final h' c' m)
    then show ?thesis using frame_ok_unique [OF assms final(3), of rest "[]"] by simp
  next
    case (data h' c' p' ps' rest')
    then show ?thesis using frame_ok_unique [OF assms data(3), of rest rest'] by simp
  qed
next
  assume "ps = [] \<and> rest = []"
  then show "stream_frames A key seed seq ps (h @ c @ rest)"
    using stream_frames.final [OF assms] by simp
qed

lemma stream_frames_data:
  assumes "frame_ok A key seed seq data_frame h c p"
  shows "stream_frames A key seed seq ps (h @ c @ rest) \<longleftrightarrow>
    (\<exists>qs. ps = p # qs \<and> stream_frames A key seed (seq + 1) qs rest)"
proof
  assume "stream_frames A key seed seq ps (h @ c @ rest)"
  then show "\<exists>qs. ps = p # qs \<and> stream_frames A key seed (seq + 1) qs rest"
  proof cases
    case (final h' c' m)
    then show ?thesis using frame_ok_unique [OF assms final(3), of rest "[]"] by simp
  next
    case (data h' c' p' ps' rest')
    then show ?thesis using frame_ok_unique [OF assms data(3), of rest rest'] by simp
  qed
next
  assume "\<exists>qs. ps = p # qs \<and> stream_frames A key seed (seq + 1) qs rest"
  then show "stream_frames A key seed seq ps (h @ c @ rest)"
    using stream_frames.data [OF assms] by blast
qed

section \<open>The reader implements the grammar\<close>

definition reader_at :: "bytes \<Rightarrow> bytes \<Rightarrow> vault_reader \<Rightarrow> bool" where
  "reader_at key seed r \<longleftrightarrow>
     vr_cipher r = key \<and> vr_nonce_seed r = seed \<and> vr_file_header r = file_header_of seed \<and>
     plain_source (vr_inner r)"

lemma open_frame_iff:
  assumes "reader_at key seed r" "length h = 9" "vr_check_header r h = Inr ()"
    and "length c = header_length h + tag_length"
  shows "vr_open_frame A r h c = Inr p \<longleftrightarrow>
    frame_ok A key seed (vr_sequence r) (header_type h) h c p"
proof -
  have hd: "frame_header (header_type h) (header_sequence h) (header_length h) = Inr h"
    by (rule header_rebuild_frame [OF assms(2)])
  have chk: "header_sequence h = vr_sequence r" "header_length h \<le> chunk_size"
    "header_type h = final_frame \<Longrightarrow> header_length h = 0"
    using assms(3) by (auto simp: vr_check_header_def Let_def split: if_splits)
  have "frame_ok A key seed (vr_sequence r) (header_type h) h c p \<longleftrightarrow>
      (\<exists>n. nonce_bytes seed (vr_sequence r) = Inr n \<and> aead_nonce_ok A n \<and>
        aead_decrypt A key n (file_header_of seed @ h) c = Some p \<and> vr_sequence r \<noteq> u32_max)"
  proof
    assume "frame_ok A key seed (vr_sequence r) (header_type h) h c p"
    then show "\<exists>n. nonce_bytes seed (vr_sequence r) = Inr n \<and> aead_nonce_ok A n \<and>
        aead_decrypt A key n (file_header_of seed @ h) c = Some p \<and> vr_sequence r \<noteq> u32_max"
      unfolding frame_ok_def by blast
  next
    assume "\<exists>n. nonce_bytes seed (vr_sequence r) = Inr n \<and> aead_nonce_ok A n \<and>
        aead_decrypt A key n (file_header_of seed @ h) c = Some p \<and> vr_sequence r \<noteq> u32_max"
    then show "frame_ok A key seed (vr_sequence r) (header_type h) h c p"
      unfolding frame_ok_def using hd chk assms(4) by metis
  qed
  then show ?thesis
    using assms(1) chk(1)
    by (auto simp: vr_open_frame_def reader_at_def split: sum.splits option.splits)
qed

lemma check_header_ok:
  assumes "frame_ok A key seed (vr_sequence r) ty h c p" "ty = data_frame \<or> ty = final_frame"
  shows "vr_check_header r h = Inr ()"
  using frame_ok_header [OF assms(1)] assms(2) by (auto simp: vr_check_header_def Let_def)

lemma check_header_type: "vr_check_header r h = Inr () \<Longrightarrow> header_type h = data_frame \<or> header_type h = final_frame"
  by (auto simp: vr_check_header_def Let_def split: if_splits)

text \<open>A frame of the grammar is read; what is read is a frame of the grammar.\<close>

lemma next_frame_reads:
  assumes at: "reader_at key seed r" and data: "source_data (vr_inner r) = h @ c @ rest"
    and ok: "frame_ok A key seed (vr_sequence r) ty h c p" and ty: "ty = data_frame \<or> ty = final_frame"
  obtains es where "plain_source es" "source_data es = rest"
    "vr_next_frame A r = vr_accept_frame ty p ((set_inner es r)\<lparr>vr_sequence := vr_sequence r + 1\<rparr>)"
proof -
  note hdr = frame_ok_header [OF ok]
  have plain: "plain_source (vr_inner r)" using at by (simp add: reader_at_def)
  obtain es1 where es1: "read_exact (length h) (vr_inner r) = (Inr h, es1)" "plain_source es1" "source_data es1 = c @ rest"
    by (rule read_exact_enough [OF plain data])
  obtain es2 where es2: "read_exact (length c) es1 = (Inr c, es2)" "plain_source es2" "source_data es2 = rest"
    by (rule read_exact_enough [OF es1(2,3)])
  have chk: "vr_check_header r h = Inr ()" by (rule check_header_ok [OF ok ty])
  have "vr_open_frame A r h c = Inr p"
    using open_frame_iff [OF at hdr(1) chk hdr(4)] ok hdr(2) by simp
  then show thesis
    using that [OF es2(2,3)] es1(1) es2(1) chk hdr(1,2,4)
    by (simp add: vr_next_frame_def layout_simps)
qed

lemma next_frame_result:
  assumes at: "reader_at key seed r"
  shows "(\<exists>m r'. vr_next_frame A r = (Inl (io_integrity m), r')) \<or>
    (\<exists>h c p rest ty. source_data (vr_inner r) = h @ c @ rest \<and> (ty = data_frame \<or> ty = final_frame) \<and>
        frame_ok A key seed (vr_sequence r) ty h c p \<and> (ty = final_frame \<longrightarrow> rest = []))"
proof (cases "read_exact frame_header_length (vr_inner r)")
  case (Pair x es)
  show ?thesis
  proof (cases "\<exists>h c es'. x = Inr h \<and> vr_check_header r h = Inr () \<and>
      read_exact (header_length h + tag_length) es = (Inr c, es') \<and> (\<exists>p. vr_open_frame A r h c = Inr p)")
    case True
    then obtain h c es' p where x: "x = Inr h" and chk: "vr_check_header r h = Inr ()"
      and body: "read_exact (header_length h + tag_length) es = (Inr c, es')"
      and opn: "vr_open_frame A r h c = Inr p" by blast
    have h: "length h = 9" "source_data (vr_inner r) = h @ source_data es"
      using read_exact_Inr [OF Pair [unfolded x]] by (simp_all add: layout_simps)
    have c: "length c = header_length h + tag_length" "source_data es = c @ source_data es'"
      using read_exact_Inr [OF body] by simp_all
    have ok: "frame_ok A key seed (vr_sequence r) (header_type h) h c p"
      using open_frame_iff [OF at h(1) chk c(1)] opn by simp
    have plain: "plain_source es'"
      using at read_exact_plain_source Pair x body by (metis reader_at_def)
    have "vr_next_frame A r = vr_accept_frame (header_type h) p ((set_inner es' r)\<lparr>vr_sequence := vr_sequence r + 1\<rparr>)"
      by (simp add: vr_next_frame_def Pair x chk body opn)
    moreover have "source_data es' \<noteq> [] \<Longrightarrow> \<exists>r'. vr_accept_frame final_frame p
        ((set_inner es' r)\<lparr>vr_sequence := vr_sequence r + 1\<rparr>) = (Inl (io_integrity msg_trailing), r')"
      using read_once_plain [OF plain, of 1]
      by (cases "read_once 1 es'") (auto simp: vr_accept_frame_def)
    ultimately show ?thesis
      using h c ok check_header_type [OF chk] by (metis append.assoc)
  next
    case False
    have "\<And>e. vr_check_header r h = Inl e \<Longrightarrow> \<exists>m. e = io_integrity m" for h
      by (auto simp: vr_check_header_def Let_def split: if_splits)
    moreover have "\<And>e. vr_open_frame A r h c = Inl e \<Longrightarrow> \<exists>m. e = io_integrity m" for h c
      by (auto simp: vr_open_frame_def split: sum.splits option.splits if_splits)
    ultimately show ?thesis
      using False Pair by (fastforce simp: vr_next_frame_def split: sum.split prod.split)
  qed
qed

lemma accept_data_frame [simp]:
  "vr_accept_frame data_frame p r = (Inr (), r\<lparr>vr_plaintext := p, vr_plaintext_offset := 0\<rparr>)"
  by (simp add: vr_accept_frame_def)

lemma accept_final_frame:
  assumes "plain_source (vr_inner r)" "source_data (vr_inner r) = []"
  shows "\<exists>es. vr_accept_frame final_frame p r =
    (Inr (), (set_inner es r)\<lparr>vr_finalized := True, vr_plaintext := []\<rparr>)"
  using read_once_plain(1) [OF assms(1), of 1] assms(2)
  by (cases "read_once 1 (vr_inner r)") (auto simp: vr_accept_frame_def)

lemma next_frame_accepts:
  assumes "reader_at key seed r" "source_data (vr_inner r) = h @ c @ rest"
    and "frame_ok A key seed (vr_sequence r) ty h c p" "ty = data_frame \<or> ty = final_frame"
    and "ty = final_frame \<longrightarrow> rest = []"
  shows "\<exists>r'. vr_next_frame A r = (Inr (), r')"
proof -
  from next_frame_reads [OF assms(1-4)] obtain es where "plain_source es" "source_data es = rest"
    "vr_next_frame A r = vr_accept_frame ty p ((set_inner es r)\<lparr>vr_sequence := vr_sequence r + 1\<rparr>)" .
  then show ?thesis
    using assms(4,5) accept_final_frame [of "(set_inner es r)\<lparr>vr_sequence := vr_sequence r + 1\<rparr>" p] by auto
qed

text \<open>The relation of \<open>vr_copy\<close> to one step of the loop.\<close>

lemma vr_fill_idle [simp]:
  "vr_plaintext_offset r < length (vr_plaintext r) \<or> vr_finalized r \<Longrightarrow> vr_fill A r = (Inr (), r)"
  by (subst vr_fill.simps) auto

lemma vr_fill_step:
  assumes "length (vr_plaintext r) \<le> vr_plaintext_offset r" "\<not> vr_finalized r"
  shows "vr_fill A r = (case vr_next_frame A r of (Inl e, r') \<Rightarrow> (Inl e, r') | (Inr _, r') \<Rightarrow> vr_fill A r')"
  using assms by (subst vr_fill.simps) simp

lemma vr_copy_frame:
  assumes "length (vr_plaintext r) \<le> vr_plaintext_offset r" "\<not> vr_finalized r" "0 < n"
  shows "vr_copy A n acc r =
    (case vr_next_frame A r of
       (Inl e, r') \<Rightarrow> if io_kind e = Interrupted then vr_copy A n acc r' else (Inl e, r')
     | (Inr _, r') \<Rightarrow> vr_copy A n acc r')"
proof (cases "vr_next_frame A r")
  case (Pair x r')
  show ?thesis
  proof (cases x)
    case (Inl e)
    then have "vr_read A n r = (Inl e, r')"
      using assms Pair by (simp add: vr_read_def vr_fill_step)
    then show ?thesis using Pair Inl by (subst vr_copy.simps) simp
  next
    case (Inr u)
    then have "vr_read A n r = vr_read A n r'"
      using assms Pair by (simp add: vr_read_def vr_fill_step)
    then show ?thesis using Pair Inr by (simp add: vr_copy.simps [of A n acc r] vr_copy.simps [of A n acc r'])
  qed
qed

lemma vr_copy_finalized: "vr_finalized r \<Longrightarrow> vr_copy A n acc r = (Inr acc, r)"
  by (subst vr_copy.simps) (simp add: vr_read_def)

lemma vr_copy_plaintext:
  assumes "vr_plaintext_offset r < length (vr_plaintext r)" "\<not> vr_finalized r" "0 < n"
  defines "k \<equiv> min (length (vr_plaintext r) - vr_plaintext_offset r) n"
  shows "vr_copy A n acc r =
    vr_copy A n (acc @ take k (drop (vr_plaintext_offset r) (vr_plaintext r)))
      (r\<lparr>vr_plaintext_offset := vr_plaintext_offset r + k\<rparr>)"
proof -
  have "vr_read A n r = (Inr (take k (drop (vr_plaintext_offset r) (vr_plaintext r))),
      r\<lparr>vr_plaintext_offset := vr_plaintext_offset r + k\<rparr>)"
    using assms by (simp add: vr_read_def Let_def)
  moreover have "take k (drop (vr_plaintext_offset r) (vr_plaintext r)) \<noteq> []"
    using assms by auto
  ultimately show ?thesis by (subst vr_copy.simps) simp
qed

text \<open>The refinement: copying succeeds exactly on the grammar, with the contents of its frames.\<close>

lemma vr_copy_iff:
  assumes "reader_at key seed r" "\<not> vr_finalized r" "0 < n"
  shows "fst (vr_copy A n acc r) = Inr out \<longleftrightarrow>
    (\<exists>ps. stream_frames A key seed (vr_sequence r) ps (source_data (vr_inner r)) \<and>
          out = acc @ drop (vr_plaintext_offset r) (vr_plaintext r) @ concat ps)"
  using assms(1,2)
proof (induction r arbitrary: acc rule: wf_induct_rule [OF wf_vr_order])
  case (1 r)
  show ?case
  proof (cases "vr_plaintext_offset r < length (vr_plaintext r)")
    case True
    define k where "k = min (length (vr_plaintext r) - vr_plaintext_offset r) n"
    define r' where "r' = r\<lparr>vr_plaintext_offset := vr_plaintext_offset r + k\<rparr>"
    have "0 < k" using True assms(3) by (simp add: k_def)
    then have "(r', r) \<in> vr_order" "reader_at key seed r'" "\<not> vr_finalized r'"
      using True "1.prems" by (auto simp: vr_order_def vr_left_def r'_def reader_at_def)
    note IH = "1.IH" [OF this]
    define L where "L = drop (vr_plaintext_offset r) (vr_plaintext r)"
    have L: "take k L @ drop k L @ x = L @ x" for x
      by (metis append.assoc append_take_drop_id)
    have "drop (vr_plaintext_offset r') (vr_plaintext r') = drop k L"
      by (simp add: r'_def L_def add.commute)
    moreover have "vr_copy A n acc r = vr_copy A n (acc @ take k L) r'"
      using vr_copy_plaintext [OF True "1.prems"(2) assms(3)] by (simp add: r'_def k_def L_def)
    ultimately show ?thesis
      using IH [of "acc @ take k L"] L by (simp add: r'_def flip: L_def)
  next
    case False
    then have off: "length (vr_plaintext r) \<le> vr_plaintext_offset r" by simp
    note copy = vr_copy_frame [OF off "1.prems"(2) assms(3), of A acc]
    consider (err) m r' where "vr_next_frame A r = (Inl (io_integrity m), r')"
      | (frame) h c p rest ty where "source_data (vr_inner r) = h @ c @ rest"
        "ty = data_frame \<or> ty = final_frame" "frame_ok A key seed (vr_sequence r) ty h c p"
        "ty = final_frame \<longrightarrow> rest = []"
      using next_frame_result [OF "1.prems"(1), of A] by blast
    then show ?thesis
    proof cases
      case err
      have "\<not> stream_frames A key seed (vr_sequence r) ps (source_data (vr_inner r))" for ps
        using stream_frames_first next_frame_accepts [OF "1.prems"(1)] err
        by (metis Inl_Inr_False prod.inject)
      then show ?thesis using copy err by simp
    next
      case frame
      from next_frame_reads [OF "1.prems"(1) frame(1,3,2)] obtain es where
        es: "plain_source es" "source_data es = rest"
        "vr_next_frame A r = vr_accept_frame ty p ((set_inner es r)\<lparr>vr_sequence := vr_sequence r + 1\<rparr>)" .
      show ?thesis
      proof (cases "ty = final_frame")
        case True
        then obtain es' where "vr_next_frame A r = (Inr (), (set_inner es' (set_inner es r\<lparr>vr_sequence := vr_sequence r + 1\<rparr>))
            \<lparr>vr_finalized := True, vr_plaintext := []\<rparr>)"
          using accept_final_frame [of "(set_inner es r)\<lparr>vr_sequence := vr_sequence r + 1\<rparr>" p] es frame(4) by auto
        then have "vr_copy A n acc r = (Inr acc, (set_inner es' (set_inner es r\<lparr>vr_sequence := vr_sequence r + 1\<rparr>))
            \<lparr>vr_finalized := True, vr_plaintext := []\<rparr>)"
          using copy by (simp add: vr_copy_finalized)
        moreover have "stream_frames A key seed (vr_sequence r) ps (source_data (vr_inner r)) \<longleftrightarrow> ps = []" for ps
          using frame True stream_frames_final [of A key seed "vr_sequence r" h c p ps rest] by simp
        ultimately show ?thesis using off by auto
      next
        case False
        define r' where "r' = (set_inner es r)\<lparr>vr_sequence := vr_sequence r + 1, vr_plaintext := p, vr_plaintext_offset := 0\<rparr>"
        have ty: "ty = data_frame" using frame(2) False by simp
        have "0 < length h" using frame_ok_header(1) [OF frame(3)] by simp
        then have "(r', r) \<in> vr_order" "reader_at key seed r'" "\<not> vr_finalized r'"
          using "1.prems" es frame(1) by (auto simp: vr_order_def r'_def reader_at_def)
        note IH = "1.IH" [OF this, of acc]
        have "vr_next_frame A r = (Inr (), r')" using es(3) by (simp add: ty r'_def)
        then have "vr_copy A n acc r = vr_copy A n acc r'" using copy by simp
        then show ?thesis
          using IH off frame(1,3) es(2) ty by (auto simp: r'_def stream_frames_data)
      qed
    qed
  qed
qed

section \<open>Whole vaults\<close>

lemma reader_new_at:
  assumes "vault_reader_new A es key = Inr r" "plain_source es"
  obtains seed where "length seed = nonce_seed_length" "source_data es = file_header_of seed @ source_data (vr_inner r)"
    "reader_at key seed r" "vr_sequence r = 0" "vr_plaintext r = []" "vr_plaintext_offset r = 0"
    "\<not> vr_finalized r" "aead_key_ok A key"
proof -
  obtain hd es' where rd: "read_exact file_header_length es = (Inr hd, es')"
    and hd: "take (length magic) hd = magic" and k: "aead_key_ok A key"
    and r: "r = \<lparr>vr_inner = es', vr_cipher = key, vr_file_header = hd,
      vr_nonce_seed = drop (length magic) hd, vr_plaintext = [], vr_plaintext_offset = 0,
      vr_sequence = 0, vr_finalized = False\<rparr>"
    using assms(1) unfolding vault_reader_new_def by (auto split: prod.splits sum.splits if_splits)
  have len: "length hd = 20" "source_data es = hd @ source_data es'"
    using read_exact_Inr [OF rd] by (simp_all add: layout_simps)
  have "hd = file_header_of (drop (length magic) hd)"
    using hd by (metis append_take_drop_id file_header_of_def)
  moreover have "plain_source es'" using read_exact_plain_source [OF assms(2) rd] .
  ultimately show thesis
    using that [of "drop (length magic) hd"] len k r by (simp add: reader_at_def layout_simps)
qed

lemma reader_new_ok:
  assumes "plain_source es" "source_data es = file_header_of seed @ rest"
    and "length seed = nonce_seed_length" "aead_key_ok A key"
  obtains r where "vault_reader_new A es key = Inr r" "reader_at key seed r" "vr_sequence r = 0"
    "vr_plaintext r = []" "vr_plaintext_offset r = 0" "\<not> vr_finalized r" "source_data (vr_inner r) = rest"
proof -
  have len: "length (file_header_of seed) = file_header_length"
    using assms(3) by (simp add: file_header_of_def layout_simps)
  obtain es' where es': "read_exact file_header_length es = (Inr (file_header_of seed), es')"
      "plain_source es'" "source_data es' = rest"
    using read_exact_enough [OF assms(1,2)] unfolding len by blast
  show thesis
    by (rule that [of "\<lparr>vr_inner = es', vr_cipher = key, vr_file_header = file_header_of seed,
      vr_nonce_seed = seed, vr_plaintext = [], vr_plaintext_offset = 0, vr_sequence = 0, vr_finalized = False\<rparr>"])
      (use es' assms(4) in \<open>simp_all add: vault_reader_new_def reader_at_def file_header_of_def\<close>)
qed

lemma file_header_inject:
  "length s = nonce_seed_length \<Longrightarrow> length t = nonce_seed_length \<Longrightarrow>
     file_header_of s @ xs = file_header_of t @ ys \<longleftrightarrow> s = t \<and> xs = ys"
  by (auto simp: file_header_of_def)

lemma read_vault_iff:
  assumes "plain_source es" "0 < n"
  shows "read_vault A n key es = Inr out \<longleftrightarrow>
    (\<exists>ps. accepts_vault A key ps (source_data es) \<and> out = concat ps)"
proof
  assume "read_vault A n key es = Inr out"
  then obtain r where new: "vault_reader_new A es key = Inr r" and cp: "fst (vr_copy A n [] r) = Inr out"
    by (auto simp: read_vault_def split: sum.splits)
  from reader_new_at [OF new assms(1)] obtain seed where
      seed: "length seed = nonce_seed_length" "source_data es = file_header_of seed @ source_data (vr_inner r)"
    and r: "reader_at key seed r" "vr_sequence r = 0" "vr_plaintext r = []" "vr_plaintext_offset r = 0"
      "\<not> vr_finalized r" "aead_key_ok A key" .
  then show "\<exists>ps. accepts_vault A key ps (source_data es) \<and> out = concat ps"
    using vr_copy_iff [OF r(1,5) assms(2), of A "[]" out] cp by (auto simp: accepts_vault_def)
next
  assume "\<exists>ps. accepts_vault A key ps (source_data es) \<and> out = concat ps"
  then obtain ps seed rest where ps: "aead_key_ok A key" "length seed = nonce_seed_length"
      "source_data es = file_header_of seed @ rest" "stream_frames A key seed 0 ps rest" "out = concat ps"
    by (auto simp: accepts_vault_def)
  from reader_new_ok [OF assms(1) ps(3,2,1)] obtain r where
      new: "vault_reader_new A es key = Inr r"
    and r: "reader_at key seed r" "vr_sequence r = 0" "vr_plaintext r = []" "vr_plaintext_offset r = 0"
      "\<not> vr_finalized r" "source_data (vr_inner r) = rest" .
  then have "fst (vr_copy A n [] r) = Inr out"
    using vr_copy_iff [OF r(1,5) assms(2), of A "[]" out] ps by auto
  then show "read_vault A n key es = Inr out" by (simp add: read_vault_def new)
qed

section \<open>What the encoder produces is accepted\<close>

lemma encode_frame_ok:
  assumes "aead_sizes A" "aead_decrypts A" "length key = 32" "length seed = 12"
    and "encode_frame A key seed seq ty p = Some f" "length p \<le> chunk_size"
    and "ty = final_frame \<Longrightarrow> p = []" "seq \<noteq> u32_max"
  obtains h c where "f = h @ c" "frame_ok A key seed seq ty h c p"
proof -
  obtain h n c where f: "frame_header ty seq (length p) = Inr h" "nonce_bytes seed seq = Inr n"
      "aead_encrypt A key n (file_header_of seed @ h) p = Some c" "f = h @ c"
    using assms(5) by (auto simp: encode_frame_Some)
  have n: "length n = 12" using nonce_bytes_Inr(1) [OF f(2)] assms(4) by simp
  then have "aead_decrypt A key n (file_header_of seed @ h) c = Some p"
    using aead_decryptsD [OF assms(2) f(3) assms(3)] assms(6) by (simp add: chunk_size_def)
  then have "frame_ok A key seed seq ty h c p"
    using f n assms aead_sizesD(2,3) [OF assms(1)]
    by (auto simp: frame_ok_def layout_simps intro!: exI [of _ "length p"])
  then show thesis using that f(4) by blast
qed

lemma encode_frames_accepted:
  assumes "aead_sizes A" "aead_decrypts A" "length key = 32" "length seed = 12"
    and "encode_frames A key seed seq ps = Some bs"
    and "\<forall>p \<in> set ps. length p \<le> chunk_size" "unat seq + length ps < 2 ^ 32 - 1"
  shows "stream_frames A key seed seq ps bs"
  using assms(5-7)
proof (induction ps arbitrary: seq bs)
  case Nil
  have "seq \<noteq> u32_max" using Nil.prems(3) by (intro neq_u32_max) simp
  from encode_frame_ok [OF assms(1-4) Nil.prems(1) [simplified] _ _ this]
  obtain h c where "bs = h @ c" "frame_ok A key seed seq final_frame h c []" by auto
  then show ?case by (simp add: stream_frames.final)
next
  case (Cons p ps)
  from Cons.prems(1) obtain f fs where f: "encode_frame A key seed seq data_frame p = Some f"
    and fs: "encode_frames A key seed (seq + 1) ps = Some fs" and bs: "bs = f @ fs"
    by (auto split: option.splits)
  have ne: "seq \<noteq> u32_max" using Cons.prems(3) by (intro neq_u32_max) simp
  then have suc: "unat (seq + 1) = Suc (unat seq)" by (rule unat_suc_u32)
  have "length p \<le> chunk_size" using Cons.prems(2) by simp
  from encode_frame_ok [OF assms(1-4) f this _ ne]
  obtain h c where "f = h @ c" "frame_ok A key seed seq data_frame h c p" by auto
  moreover have "stream_frames A key seed (seq + 1) ps fs"
    by (rule Cons.IH [OF fs]) (use Cons.prems suc in auto)
  ultimately show ?case using bs stream_frames.data by auto
qed

lemma encode_vault_accepted:
  assumes "aead_sizes A" "aead_decrypts A" "length key = 32" "length seed = 12"
    and "encode_vault A key seed ps = Some bs"
    and "\<forall>p \<in> set ps. length p \<le> chunk_size" "length ps < 2 ^ 32 - 1"
  shows "accepts_vault A key ps bs"
proof -
  obtain fs where "encode_frames A key seed 0 ps = Some fs" "bs = file_header_of seed @ fs"
    using assms(5) by (auto simp: encode_vault_def)
  then show ?thesis
    using encode_frames_accepted [OF assms(1-4) _ assms(6), of 0 fs] assms(1,3,4,7)
    by (auto simp: accepts_vault_def layout_simps aead_sizesD(1))
qed

end
