(* ===== verification/Stream_Tampering.thy ===== *)
theory Stream_Tampering
  imports Stream_Grammar
begin

text \<open>
  What a reader says of a vault that was cut short, extended or whose frames were reordered, and what
  it says of any string at all when the cipher is authentic.  The first three need no assumption on
  the cipher: they follow from the frame headers and the lengths alone.
\<close>

section \<open>Readers between frames\<close>

definition idle_reader :: "bytes \<Rightarrow> bytes \<Rightarrow> vault_reader \<Rightarrow> bool" where
  "idle_reader key seed r \<longleftrightarrow>
     reader_at key seed r \<and> length (vr_plaintext r) \<le> vr_plaintext_offset r \<and> \<not> vr_finalized r"

text \<open>Handing out the plaintext of a frame, in as many reads as it takes.\<close>

lemma vr_copy_drain:
  assumes "\<not> vr_finalized r" "0 < n" "vr_plaintext_offset r \<le> length (vr_plaintext r)"
  shows "vr_copy A n acc r =
    vr_copy A n (acc @ drop (vr_plaintext_offset r) (vr_plaintext r))
      (r\<lparr>vr_plaintext_offset := length (vr_plaintext r)\<rparr>)"
  using assms
proof (induction "vr_left r" arbitrary: r acc rule: less_induct)
  case less
  show ?case
  proof (cases "vr_plaintext_offset r < length (vr_plaintext r)")
    case True
    define k where "k = min (length (vr_plaintext r) - vr_plaintext_offset r) n"
    define r' where "r' = r\<lparr>vr_plaintext_offset := vr_plaintext_offset r + k\<rparr>"
    define L where "L = drop (vr_plaintext_offset r) (vr_plaintext r)"
    have L: "take k L @ drop k L = L" by simp
    have d: "drop (vr_plaintext_offset r') (vr_plaintext r') = drop k L"
      by (simp add: r'_def L_def add.commute)
    have "vr_left r' < vr_left r" "\<not> vr_finalized r'" "vr_plaintext_offset r' \<le> length (vr_plaintext r')"
      using True less.prems by (auto simp: vr_left_def r'_def k_def)
    from less.hyps [OF this(1,2) less.prems(2) this(3), of "acc @ take k L"]
    have "vr_copy A n (acc @ take k L) r' =
        vr_copy A n (acc @ L) (r\<lparr>vr_plaintext_offset := length (vr_plaintext r)\<rparr>)"
      unfolding d append_assoc L by (simp add: r'_def)
    then show ?thesis
      using vr_copy_plaintext [OF True less.prems(1,2), of A acc] by (simp add: r'_def k_def L_def)
  next
    case False
    then have "vr_plaintext_offset r = length (vr_plaintext r)" using less.prems by simp
    then show ?thesis by (metis append_Nil2 drop_all order_refl vault_reader.surjective vault_reader.update_convs(6))
  qed
qed

lemma idle_copy_data:
  assumes "idle_reader key seed r" "0 < n" "source_data (vr_inner r) = h @ c @ rest"
    and "frame_ok A key seed (vr_sequence r) data_frame h c p"
  obtains r' where "idle_reader key seed r'" "source_data (vr_inner r') = rest"
    "vr_sequence r' = vr_sequence r + 1" "vr_copy A n acc r = vr_copy A n (acc @ p) r'"
proof -
  have at: "reader_at key seed r" using assms(1) by (simp add: idle_reader_def)
  have off: "length (vr_plaintext r) \<le> vr_plaintext_offset r" "\<not> vr_finalized r"
    using assms(1) by (simp_all add: idle_reader_def)
  from next_frame_reads [OF at assms(3,4)] obtain es where
      es: "plain_source es" "source_data es = rest"
    and nxt: "vr_next_frame A r = vr_accept_frame data_frame p ((set_inner es r)\<lparr>vr_sequence := vr_sequence r + 1\<rparr>)"
    by blast
  define q where "q = (set_inner es r)\<lparr>vr_sequence := vr_sequence r + 1, vr_plaintext := p, vr_plaintext_offset := 0\<rparr>"
  have "vr_copy A n acc r = vr_copy A n acc q"
    using vr_copy_frame [OF off assms(2), of A acc] nxt by (simp add: q_def)
  also have "\<dots> = vr_copy A n (acc @ p) (q\<lparr>vr_plaintext_offset := length p\<rparr>)"
    using vr_copy_drain [of q n A acc] off(2) assms(2) by (simp add: q_def)
  finally show thesis
    by (rule that [rotated 3]) (use at off es in \<open>auto simp: q_def idle_reader_def reader_at_def\<close>)
qed

text \<open>A reader whose next frame is refused.\<close>

lemma idle_copy_error:
  assumes "idle_reader key seed r" "0 < n" "vr_next_frame A r = (Inl (io_integrity m), r')"
  shows "fst (vr_copy A n acc r) = Inl (io_integrity m)"
  using vr_copy_frame [of r n A acc] assms by (auto simp: idle_reader_def)

lemma next_frame_header_short:
  assumes "reader_at key seed r" "length (source_data (vr_inner r)) < frame_header_length"
  shows "\<exists>r'. vr_next_frame A r = (Inl (io_integrity msg_truncated), r')"
proof -
  obtain es where "read_exact frame_header_length (vr_inner r) = (Inl unexpected_eof, es)"
    using read_exact_short assms by (metis reader_at_def)
  then show ?thesis by (simp add: vr_next_frame_def)
qed

lemma next_frame_body_short:
  assumes "reader_at key seed r" "source_data (vr_inner r) = h @ d" "length d < length c"
    and "frame_ok A key seed (vr_sequence r) ty h c p" "ty = data_frame \<or> ty = final_frame"
  shows "\<exists>r'. vr_next_frame A r = (Inl (io_integrity msg_truncated), r')"
proof -
  note hdr = frame_ok_header [OF assms(4)]
  have plain: "plain_source (vr_inner r)" using assms(1) by (simp add: reader_at_def)
  obtain es1 where es1: "read_exact (length h) (vr_inner r) = (Inr h, es1)" "plain_source es1" "source_data es1 = d"
    by (rule read_exact_enough [OF plain assms(2)])
  obtain es2 where "read_exact (length c) es1 = (Inl unexpected_eof, es2)"
    using read_exact_short [OF es1(2)] es1(3) assms(3) by metis
  then show ?thesis
    using es1(1) hdr(1,4) check_header_ok [OF assms(4,5)]
    by (simp add: vr_next_frame_def layout_simps)
qed

section \<open>Cutting short\<close>

text \<open>Where a cut falls in a frame: in the header, in the ciphertext, or behind it.\<close>

lemma cut_frame_cases:
  assumes "pre @ x = h @ c @ rest"
  obtains (header) "length pre < length h"
    | (body) d where "pre = h @ d" "length d < length c"
    | (behind) rest0 where "pre = h @ c @ rest0" "rest0 @ x = rest"
proof (cases "length pre < length h + length c")
  case True
  then show thesis
  proof (cases "length pre < length h")
    case False
    then obtain d where "pre = h @ d" using assms by (auto simp: append_eq_append_conv2)
    then show thesis using True body by simp
  qed (rule header)
next
  case False
  have "pre @ x = (h @ c) @ rest" using assms by simp
  moreover have "length (h @ c) \<le> length pre" using False by simp
  ultimately obtain rest0 where "pre = (h @ c) @ rest0" "rest = rest0 @ x"
    by (rule append_split_longer)
  then show thesis using behind by simp
qed

lemma copy_truncated:
  assumes "stream_frames A key seed seq ps bs" "bs = pre @ x" "x \<noteq> []"
    and "idle_reader key seed r" "vr_sequence r = seq" "source_data (vr_inner r) = pre" "0 < n"
  shows "fst (vr_copy A n acc r) = Inl (io_integrity msg_truncated)"
  using assms
proof (induction arbitrary: pre r acc rule: stream_frames.induct)
  case (final seq h c m)
  have at: "reader_at key seed r" using final.prems(3) by (simp add: idle_reader_def)
  have "pre @ x = h @ c @ []" using final.prems(1) by simp
  then have "\<exists>r'. vr_next_frame A r = (Inl (io_integrity msg_truncated), r')"
  proof (cases rule: cut_frame_cases)
    case header
    then show ?thesis
      using next_frame_header_short [OF at] final frame_ok_header(1) by (simp add: layout_simps)
  next
    case (body d)
    then show ?thesis using next_frame_body_short [OF at] final by blast
  qed (use final.prems in simp)
  then show ?case using idle_copy_error [OF final.prems(3,6)] by blast
next
  case (data seq h c p ps rest)
  have at: "reader_at key seed r" using data.prems(3) by (simp add: idle_reader_def)
  have "pre @ x = h @ c @ rest" using data.prems(1) by simp
  then show ?case
  proof (cases rule: cut_frame_cases)
    case header
    then show ?thesis
      using next_frame_header_short [OF at] data frame_ok_header(1) idle_copy_error [OF data.prems(3,6)]
      by (metis frame_header_length_def)
  next
    case (body d)
    then show ?thesis
      using next_frame_body_short [OF at _ body(2)] data idle_copy_error [OF data.prems(3,6)] by metis
  next
    case (behind rest0)
    from data.prems(5) behind(1) have src: "source_data (vr_inner r) = h @ c @ rest0" by simp
    have ok: "frame_ok A key seed (vr_sequence r) data_frame h c p" using data by simp
    from idle_copy_data [OF data.prems(3,6) src ok] obtain r' where
        r': "idle_reader key seed r'" "source_data (vr_inner r') = rest0" "vr_sequence r' = vr_sequence r + 1"
      and cp: "vr_copy A n acc r = vr_copy A n (acc @ p) r'" .
    then show ?thesis
      using data.IH [OF behind(2) [symmetric] data.prems(2) r'(1) _ r'(2) data.prems(6)] data.prems(4) by simp
  qed
qed

section \<open>Extending\<close>

lemma copy_trailing:
  assumes "stream_frames A key seed seq ps bs" "x \<noteq> []"
    and "idle_reader key seed r" "vr_sequence r = seq" "source_data (vr_inner r) = bs @ x" "0 < n"
  shows "fst (vr_copy A n acc r) = Inl (io_integrity msg_trailing)"
  using assms
proof (induction arbitrary: r acc rule: stream_frames.induct)
  case (final seq h c m)
  have at: "reader_at key seed r" using final.prems(2) by (simp add: idle_reader_def)
  have src: "source_data (vr_inner r) = h @ c @ x" using final.prems by simp
  have ok: "frame_ok A key seed (vr_sequence r) final_frame h c m" using final by simp
  from next_frame_reads [OF at src ok] obtain es where
      es: "plain_source es" "source_data es = x"
    and nxt: "vr_next_frame A r = vr_accept_frame final_frame m ((set_inner es r)\<lparr>vr_sequence := vr_sequence r + 1\<rparr>)"
    by blast
  obtain t es' where "read_once 1 es = (Inr t, es')" "t \<noteq> []"
    using read_once_plain [OF es(1), of 1] es(2) final.prems(1) by (cases "read_once 1 es") auto
  then have "\<exists>r'. vr_next_frame A r = (Inl (io_integrity msg_trailing), r')"
    using nxt by (simp add: vr_accept_frame_def)
  then show ?case using idle_copy_error [OF final.prems(2,5)] by blast
next
  case (data seq h c p ps rest)
  have src: "source_data (vr_inner r) = h @ c @ (rest @ x)" using data.prems by simp
  have ok: "frame_ok A key seed (vr_sequence r) data_frame h c p" using data by simp
  from idle_copy_data [OF data.prems(2,5) src ok] obtain r' where
      r': "idle_reader key seed r'" "source_data (vr_inner r') = rest @ x" "vr_sequence r' = vr_sequence r + 1"
    and cp: "vr_copy A n acc r = vr_copy A n (acc @ p) r'" .
  then show ?case using data.IH [OF data.prems(1) r'(1) _ r'(2) data.prems(5)] data.prems(3) by simp
qed

section \<open>Whole vaults, cut short or extended\<close>

lemma read_vault_short_header:
  assumes "plain_source es" "length (source_data es) < file_header_length"
  shows "read_vault A n key es = Inl (Integrity msg_header_truncated)"
proof -
  obtain es' where "read_exact file_header_length es = (Inl unexpected_eof, es')"
    by (rule read_exact_short [OF assms])
  then show ?thesis by (simp add: read_vault_def vault_reader_new_def)
qed

lemma new_reader_idle:
  assumes "plain_source es" "source_data es = file_header_of seed @ rest"
    and "length seed = nonce_seed_length" "aead_key_ok A key"
  obtains r where "vault_reader_new A es key = Inr r" "idle_reader key seed r" "vr_sequence r = 0"
    "source_data (vr_inner r) = rest"
  using reader_new_ok [OF assms] by (metis idle_reader_def le_zero_eq list.size(3))

lemma read_vault_truncated:
  assumes "accepts_vault A key ps (pre @ x)" "x \<noteq> []" "plain_source es" "source_data es = pre" "0 < n"
  shows "read_vault A n key es =
    Inl (Integrity (if length pre < file_header_length then msg_header_truncated else msg_truncated))"
proof (cases "length pre < file_header_length")
  case True
  then show ?thesis using read_vault_short_header assms by simp
next
  case False
  obtain seed rest where k: "aead_key_ok A key" and seed: "length seed = nonce_seed_length"
    and eq: "pre @ x = file_header_of seed @ rest" and frames: "stream_frames A key seed 0 ps rest"
    using assms(1) by (auto simp: accepts_vault_def)
  have "length (file_header_of seed) \<le> length pre"
    using False seed by (simp add: file_header_of_def layout_simps)
  with eq obtain rest0 where pre: "pre = file_header_of seed @ rest0" "rest = rest0 @ x"
    by (rule append_split_longer)
  from new_reader_idle [OF assms(3) _ seed k] pre assms(4) obtain r where
    r: "vault_reader_new A es key = Inr r" "idle_reader key seed r" "vr_sequence r = 0"
      "source_data (vr_inner r) = rest0" by blast
  show ?thesis
    using copy_truncated [OF frames pre(2) assms(2) r(2,3,4) assms(5), of "[]"] r(1) False
    by (simp add: read_vault_def)
qed

lemma read_vault_trailing:
  assumes "accepts_vault A key ps bs" "x \<noteq> []" "plain_source es" "source_data es = bs @ x" "0 < n"
  shows "read_vault A n key es = Inl (Integrity msg_trailing)"
proof -
  obtain seed rest where k: "aead_key_ok A key" and seed: "length seed = nonce_seed_length"
    and eq: "bs = file_header_of seed @ rest" and frames: "stream_frames A key seed 0 ps rest"
    using assms(1) by (auto simp: accepts_vault_def)
  from new_reader_idle [OF assms(3) _ seed k] eq assms(4) obtain r where
    r: "vault_reader_new A es key = Inr r" "idle_reader key seed r" "vr_sequence r = 0"
      "source_data (vr_inner r) = rest @ x" by (metis append.assoc)
  show ?thesis
    using copy_trailing [OF frames assms(2) r(2,3,4) assms(5), of "[]"] r(1)
    by (simp add: read_vault_def)
qed

section \<open>Rearranged frames\<close>

text \<open>A frame that does not carry the expected sequence number is refused before it is decrypted.\<close>

definition carries :: "u32 \<Rightarrow> bytes \<Rightarrow> bool" where
  "carries seq f \<longleftrightarrow> frame_header_length \<le> length f \<and> header_sequence (take frame_header_length f) = seq"

lemma carries_unique: "carries s f \<Longrightarrow> carries t f \<Longrightarrow> s = t"
  by (simp add: carries_def)

lemma encode_frame_carries:
  assumes "encode_frame A key seed seq ty p = Some f"
  shows "carries seq f"
proof -
  obtain h n c where h: "frame_header ty seq (length p) = Inr h" and f: "f = h @ c"
    using assms by (auto simp: encode_frame_Some)
  show ?thesis
    using length_frame_header [OF h] header_fields(2) [OF h] by (simp add: carries_def f)
qed

lemma encode_frame_list_carries:
  "encode_frame_list A key seed seq ps = Some fs \<Longrightarrow>
     length fs = Suc (length ps) \<and> (\<forall>i < length fs. carries (seq + of_nat i) (fs ! i))"
proof (induction ps arbitrary: seq fs)
  case Nil
  then show ?case using encode_frame_carries by auto
next
  case (Cons p ps)
  from Cons.prems obtain f fs' where f: "encode_frame A key seed seq data_frame p = Some f"
    and fs: "encode_frame_list A key seed (seq + 1) ps = Some fs'" "fs = f # fs'"
    by (auto split: option.splits)
  have "carries (seq + of_nat i) (fs ! i)" if "i < length fs" for i
  proof (cases i)
    case 0
    then show ?thesis using encode_frame_carries [OF f] fs by simp
  next
    case (Suc j)
    then show ?thesis using Cons.IH [OF fs(1)] that fs(2) by (auto simp: algebra_simps)
  qed
  then show ?case using Cons.IH [OF fs(1)] fs(2) by simp
qed

lemma next_frame_misplaced:
  assumes "reader_at key seed r" "source_data (vr_inner r) = f @ rest" "carries s f" "s \<noteq> vr_sequence r"
  shows "\<exists>r'. vr_next_frame A r = (Inl (io_integrity msg_order), r')"
proof -
  have plain: "plain_source (vr_inner r)" using assms(1) by (simp add: reader_at_def)
  let ?h = "take frame_header_length f"
  have len: "length ?h = frame_header_length" using assms(3) by (simp add: carries_def)
  have "source_data (vr_inner r) = ?h @ (drop frame_header_length f @ rest)"
    using assms(2) by (metis append.assoc append_take_drop_id)
  from read_exact_enough [OF plain this] obtain es where
    "read_exact frame_header_length (vr_inner r) = (Inr ?h, es)" unfolding len by blast
  moreover have "vr_check_header r ?h = Inl (io_integrity msg_order)"
    using assms(3,4) by (simp add: vr_check_header_def carries_def)
  ultimately show ?thesis by (simp add: vr_next_frame_def)
qed

lemma copy_misplaced:
  assumes "aead_sizes A" "aead_decrypts A" "length key = 32" "length seed = 12"
    and "encode_frame_list A key seed seq ps = Some fs"
    and "\<forall>p \<in> set ps. length p \<le> chunk_size" "unat seq + length ps < 2 ^ 32 - 1"
    and "i < length fs" "carries s f" "s \<noteq> seq + of_nat i"
    and "idle_reader key seed r" "vr_sequence r = seq" "0 < n"
    and "source_data (vr_inner r) = concat (take i fs) @ f @ rest"
  shows "fst (vr_copy A n acc r) = Inl (io_integrity msg_order)"
  using assms(5-14)
proof (induction i arbitrary: seq ps fs r acc)
  case 0
  then have "reader_at key seed r" by (simp add: idle_reader_def)
  from next_frame_misplaced [where A = A and rest = rest, OF this _ 0(5)] obtain r' where
    "vr_next_frame A r = (Inl (io_integrity msg_order), r')" using 0 by auto
  then show ?case using idle_copy_error [OF 0(7,9)] by blast
next
  case (Suc i)
  then obtain p ps' where ps: "ps = p # ps'" by (cases ps) auto
  then obtain g fs' where g: "encode_frame A key seed seq data_frame p = Some g"
    and fs': "encode_frame_list A key seed (seq + 1) ps' = Some fs'" and fs: "fs = g # fs'"
    using Suc.prems(1) by (auto split: option.splits)
  have ne: "seq \<noteq> u32_max" using Suc.prems(3) ps by (intro neq_u32_max) simp
  note suc = unat_suc_u32 [OF ne]
  have "length p \<le> chunk_size" using Suc.prems(2) ps by simp
  from encode_frame_ok [OF assms(1-4) g this _ ne] obtain h c where
      gc: "g = h @ c" and ok: "frame_ok A key seed (vr_sequence r) data_frame h c p"
    using Suc.prems(8) by auto
  have "source_data (vr_inner r) = h @ c @ (concat (take i fs') @ f @ rest)"
    using Suc.prems(10) fs gc by simp
  from idle_copy_data [OF Suc.prems(7,9) this ok] obtain r' where
      r': "idle_reader key seed r'" "source_data (vr_inner r') = concat (take i fs') @ f @ rest"
        "vr_sequence r' = vr_sequence r + 1"
    and cp: "vr_copy A n acc r = vr_copy A n (acc @ p) r'" .
  have "fst (vr_copy A n (acc @ p) r') = Inl (io_integrity msg_order)"
    by (rule Suc.IH [OF fs' _ _ _ Suc.prems(5) _ r'(1) _ Suc.prems(9) r'(2)])
       (use Suc.prems ps fs suc r'(3) in \<open>auto simp: algebra_simps\<close>)
  then show ?case using cp by simp
qed

text \<open>Two lists of the same frames in a different order part at a first frame.\<close>

lemma first_difference:
  assumes "length xs = length ys" "xs \<noteq> ys"
  obtains i where "i < length xs" "take i ys = take i xs" "ys ! i \<noteq> xs ! i"
proof -
  let ?P = "\<lambda>i. i < length xs \<and> ys ! i \<noteq> xs ! i"
  have "\<exists>i. ?P i" using assms by (metis nth_equalityI)
  define i where "i = (LEAST i. ?P i)"
  have i: "?P i" unfolding i_def by (rule LeastI_ex) fact
  have "\<not> ?P j" if "j < i" for j using that not_less_Least unfolding i_def by blast
  then have "take i ys = take i xs" using i assms(1) by (intro nth_equalityI) auto
  then show thesis using i that by blast
qed

lemma read_vault_rearranged:
  assumes "aead_sizes A" "aead_decrypts A" "length key = 32" "length seed = 12"
    and "encode_frame_list A key seed 0 ps = Some fs"
    and "\<forall>p \<in> set ps. length p \<le> chunk_size" "length ps < 2 ^ 32 - 1"
    and "length fs' = length fs" "set fs' \<subseteq> set fs" "fs' \<noteq> fs"
    and "plain_source es" "source_data es = file_header_of seed @ concat fs'" "0 < n"
  shows "read_vault A n key es = Inl (Integrity msg_order)"
proof -
  obtain i where i: "i < length fs" "take i fs' = take i fs" "fs' ! i \<noteq> fs ! i"
    using first_difference [of fs fs'] assms(8,10) by metis
  have "fs' ! i \<in> set fs" using assms(8,9) i(1) by (metis nth_mem subsetD)
  then obtain j where j: "j < length fs" "fs' ! i = fs ! j" by (metis in_set_conv_nth)
  note car = encode_frame_list_carries [OF assms(5)]
  have ne: "(of_nat j :: u32) \<noteq> of_nat i"
  proof
    assume "(of_nat j :: u32) = of_nat i"
    then have "unat (of_nat j :: u32) = unat (of_nat i :: u32)" by simp
    then show False using i j car assms(7) by (simp add: unat_of_nat_u32)
  qed
  have split: "concat fs' = concat (take i fs) @ fs ! j @ concat (drop (Suc i) fs')"
    using i j assms(8) by (metis concat.simps(2) concat_append id_take_nth_drop)
  from new_reader_idle [OF assms(11,12), of A key] obtain r where
    r: "vault_reader_new A es key = Inr r" "idle_reader key seed r" "vr_sequence r = 0"
      "source_data (vr_inner r) = concat fs'"
    using assms(3,4) aead_sizesD(1) [OF assms(1)] by (auto simp: layout_simps)
  have "fst (vr_copy A n [] r) = Inl (io_integrity msg_order)"
    by (rule copy_misplaced [OF assms(1-6) _ i(1) _ _ r(2,3) assms(13), of "of_nat j" "fs ! j"])
       (use car j ne assms(7) r(4) split in auto)
  then show ?thesis using r(1) by (simp add: read_vault_def)
qed

section \<open>Authenticity\<close>

text \<open>
  \<open>files\<close> are the vaults ever sealed under the key, each with its nonce seed and its chunks; the log
  of the cipher's encryption calls under the key is what sealing them makes.
\<close>

definition frame_at :: "bytes list \<Rightarrow> nat \<Rightarrow> u8 \<times> bytes" where
  "frame_at ps i = (if i < length ps then (data_frame, ps ! i) else (final_frame, []))"

definition sealed_log :: "(bytes \<times> bytes list) set \<Rightarrow> (bytes \<times> bytes \<times> bytes) set" where
  "sealed_log files =
     {(n, file_header_of seed @ h, p) |n seed h p ps i ty.
        (seed, ps) \<in> files \<and> i \<le> length ps \<and> frame_at ps i = (ty, p) \<and>
        frame_header ty (of_nat i) (length p) = Inr h \<and> nonce_bytes seed (of_nat i) = Inr n}"

definition distinct_seeds :: "(bytes \<times> bytes list) set \<Rightarrow> bool" where
  "distinct_seeds files \<longleftrightarrow>
     (\<forall>(s, ps) \<in> files. length s = 12 \<and> length ps < 2 ^ 32 - 1 \<and> (\<forall>(t, qs) \<in> files. s = t \<longrightarrow> ps = qs))"

lemma distinct_seedsD:
  assumes "distinct_seeds files" "(s, ps) \<in> files"
  shows "length s = 12" "length ps < 2 ^ 32 - 1" "(s, qs) \<in> files \<Longrightarrow> qs = ps"
  using assms by (auto simp: distinct_seeds_def)

lemma frame_logged:
  assumes "aead_authentic A key (sealed_log files)" "distinct_seeds files"
    and "frame_ok A key seed seq ty h c p" "length seed = 12"
  obtains ps where "(seed, ps) \<in> files" "unat seq \<le> length ps" "frame_at ps (unat seq) = (ty, p)"
    "encode_frame A key seed seq ty p = Some (h @ c)"
proof -
  obtain len n where fh: "frame_header ty seq len = Inr h" and n: "nonce_bytes seed seq = Inr n"
    and dec: "aead_decrypt A key n (file_header_of seed @ h) c = Some p"
    using assms(3) by (auto simp: frame_ok_def)
  then have "(n, file_header_of seed @ h, p) \<in> sealed_log files"
    and enc: "aead_encrypt A key n (file_header_of seed @ h) p = Some c"
    using assms(1) by (auto simp: aead_authentic_def)
  then obtain seed' ps i ty' h' where f: "(seed', ps) \<in> files" "i \<le> length ps" "frame_at ps i = (ty', p)"
      "frame_header ty' (of_nat i) (length p) = Inr h'"
    and eq: "file_header_of seed @ h = file_header_of seed' @ h'"
    by (auto simp: sealed_log_def)
  have "seed' = seed" "h' = h"
    using eq assms(4) distinct_seedsD(1) [OF assms(2) f(1)]
    by (auto simp: file_header_of_def)
  moreover have "ty' = ty" "of_nat i = seq" "len = length p"
    using header_fields [OF f(4)] header_fields [OF fh] \<open>h' = h\<close> by auto
  moreover have "unat (of_nat i :: u32) = i"
    using f(2) distinct_seedsD(2) [OF assms(2) f(1)] by (intro unat_of_nat_u32) simp
  ultimately show thesis
    using that [of ps] f fh n enc by (auto simp: encode_frame_Some)
qed

lemma stream_logged:
  assumes "stream_frames A key seed seq qs bs"
    and "aead_authentic A key (sealed_log files)" "distinct_seeds files" "length seed = 12"
  shows "\<exists>ps. (seed, ps) \<in> files \<and> unat seq \<le> length ps \<and> qs = drop (unat seq) ps \<and>
    encode_frames A key seed seq qs = Some bs"
  using assms(1)
proof induction
  case (final seq h c m)
  obtain ps where ps: "(seed, ps) \<in> files" "unat seq \<le> length ps" "frame_at ps (unat seq) = (final_frame, m)"
      "encode_frame A key seed seq final_frame m = Some (h @ c)"
    by (rule frame_logged [OF assms(2,3) final assms(4)])
  then show ?case by (auto simp: frame_at_def split: if_splits)
next
  case (data seq h c p qs rest)
  obtain ps where ps: "(seed, ps) \<in> files" "frame_at ps (unat seq) = (data_frame, p)"
      "encode_frame A key seed seq data_frame p = Some (h @ c)"
    by (rule frame_logged [OF assms(2,3) data.hyps(1) assms(4)])
  then have lt: "unat seq < length ps" and p: "p = ps ! unat seq"
    by (auto simp: frame_at_def split: if_splits)
  obtain ps' where ps': "(seed, ps') \<in> files" "qs = drop (unat (seq + 1)) ps'"
      "encode_frames A key seed (seq + 1) qs = Some rest" using data.IH by blast
  have "ps' = ps" using distinct_seedsD(3) [OF assms(3) ps(1) ps'(1)] .
  moreover have "unat (seq + 1) = Suc (unat seq)"
    by (rule unat_suc_u32, rule neq_u32_max)
       (use lt distinct_seedsD(2) [OF assms(3) ps(1)] in simp)
  ultimately have "p # qs = drop (unat seq) ps"
    using lt p ps'(2) by (simp add: Cons_nth_drop_Suc)
  moreover have "encode_frames A key seed seq (p # qs) = Some (h @ c @ rest)"
    using ps(3) ps'(3) by simp
  ultimately show ?case using ps(1) less_imp_le [OF lt] by blast
qed

lemma read_vault_authentic:
  assumes "aead_authentic A key (sealed_log files)" "distinct_seeds files"
    and "plain_source es" "0 < n" "read_vault A n key es = Inr out"
  shows "\<exists>seed ps. (seed, ps) \<in> files \<and> out = concat ps \<and> encode_vault A key seed ps = Some (source_data es)"
proof -
  obtain ps seed rest where ps: "length seed = 12" "source_data es = file_header_of seed @ rest"
      "stream_frames A key seed 0 ps rest" "out = concat ps"
    using assms(5) read_vault_iff [OF assms(3,4)] by (auto simp: accepts_vault_def layout_simps)
  from stream_logged [OF ps(3) assms(1,2) ps(1)] ps show ?thesis
    by (auto simp: encode_vault_def)
qed

end
