(* ===== verification/Vault_Stream.thy ===== *)
theory Vault_Stream
  imports Vault_Writer Stream_Tampering
begin

text \<open>
  The properties of \<open>src/crypto/vault_stream.rs\<close> as a whole: what the writer produced is what the
  reader returns, however both were driven, and what an attacker who holds the file can make of it.
  Every property with hypotheses is applied to a concrete vault, sealed with an instance of the
  cipher parameter that pads instead of encrypting.
\<close>

section \<open>A concrete cipher for the examples\<close>

definition pad_aead :: aead where
  "pad_aead =
     \<lparr>aead_key_ok = (\<lambda>k. length k = 32), aead_nonce_ok = (\<lambda>n. length n = 12),
      aead_encrypt = (\<lambda>k n a m. Some (m @ replicate 16 0)),
      aead_decrypt = (\<lambda>k n a c. if length c < 16 then None else Some (take (length c - 16) c))\<rparr>"

definition demo_key :: bytes where "demo_key = replicate 32 7"
definition demo_seed :: bytes where "demo_seed = replicate 12 0"

definition demo_fill :: "bytes entropy" where
  "demo_fill n v = (Inr (replicate n 0), v)"

lemma pad_aead_sizes: "aead_sizes pad_aead"
  by (simp add: pad_aead_def aead_sizes_def)

lemma pad_aead_decrypts: "aead_decrypts pad_aead"
  by (simp add: pad_aead_def aead_decrypts_def)

lemma demo_lengths: "length demo_key = 32" "length demo_seed = 12"
  by (simp_all add: demo_key_def demo_seed_def)

lemma demo_fills: "entropy_fills demo_fill" "demo_fill nonce_seed_length [] = (Inr demo_seed, [])"
  by (simp_all add: entropy_fills_def demo_fill_def demo_seed_def nonce_seed_length_def)

lemma demo_fill_quiet: "snd (demo_fill n v) = v"
  by (simp add: demo_fill_def)

lemma demo_room: "frame_room demo_seed 1"
  by (simp add: frame_room_def demo_seed_def)

lemma demo_nonce: "nonce_bytes demo_seed 0 = Inr (replicate 12 0)"
  by (simp add: nonce_bytes_eq demo_seed_def)

text \<open>An accepted vault of one short chunk, and its frames.\<close>

lemma demo_frame_exists:
  "unat seq \<le> 1 \<Longrightarrow> length p \<le> chunk_size \<Longrightarrow>
     \<exists>f. encode_frame pad_aead demo_key demo_seed seq ty p = Some f"
  by (rule encode_frame_exists [OF pad_aead_decrypts demo_lengths]) (simp_all add: demo_seed_def)

lemma demo_encoded: "\<exists>bs. encode_vault pad_aead demo_key demo_seed [[1, 2, 3]] = Some bs"
proof -
  obtain f where f: "encode_frame pad_aead demo_key demo_seed 0 data_frame [1, 2, 3] = Some f"
    using demo_frame_exists [of 0 "[1, 2, 3]" data_frame] by (auto simp: chunk_size_def)
  obtain g where g: "encode_frame pad_aead demo_key demo_seed 1 final_frame [] = Some g"
    using demo_frame_exists [of 1 "[]" final_frame] by auto
  show ?thesis by (simp add: encode_vault_def f g)
qed

lemma demo_accepted:
  "encode_vault pad_aead demo_key demo_seed [[1, 2, 3]] = Some bs \<Longrightarrow>
     accepts_vault pad_aead demo_key [[1, 2, 3]] bs"
  by (rule encode_vault_accepted [OF pad_aead_sizes pad_aead_decrypts demo_lengths])
     (simp_all add: chunk_size_def)

section \<open>Properties\<close>

text \<open>
  C1: the round trip of a vault.  A writer over a vector, given any inputs in any number of calls,
  succeeds when the seed leaves room for the frames, and a reader of the bytes it produced, with
  reads of any size from any source that delivers them in any pieces, returns the inputs joined.
\<close>

theorem stream_round_trip:
  assumes "aead_sizes A" "aead_decrypts A" "length key = 32"
    and "entropy_fills fill" "\<forall>n v. snd (fill n v) = v" "fill nonce_seed_length [] = (Inr seed, [])"
    and "frame_room seed n" "length (concat xs) \<le> n * chunk_size"
  shows "\<exists>bs. write_vault A vec_ops fill () key xs [] = (Inr (), bs) \<and>
    (\<forall>es m. plain_source es \<longrightarrow> source_data es = bs \<longrightarrow> 0 < m \<longrightarrow>
       read_vault A m key es = Inr (concat xs))"
proof -
  have quiet: "vec.fill_quiet fill () []"
    using assms(5) by (auto simp: vec.fill_quiet_def) (metis snd_conv)
  obtain bs where run: "write_vault A vec_ops fill () key xs [] = (Inr (), bs)"
    using vec.write_vault_ok [OF assms(1-3,7,4) quiet assms(6,8)] by blast
  have enc: "length seed = 12" "encode_vault A key seed (chunks chunk_size (concat xs)) = Some bs"
    using vec.write_vault_Inr [OF run assms(4) quiet] assms(6) by auto
  have "length (chunks chunk_size (concat xs)) \<le> n"
    using assms(8) by (rule length_chunks_le [OF chunk_size_pos])
  then have "accepts_vault A key (chunks chunk_size (concat xs)) bs"
    using encode_vault_accepted [OF assms(1-3) enc] chunks_bounds [OF chunk_size_pos] assms(7)
    by (auto simp: frame_room_def)
  then show ?thesis using run read_vault_iff concat_chunks [OF chunk_size_pos] by metis
qed

theorem stream_round_trip_witness:
  "\<exists>bs. write_vault pad_aead vec_ops demo_fill () demo_key [[1, 2], [], [3]] [] = (Inr (), bs) \<and>
    read_vault pad_aead 5 demo_key (bytes_source bs) = Inr [1, 2, 3]"
  using stream_round_trip [OF pad_aead_sizes pad_aead_decrypts demo_lengths(1) demo_fills(1) _
      demo_fills(2) demo_room, of "[[1, 2], [], [3]]"]
  by (fastforce simp: chunk_size_def demo_fill_quiet)


text \<open>The instance: a cipher that decrypts the one final frame of the one empty vault ever sealed.\<close>

definition one_aad :: bytes where
  "one_aad = file_header_of demo_seed @ [1, 0, 0, 0, 0, 0, 0, 0, 0]"

definition one_aead :: aead where
  "one_aead =
     \<lparr>aead_key_ok = (\<lambda>k. length k = 32), aead_nonce_ok = (\<lambda>n. length n = 12),
      aead_encrypt = (\<lambda>k n a m. Some (m @ replicate 16 0)),
      aead_decrypt = (\<lambda>k n a c. if n = replicate 12 0 \<and> a = one_aad \<and> c = replicate 16 0 then Some []
                                else None)\<rparr>"

lemma u32_to_be_0: "u32_to_be 0 = [0, 0, 0, 0]"
proof -
  have "u32_to_be 0 = replicate 4 0" by (simp add: u32_to_be_def)
  then show ?thesis by (simp add: eval_nat_numeral)
qed


definition one_vault :: bytes where
  "one_vault = one_aad @ replicate 16 0"

lemma one_accepted: "accepts_vault one_aead demo_key [] one_vault"
proof -
  have h: "frame_header final_frame 0 0 = Inr [1, 0, 0, 0, 0, 0, 0, 0, 0]"
    by (simp add: frame_header_def final_frame_def u32_to_be_0)
  have "frame_ok one_aead demo_key demo_seed 0 final_frame [1, 0, 0, 0, 0, 0, 0, 0, 0] (replicate 16 0) []"
    using h demo_nonce
    by (auto simp: frame_ok_def one_aead_def one_aad_def layout_simps u32_max_def intro!: exI [of _ 0])
  note frames = stream_frames.final [OF this]
  show ?thesis
    unfolding accepts_vault_def
    by (intro conjI exI [of _ demo_seed] exI [of _ "[1, 0, 0, 0, 0, 0, 0, 0, 0] @ replicate 16 0"])
       (use frames in \<open>simp_all add: one_aead_def demo_lengths layout_simps one_vault_def one_aad_def\<close>)
qed



text \<open>
  C3: no nonce is used twice within a vault.  The frames of an encoded vault, data and final, all have
  a nonce, and the nonces are pairwise different.
\<close>

theorem vault_nonces_distinct:
  assumes "encode_vault A key seed ps = Some bs" "length ps < 2 ^ 32 - 1"
  shows "distinct (map (\<lambda>i. nonce_bytes seed (of_nat i)) [0..<Suc (length ps)]) \<and>
    (\<forall>i \<le> length ps. is_ok (nonce_bytes seed (of_nat i)))"
proof -
  have some: "is_ok (nonce_bytes seed (of_nat i))" if "i \<le> length ps" for i
    using assms(1) that encode_frames_nonces [of A key seed 0 ps] by (auto simp: encode_vault_def)
  have "i = j" if "nonce_bytes seed (of_nat i) = nonce_bytes seed (of_nat j)" "i \<le> length ps" "j \<le> length ps" for i j
  proof -
    obtain n where "nonce_bytes seed (of_nat i) = Inr n"
      using some [OF \<open>i \<le> length ps\<close>] by (auto simp: is_ok_def split: sum.splits)
    then have "(of_nat i :: u32) = of_nat j" using that(1) nonce_bytes_inject by metis
    then have "unat (of_nat i :: u32) = unat (of_nat j :: u32)" by simp
    then show "i = j" using that assms(2) by (simp add: unat_of_nat_u32)
  qed
  then have "inj_on (\<lambda>i. nonce_bytes seed (of_nat i)) (set [0..<Suc (length ps)])"
    by (intro inj_onI) auto
  then show ?thesis using some by (simp only: distinct_map distinct_upt) blast
qed

theorem vault_nonces_distinct_witness:
  "distinct [nonce_bytes demo_seed 0, nonce_bytes demo_seed 1]"
proof -
  obtain bs where "encode_vault pad_aead demo_key demo_seed [[1, 2, 3]] = Some bs"
    using demo_encoded by blast
  from vault_nonces_distinct [OF this] show ?thesis by simp
qed

text \<open>
  C4: buffering is invisible.  Over any byte sink, if a writer that was given its input in some
  number of calls succeeds, the sink holds what it held before followed by the one encoding of the
  joined inputs in chunks of 64 KiB, whatever the calls were.
\<close>

theorem writer_canonical:
  assumes "byte_sink ops content live"
    and "entropy_fills fill" "byte_sink.fill_quiet content live fill h s"
    and "write_vault A ops fill h key xs s = (Inr u, s')"
  shows "\<exists>seed s1 bs. fill nonce_seed_length s = (Inr seed, s1) \<and> length seed = 12 \<and>
    encode_vault A key seed (chunks chunk_size (concat xs)) = Some bs \<and>
    live h s' \<and> content h s' = content h s @ bs"
  by (rule byte_sink.write_vault_Inr [OF assms(1,4,2,3)])

lemma demo_vec_quiet: "vec.fill_quiet demo_fill () v"
  by (simp add: vec.fill_quiet_def demo_fill_def)

lemma demo_write: "\<exists>s'. write_vault pad_aead vec_ops demo_fill () demo_key [[1, 2], [3]] [] = (Inr (), s')"
  by (rule vec.write_vault_ok [OF pad_aead_sizes pad_aead_decrypts demo_lengths(1) demo_room demo_fills(1)
        demo_vec_quiet demo_fills(2)]) (simp add: chunk_size_def)

theorem writer_canonical_witness:
  "\<exists>bs. snd (write_vault pad_aead vec_ops demo_fill () demo_key [[1, 2], [3]] []) = bs \<and>
     encode_vault pad_aead demo_key demo_seed [[1, 2, 3]] = Some bs"
proof -
  obtain s' where run: "write_vault pad_aead vec_ops demo_fill () demo_key [[1, 2], [3]] [] = (Inr (), s')"
    using demo_write by blast
  have "chunks chunk_size (concat [[1, 2], [3]] :: bytes) = [[1, 2, 3]]"
    by (simp add: chunks_short chunk_size_def)
  then show ?thesis
    using writer_canonical [OF vec.byte_sink_axioms demo_fills(1) demo_vec_quiet run] run demo_fills(2)
    by auto
qed

text \<open>
  C5: truncation.  A vault the reader accepts, cut anywhere before its end, is refused with one of
  the two truncation messages, whichever way the shortened bytes arrive.
\<close>

theorem truncation_rejected:
  assumes "accepts_vault A key ps (pre @ x)" "x \<noteq> []" "plain_source es" "source_data es = pre" "0 < n"
  shows "read_vault A n key es =
    Inl (Integrity (if length pre < file_header_length then msg_header_truncated else msg_truncated))"
  by (rule read_vault_truncated [OF assms])

theorem truncation_rejected_witness:
  "read_vault one_aead 1 demo_key (bytes_source (take 40 one_vault)) = Inl (Integrity msg_truncated)"
proof -
  have "one_vault = take 40 one_vault @ drop 40 one_vault" by simp
  moreover have "length one_vault = 45"
    by (simp add: one_vault_def one_aad_def file_header_of_def demo_lengths)
  ultimately show ?thesis
    using truncation_rejected [of one_aead demo_key "[]" "take 40 one_vault" "drop 40 one_vault"
        "bytes_source (take 40 one_vault)" 1] one_accepted
    by (simp add: layout_simps)
qed

text \<open>C6: trailing data.  Anything after the final frame of an accepted vault is refused.\<close>

theorem trailing_rejected:
  assumes "accepts_vault A key ps bs" "x \<noteq> []" "plain_source es" "source_data es = bs @ x" "0 < n"
  shows "read_vault A n key es = Inl (Integrity msg_trailing)"
  by (rule read_vault_trailing [OF assms])

theorem trailing_rejected_witness:
  "read_vault one_aead 1 demo_key (bytes_source (one_vault @ [0])) = Inl (Integrity msg_trailing)"
  using trailing_rejected [OF one_accepted, of "[0]" "bytes_source (one_vault @ [0])" 1] by simp

text \<open>
  C7: frame order.  A vault whose frames are dropped, repeated or permuted, any number of them, into
  another sequence of the same length is refused for the order of its frames, before the first
  misplaced frame is decrypted.
\<close>

theorem rearrangement_rejected:
  assumes "aead_sizes A" "aead_decrypts A" "length key = 32" "length seed = 12"
    and "encode_frame_list A key seed 0 ps = Some fs"
    and "\<forall>p \<in> set ps. length p \<le> chunk_size" "length ps < 2 ^ 32 - 1"
    and "length fs' = length fs" "set fs' \<subseteq> set fs" "fs' \<noteq> fs"
    and "plain_source es" "source_data es = file_header_of seed @ concat fs'" "0 < n"
  shows "read_vault A n key es = Inl (Integrity msg_order)"
  by (rule read_vault_rearranged [OF assms])

lemma demo_frame_list:
  "\<exists>f g. encode_frame_list pad_aead demo_key demo_seed 0 [[1, 2, 3]] = Some [f, g] \<and> length f = 28 \<and> length g = 25"
proof -
  obtain f where f: "encode_frame pad_aead demo_key demo_seed 0 data_frame [1, 2, 3] = Some f"
    using demo_frame_exists [of 0 "[1, 2, 3]" data_frame] by (auto simp: chunk_size_def)
  obtain g where g: "encode_frame pad_aead demo_key demo_seed 1 final_frame [] = Some g"
    using demo_frame_exists [of 1 "[]" final_frame] by auto
  have len: "length y = 25 + length p"
    if "encode_frame pad_aead demo_key demo_seed seq ty p = Some y" for seq ty p y
    using that by (auto simp: encode_frame_Some pad_aead_def layout_simps dest!: length_frame_header)
  show ?thesis using f g len [OF f] len [OF g] by simp
qed

theorem rearrangement_rejected_witness:
  "\<exists>f g. encode_frame_list pad_aead demo_key demo_seed 0 [[1, 2, 3]] = Some [f, g] \<and>
     read_vault pad_aead 1 demo_key (bytes_source (file_header_of demo_seed @ g @ f)) =
       Inl (Integrity msg_order)"
proof -
  obtain f g where fg: "encode_frame_list pad_aead demo_key demo_seed 0 [[1, 2, 3]] = Some [f, g]"
      "length f = 28" "length g = 25"
    using demo_frame_list by blast
  then have "[g, f] \<noteq> [f, g]" by auto
  from rearrangement_rejected [OF pad_aead_sizes pad_aead_decrypts demo_lengths fg(1) _ _ _ _ this,
      of "bytes_source (file_header_of demo_seed @ g @ f)" 1] fg show ?thesis
    by (auto simp: chunk_size_def)
qed

text \<open>
  C8: the reader implements the grammar of vaults.  On a source without I/O errors it succeeds exactly
  on the accepted byte strings, and returns the contents of their data frames in order.
\<close>

theorem reader_refines_grammar:
  assumes "plain_source es" "0 < n"
  shows "read_vault A n key es = Inr out \<longleftrightarrow>
    (\<exists>ps. accepts_vault A key ps (source_data es) \<and> out = concat ps)"
  by (rule read_vault_iff [OF assms])

theorem reader_refines_grammar_witness:
  "read_vault one_aead 3 demo_key (bytes_source one_vault) = Inr []"
  using reader_refines_grammar [OF plain_bytes_source [of one_vault], of 3 one_aead demo_key "[]"] one_accepted
  by auto

text \<open>
  C9: the nonce of a frame is the seed plus the sequence number, as big-endian numbers of the seed's
  length, and an overflow of that addition is an error.
\<close>

theorem nonce_is_sum:
  "nonce_bytes seed seq =
     (if be_val seed + unat seq < 256 ^ length seed
      then Inr (be_bytes (length seed) (be_val seed + unat seq))
      else Inl (Cryptography ''vault nonce sequence overflow''))"
  by (rule nonce_bytes_eq)

text \<open>A frame header determines the fields a reader takes from it and is determined by them.\<close>

theorem frame_header_fields:
  "frame_header ty seq len = Inr h \<longleftrightarrow>
     length h = frame_header_length \<and> header_type h = ty \<and> header_sequence h = seq \<and> header_length h = len"
proof
  assume "frame_header ty seq len = Inr h"
  then show "length h = frame_header_length \<and> header_type h = ty \<and> header_sequence h = seq \<and>
      header_length h = len"
    using length_frame_header header_fields by blast
next
  assume "length h = frame_header_length \<and> header_type h = ty \<and> header_sequence h = seq \<and>
      header_length h = len"
  then show "frame_header ty seq len = Inr h"
    using header_rebuild_frame [of h] by (simp add: layout_simps)
qed

end
