(* ===== verification/Manifest.thy ===== *)
theory Manifest
  imports Vault_Error
begin

text \<open>
  \<open>src/manifest.rs\<close>: the public metadata of a user, its validation, and the binary encoding of it that
  is authenticated with the wrapped data key.  The \<open>uuid\<close> crate is a parameter.  The main lemma is that
  the encoding is injective: two manifests with the same associated data differ at most in the
  wrapped key.
\<close>

section \<open>Third-party primitives\<close>

text \<open>
  \<open>Uuid::parse_str\<close>, \<open>Uuid::to_string\<close>, and the UUID that \<open>Uuid::new_v4\<close> draws at a tick of the host's
  clock; a UUID is its 16 bytes.
\<close>

record uuid_lib =
  uuid_parse :: "string \<Rightarrow> bytes option"
  uuid_to_string :: "bytes \<Rightarrow> string"
  uuid_new_v4 :: "nat \<Rightarrow> bytes"

text \<open>
  The textual form is 36 characters, hexadecimal digits and hyphens, and parses to the UUID.
\<close>

definition is_uuid_byte :: "u8 \<Rightarrow> bool" where
  "is_uuid_byte b \<longleftrightarrow> is_ascii_digit b \<or> (97 \<le> b \<and> b \<le> 102) \<or> b = 45"

definition uuid_prints :: "uuid_lib \<Rightarrow> bool" where
  "uuid_prints U \<longleftrightarrow>
     (\<forall>u. length u = 16 \<longrightarrow> uuid_parse U (uuid_to_string U u) = Some u \<and>
          length (uuid_to_string U u) = 36 \<and>
          (\<forall>c \<in> set (uuid_to_string U u). is_uuid_byte (of_char c))) \<and>
     (\<forall>s u. uuid_parse U s = Some u \<longrightarrow> length u = 16) \<and> (\<forall>t. length (uuid_new_v4 U t) = 16)"

section \<open>Data\<close>

definition manifest_version :: u32 where "manifest_version = 1"
definition vault_format :: string where "vault_format = ''cdxvlt02''"
definition wrap_algorithm :: string where "wrap_algorithm = ''aes-256-gcm''"

record kdf_parameters =
  kdf_algorithm :: string
  kdf_salt :: string
  kdf_memory_cost_ki_b :: u32
  kdf_time_cost :: u32
  kdf_parallelism :: u32
  kdf_output_length :: u32

record wrapped_key =
  wk_algorithm :: string
  wk_iv :: string
  wk_ciphertext :: string
  wk_authentication_tag :: string

record user_manifest =
  um_version :: u32
  um_id :: string
  um_username :: string
  um_created_at :: u64
  um_kdf :: kdf_parameters
  um_wrapped_data_key :: wrapped_key
  um_vault_format :: string

section \<open>Operations\<close>

text \<open>
  \<open>UserManifest::new_header\<close>: the clock (\<open>None\<close> before the epoch) and the fresh UUID are what the
  system returns.
\<close>

definition new_header ::
  "u64 option \<Rightarrow> string \<Rightarrow> string \<Rightarrow> kdf_parameters \<Rightarrow> user_manifest vault_result" where
  "new_header now fresh_id username kdf =
     (case now of
        None \<Rightarrow> Inl (InvalidConfiguration ''system clock is before Unix epoch'')
      | Some created_at \<Rightarrow>
          Inr \<lparr>um_version = manifest_version, um_id = fresh_id, um_username = username,
               um_created_at = created_at, um_kdf = kdf,
               um_wrapped_data_key = \<lparr>wk_algorithm = wrap_algorithm, wk_iv = [], wk_ciphertext = [],
                                      wk_authentication_tag = []\<rparr>,
               um_vault_format = vault_format\<rparr>)"

definition push_field :: "bytes \<Rightarrow> bytes \<Rightarrow> bytes vault_result" where
  "push_field output val =
     (if length val < 2 ^ 32
      then Inr (output @ u32_to_be (of_nat (length val)) @ val)
      else Inl (InvalidConfiguration ''manifest field exceeds encoding limit''))"

definition aad_prefix :: bytes where
  "aad_prefix = as_bytes ''CDXVAULT-WRAP-AAD-01''"

definition associated_data :: "user_manifest \<Rightarrow> bytes vault_result" where
  "associated_data m =
     (case push_field (aad_prefix @ u32_to_be (um_version m)) (as_bytes (um_id m)) of
        Inl e \<Rightarrow> Inl e
      | Inr o1 \<Rightarrow>
     (case push_field o1 (as_bytes (um_username m)) of
        Inl e \<Rightarrow> Inl e
      | Inr o2 \<Rightarrow>
     (case push_field (o2 @ u64_to_be (um_created_at m)) (as_bytes (kdf_algorithm (um_kdf m))) of
        Inl e \<Rightarrow> Inl e
      | Inr o3 \<Rightarrow>
     (case push_field o3 (as_bytes (kdf_salt (um_kdf m))) of
        Inl e \<Rightarrow> Inl e
      | Inr o4 \<Rightarrow>
        push_field
          (o4 @ u32_to_be (kdf_memory_cost_ki_b (um_kdf m)) @ u32_to_be (kdf_time_cost (um_kdf m)) @
           u32_to_be (kdf_parallelism (um_kdf m)) @ u32_to_be (kdf_output_length (um_kdf m)))
          (as_bytes (um_vault_format m))))))"

definition is_valid_username :: "string \<Rightarrow> bool" where
  "is_valid_username username =
     (let bytes = as_bytes username in
      if bytes = [] \<or> length bytes > 64 \<or> \<not> is_ascii_alphanumeric (bytes ! 0) then False
      else list_all (\<lambda>b. is_ascii_alphanumeric b \<or> b = 46 \<or> b = 95 \<or> b = 45) bytes)"

definition validate_manifest :: "uuid_lib \<Rightarrow> user_manifest \<Rightarrow> unit vault_result" where
  "validate_manifest U m =
     (if um_version m \<noteq> manifest_version \<or> uuid_parse U (um_id m) = None \<or>
         \<not> is_valid_username (um_username m) \<or> um_created_at m = 0 \<or> um_vault_format m \<noteq> vault_format \<or>
         wk_algorithm (um_wrapped_data_key m) \<noteq> wrap_algorithm
      then Inl (InvalidConfiguration ''unsupported or invalid user manifest'')
      else Inr ())"

section \<open>The associated data determines the metadata\<close>

text \<open>A length-prefixed field is a self-delimiting encoding.\<close>

definition enc_field :: "string \<Rightarrow> bytes" where
  "enc_field s = u32_to_be (of_nat (length s)) @ as_bytes s"

definition short_field :: "string \<Rightarrow> bool" where
  "short_field s \<longleftrightarrow> length s < 2 ^ 32"

lemma of_nat_u32_inject:
  assumes "m < 2 ^ 32" "n < 2 ^ 32"
  shows "(of_nat m :: u32) = of_nat n \<longleftrightarrow> m = n"
proof -
  have "unat (of_nat m :: u32) = m" "unat (of_nat n :: u32) = n"
    using assms by (simp_all add: unsigned_of_nat take_bit_nat_eq_self_iff)
  then show ?thesis by metis
qed

interpretation field: self_delimiting enc_field short_field
proof
  fix x y r s
  assume "short_field x" "short_field y" "enc_field x @ r = enc_field y @ s"
  then show "x = y \<and> r = s"
    by (auto simp: enc_field_def short_field_def be32.split_off of_nat_u32_inject append_eq_append_conv)
qed

lemma push_field_string:
  "push_field output (as_bytes s) =
     (if short_field s then Inr (output @ enc_field s)
      else Inl (InvalidConfiguration ''manifest field exceeds encoding limit''))"
  by (auto simp: push_field_def short_field_def enc_field_def)

definition short_fields :: "user_manifest \<Rightarrow> bool" where
  "short_fields m \<longleftrightarrow>
     short_field (um_id m) \<and> short_field (um_username m) \<and> short_field (kdf_algorithm (um_kdf m)) \<and>
     short_field (kdf_salt (um_kdf m)) \<and> short_field (um_vault_format m)"

lemma associated_data_Inr:
  "associated_data m = Inr b \<longleftrightarrow>
     short_fields m \<and>
     b = aad_prefix @ u32_to_be (um_version m) @ enc_field (um_id m) @ enc_field (um_username m) @
         u64_to_be (um_created_at m) @ enc_field (kdf_algorithm (um_kdf m)) @
         enc_field (kdf_salt (um_kdf m)) @ u32_to_be (kdf_memory_cost_ki_b (um_kdf m)) @
         u32_to_be (kdf_time_cost (um_kdf m)) @ u32_to_be (kdf_parallelism (um_kdf m)) @
         u32_to_be (kdf_output_length (um_kdf m)) @ enc_field (um_vault_format m)"
  by (auto simp: associated_data_def push_field_string short_fields_def)

lemma associated_data_inject:
  assumes "associated_data m = Inr b" "associated_data m' = Inr b"
  shows "m' = m\<lparr>um_wrapped_data_key := um_wrapped_data_key m'\<rparr>"
proof -
  let ?encode = "\<lambda>m. aad_prefix @ u32_to_be (um_version m) @ enc_field (um_id m) @
         enc_field (um_username m) @
         u64_to_be (um_created_at m) @ enc_field (kdf_algorithm (um_kdf m)) @
         enc_field (kdf_salt (um_kdf m)) @ u32_to_be (kdf_memory_cost_ki_b (um_kdf m)) @
         u32_to_be (kdf_time_cost (um_kdf m)) @ u32_to_be (kdf_parallelism (um_kdf m)) @
         u32_to_be (kdf_output_length (um_kdf m)) @ enc_field (um_vault_format m)"
  have s: "short_fields m" "short_fields m'" using assms by (simp_all add: associated_data_Inr)
  note f = s [unfolded short_fields_def, THEN conjunct1]
    s [unfolded short_fields_def, THEN conjunct2, THEN conjunct1]
    s [unfolded short_fields_def, THEN conjunct2, THEN conjunct2, THEN conjunct1]
    s [unfolded short_fields_def, THEN conjunct2, THEN conjunct2, THEN conjunct2, THEN conjunct1]
    s [unfolded short_fields_def, THEN conjunct2, THEN conjunct2, THEN conjunct2, THEN conjunct2]
  have encoded: "?encode m = ?encode m'" using assms by (simp only: associated_data_Inr)
  have "um_version m = um_version m' \<and> um_id m = um_id m' \<and> um_username m = um_username m' \<and>
      um_created_at m = um_created_at m' \<and> kdf_algorithm (um_kdf m) = kdf_algorithm (um_kdf m') \<and>
      kdf_salt (um_kdf m) = kdf_salt (um_kdf m') \<and>
      kdf_memory_cost_ki_b (um_kdf m) = kdf_memory_cost_ki_b (um_kdf m') \<and>
      kdf_time_cost (um_kdf m) = kdf_time_cost (um_kdf m') \<and>
      kdf_parallelism (um_kdf m) = kdf_parallelism (um_kdf m') \<and>
      kdf_output_length (um_kdf m) = kdf_output_length (um_kdf m') \<and>
      um_vault_format m = um_vault_format m'"
    using encoded f by (simp add: be32.split_off be64.split_off field.split_off field.enc_inject)
  then show ?thesis by simp
qed

lemma validate_manifest_Inr:
  "validate_manifest U m = Inr () \<longleftrightarrow>
     um_version m = manifest_version \<and> uuid_parse U (um_id m) \<noteq> None \<and>
     is_valid_username (um_username m) \<and> um_created_at m \<noteq> 0 \<and> um_vault_format m = vault_format \<and>
     wk_algorithm (um_wrapped_data_key m) = wrap_algorithm"
  by (simp add: validate_manifest_def)

section \<open>Usernames\<close>

definition is_username_byte :: "u8 \<Rightarrow> bool" where
  "is_username_byte b \<longleftrightarrow> is_ascii_alphanumeric b \<or> b = 46 \<or> b = 95 \<or> b = 45"

lemma is_valid_username_iff:
  "is_valid_username u \<longleftrightarrow>
     u \<noteq> [] \<and> length u \<le> 64 \<and> is_ascii_alphanumeric (of_char (hd u)) \<and>
     (\<forall>c \<in> set u. is_username_byte (of_char c))"
  by (cases u) (auto simp: is_valid_username_def as_bytes_def list_all_iff is_username_byte_def Let_def)

lemma of_char_char_of_u8: "(of_char (char_of (unat (b :: u8))) :: u8) = b"
proof -
  have "(of_char (char_of (unat b)) :: nat) = unat b mod 256" by simp
  then have "unat (of_char (char_of (unat b)) :: u8) = unat b"
    by (simp add: unat_of_char)
  then show ?thesis by (simp add: word_unat_eq_iff)
qed

lemma of_char_to_lower:
  "(of_char (char_to_lower c) :: u8) = (if is_ascii_uppercase (of_char c) then of_char c + 32 else of_char c)"
  by (simp add: char_to_lower_def of_char_char_of_u8)

text \<open>Lowering an upper-case letter gives a lower-case one.\<close>

lemma upper_add_32:
  assumes "is_ascii_uppercase (b :: u8)"
  shows "is_ascii_lowercase (b + 32)"
proof -
  have "unat b \<le> 90" "65 \<le> unat b"
    using assms by (auto simp: is_ascii_uppercase_def word_le_nat_alt)
  then show ?thesis
    by (simp add: is_ascii_lowercase_def word_le_nat_alt unat_word_ariths)
qed

lemma lower_username_byte:
  "is_username_byte (of_char c) \<Longrightarrow> is_username_byte (of_char (char_to_lower c))"
  by (auto simp: of_char_to_lower is_username_byte_def is_ascii_alphanumeric_def upper_add_32)

lemma lower_alphanumeric:
  "is_ascii_alphanumeric (of_char c) \<Longrightarrow> is_ascii_alphanumeric (of_char (char_to_lower c))"
  by (auto simp: of_char_to_lower is_ascii_alphanumeric_def upper_add_32)

lemma lower_username_valid: "is_valid_username u \<Longrightarrow> is_valid_username (to_ascii_lowercase u)"
  by (cases u) (auto simp: is_valid_username_iff to_ascii_lowercase_def lower_username_byte lower_alphanumeric)

text \<open>The characters of a username cannot name another directory.\<close>

lemma username_char_safe:
  assumes "is_username_byte (of_char c)"
  shows "c \<noteq> CHR ''/''" "c \<noteq> CHR 0x00"
  using assms
  by (auto simp: is_username_byte_def is_ascii_alphanumeric_def is_ascii_digit_def is_ascii_uppercase_def
      is_ascii_lowercase_def)

lemma username_not_dots:
  assumes "is_valid_username u"
  shows "u \<noteq> ''.''" "u \<noteq> ''..''"
  using assms
  by (auto simp: is_valid_username_iff is_ascii_alphanumeric_def is_ascii_digit_def is_ascii_uppercase_def
      is_ascii_lowercase_def)

lemma lower_not_upper: "\<not> is_ascii_uppercase (of_char (char_to_lower c))"
proof (cases "is_ascii_uppercase (of_char c)")
  case True
  then have "is_ascii_lowercase (of_char c + 32)" by (rule upper_add_32)
  then show ?thesis
    using True by (auto simp: of_char_to_lower is_ascii_lowercase_def is_ascii_uppercase_def word_le_nat_alt)
qed (simp add: of_char_to_lower)

lemma char_to_lower_idem [simp]: "char_to_lower (char_to_lower c) = char_to_lower c"
  using lower_not_upper [of c] by (subst char_to_lower_def) simp

lemma to_ascii_lowercase_idem [simp]: "to_ascii_lowercase (to_ascii_lowercase s) = to_ascii_lowercase s"
  by (simp add: to_ascii_lowercase_def)

section \<open>Properties\<close>

definition demo_manifest :: "string \<Rightarrow> user_manifest" where
  "demo_manifest username =
     \<lparr>um_version = 1, um_id = ''id'', um_username = username, um_created_at = 5,
      um_kdf = \<lparr>kdf_algorithm = ''argon2id'', kdf_salt = ''s'', kdf_memory_cost_ki_b = 65536,
                kdf_time_cost = 3, kdf_parallelism = 1, kdf_output_length = 32\<rparr>,
      um_wrapped_data_key = \<lparr>wk_algorithm = wrap_algorithm, wk_iv = [], wk_ciphertext = [],
                             wk_authentication_tag = []\<rparr>,
      um_vault_format = vault_format\<rparr>"

text \<open>
  C10: the associated data of a manifest determines all of its metadata.  Two manifests with the same
  encoding are equal up to the wrapped key, so a wrapped key cannot be moved to another user name,
  identifier, creation time, set of derivation parameters or format.
\<close>

theorem associated_data_injective:
  assumes "associated_data m = Inr b" "associated_data m' = Inr b"
  shows "m' = m\<lparr>um_wrapped_data_key := um_wrapped_data_key m'\<rparr>"
  by (rule associated_data_inject [OF assms])

theorem associated_data_injective_witness:
  "associated_data (demo_manifest ''alice'') \<noteq> associated_data (demo_manifest ''bob'')"
proof
  assume eq: "associated_data (demo_manifest ''alice'') = associated_data (demo_manifest ''bob'')"
  have "short_fields (demo_manifest ''alice'')"
    by (simp add: short_fields_def short_field_def demo_manifest_def vault_format_def)
  then obtain b where "associated_data (demo_manifest ''alice'') = Inr b"
    using associated_data_Inr by blast
  with eq have "demo_manifest ''bob'' =
      demo_manifest ''alice''\<lparr>um_wrapped_data_key := um_wrapped_data_key (demo_manifest ''bob'')\<rparr>"
    by (intro associated_data_injective [of _ b]) simp_all
  then have "um_username (demo_manifest ''bob'') = um_username (demo_manifest ''alice'')"
    by (rule ssubst) simp
  then show False by (simp add: demo_manifest_def)
qed

text \<open>
  C11: a valid user name is safe as the name of its directory.  Lower-casing it keeps it valid and is
  idempotent, and the result has no separator and no null byte and is not a dot name.
\<close>

theorem username_directory_safe:
  assumes "is_valid_username u"
  shows "is_valid_username (to_ascii_lowercase u) \<and>
    to_ascii_lowercase (to_ascii_lowercase u) = to_ascii_lowercase u \<and>
    CHR ''/'' \<notin> set (to_ascii_lowercase u) \<and> CHR 0x00 \<notin> set (to_ascii_lowercase u) \<and>
    to_ascii_lowercase u \<notin> {[], ''.'', ''..''}"
proof -
  have v: "is_valid_username (to_ascii_lowercase u)" by (rule lower_username_valid [OF assms])
  then show ?thesis
    using username_char_safe username_not_dots [OF v] by (auto simp: is_valid_username_iff)
qed

theorem username_directory_safe_witness:
  "is_valid_username ''Al.ice'' \<and> CHR ''/'' \<notin> set (to_ascii_lowercase ''Al.ice'')"
proof -
  have "is_valid_username ''Al.ice''"
    by (simp add: is_valid_username_iff is_username_byte_def is_ascii_alphanumeric_def
        is_ascii_digit_def is_ascii_uppercase_def is_ascii_lowercase_def)
  then show ?thesis using username_directory_safe [of "''Al.ice''"] by blast
qed

end
