(* ===== verification/Kdf.thy ===== *)
theory Kdf
  imports Frame_Format Manifest
begin

text \<open>
  \<open>src/crypto/kdf.rs\<close>: the parameters of the password-based key derivation and their validation.  The
  \<open>base64\<close> and \<open>argon2\<close> crates are parameters.  The lemmas show that derivation happens only within
  the bounds, and that the defaults are within them.
\<close>

section \<open>Third-party primitives\<close>

record base64_lib =
  b64_encode :: "bytes \<Rightarrow> string"
  b64_decode :: "string \<Rightarrow> bytes option"

definition b64_round_trips :: "base64_lib \<Rightarrow> bool" where
  "b64_round_trips B \<longleftrightarrow> (\<forall>bs. b64_decode B (b64_encode B bs) = Some bs)"

text \<open>
  Argon2id, version 0x13: which costs \<open>Params::new\<close> accepts (memory, time, lanes, output length), and
  the hash of a password and a salt into a buffer of the given length.
\<close>

record argon2_lib =
  a2_params_ok :: "u32 \<Rightarrow> u32 \<Rightarrow> u32 \<Rightarrow> nat \<Rightarrow> bool"
  a2_hash :: "u32 \<Rightarrow> u32 \<Rightarrow> u32 \<Rightarrow> nat \<Rightarrow> bytes \<Rightarrow> bytes \<Rightarrow> nat \<Rightarrow> bytes option"

text \<open>
  The documented ranges: at least eight blocks of memory per lane, one pass, one lane; passwords
  below 4 GiB and salts of at least eight bytes are hashed, and the buffer is filled.
\<close>

definition a2_documented :: "argon2_lib \<Rightarrow> bool" where
  "a2_documented H \<longleftrightarrow>
     (\<forall>m t p. 8 * unat p \<le> unat m \<longrightarrow> 1 \<le> unat t \<longrightarrow> 1 \<le> unat p \<longrightarrow> unat p < 2 ^ 24 \<longrightarrow>
        a2_params_ok H m t p 32) \<and>
     (\<forall>m t p pw salt. a2_params_ok H m t p 32 \<longrightarrow> length pw < 2 ^ 32 \<longrightarrow> 8 \<le> length salt \<longrightarrow>
        a2_hash H m t p 32 pw salt 32 \<noteq> None) \<and>
     (\<forall>m t p n pw salt l h. a2_hash H m t p n pw salt l = Some h \<longrightarrow> length h = l)"

section \<open>Operations\<close>

definition salt_length :: nat where "salt_length = 16"
definition key_length :: nat where "key_length = 32"
definition key_length_u32 :: u32 where "key_length_u32 = 32"

lemmas [layout_simps] = salt_length_def key_length_def

definition random_failed :: vault_error where
  "random_failed = Cryptography ''operating-system random source failed''"

definition default_kdf_parameters :: "base64_lib \<Rightarrow> 's entropy \<Rightarrow> ('s, vault_error, kdf_parameters) action" where
  "default_kdf_parameters B fill =
     andthen (action_err (\<lambda>_. random_failed) (fill salt_length))
       (\<lambda>salt. ok \<lparr>kdf_algorithm = ''argon2id'', kdf_salt = b64_encode B salt,
                  kdf_memory_cost_ki_b = 64 * 1024, kdf_time_cost = 3, kdf_parallelism = 1,
                  kdf_output_length = key_length_u32\<rparr>)"

definition validate_parameters :: "kdf_parameters \<Rightarrow> unit vault_result" where
  "validate_parameters p =
     (if kdf_algorithm p \<noteq> ''argon2id'' \<or>
         \<not> (16 * 1024 \<le> kdf_memory_cost_ki_b p \<and> kdf_memory_cost_ki_b p \<le> 256 * 1024) \<or>
         \<not> (1 \<le> kdf_time_cost p \<and> kdf_time_cost p \<le> 10) \<or>
         \<not> (1 \<le> kdf_parallelism p \<and> kdf_parallelism p \<le> 16) \<or>
         kdf_output_length p \<noteq> key_length_u32
      then Inl (InvalidConfiguration ''invalid Argon2id parameters in user manifest'')
      else Inr ())"

text \<open>The conversion of the output length to \<open>usize\<close> cannot fail on a target of 32 bits or more.\<close>

definition derive_key :: "base64_lib \<Rightarrow> argon2_lib \<Rightarrow> bytes \<Rightarrow> kdf_parameters \<Rightarrow> bytes vault_result" where
  "derive_key B H password p =
     (case validate_parameters p of
        Inl e \<Rightarrow> Inl e
      | Inr _ \<Rightarrow>
        (case b64_decode B (kdf_salt p) of
           None \<Rightarrow> Inl (InvalidConfiguration ''invalid KDF salt encoding'')
         | Some salt \<Rightarrow>
           if length salt \<noteq> salt_length then Inl (InvalidConfiguration ''invalid KDF salt length'')
           else if \<not> a2_params_ok H (kdf_memory_cost_ki_b p) (kdf_time_cost p) (kdf_parallelism p)
                     (unat (kdf_output_length p))
           then Inl (InvalidConfiguration ''invalid Argon2id parameters'')
           else (case a2_hash H (kdf_memory_cost_ki_b p) (kdf_time_cost p) (kdf_parallelism p)
                        (unat (kdf_output_length p)) password salt key_length of
              None \<Rightarrow> Inl (Cryptography ''Argon2id key derivation failed'')
            | Some output \<Rightarrow> Inr output)))"

section \<open>Bounds\<close>

text \<open>The work a manifest can demand of the machine that opens it.\<close>

definition kdf_bounded :: "kdf_parameters \<Rightarrow> bool" where
  "kdf_bounded p \<longleftrightarrow>
     kdf_algorithm p = ''argon2id'' \<and>
     unat (kdf_memory_cost_ki_b p) \<in> {16384..262144} \<and> unat (kdf_time_cost p) \<in> {1..10} \<and>
     unat (kdf_parallelism p) \<in> {1..16} \<and> unat (kdf_output_length p) = 32"

lemma validate_parameters_Inr: "validate_parameters p = Inr () \<longleftrightarrow> kdf_bounded p"
proof -
  have "kdf_output_length p = key_length_u32 \<longleftrightarrow> unat (kdf_output_length p) = 32"
    by (simp add: key_length_u32_def word_unat_eq_iff)
  then show ?thesis
    by (auto simp: validate_parameters_def kdf_bounded_def word_le_nat_alt)
qed

lemma derive_key_bounded:
  assumes "derive_key B H password p = Inr k"
  shows "kdf_bounded p" "\<exists>salt. b64_decode B (kdf_salt p) = Some salt \<and> length salt = salt_length \<and>
      a2_hash H (kdf_memory_cost_ki_b p) (kdf_time_cost p) (kdf_parallelism p) 32 password salt key_length
        = Some k"
proof -
  have b: "validate_parameters p = Inr ()"
    using assms by (auto simp: derive_key_def split: sum.splits)
  then show "kdf_bounded p" by (simp add: validate_parameters_Inr)
  then have "unat (kdf_output_length p) = 32" by (simp add: kdf_bounded_def)
  then show "\<exists>salt. b64_decode B (kdf_salt p) = Some salt \<and> length salt = salt_length \<and>
      a2_hash H (kdf_memory_cost_ki_b p) (kdf_time_cost p) (kdf_parallelism p) 32 password salt key_length
        = Some k"
    using assms b by (auto simp: derive_key_def split: option.splits if_splits)
qed

lemma derive_key_length: "a2_documented H \<Longrightarrow> derive_key B H password p = Inr k \<Longrightarrow> length k = 32"
  using derive_key_bounded(2) [of B H password p k] unfolding a2_documented_def key_length_def by blast

lemma default_parameters_Inr:
  "default_kdf_parameters B fill s = (Inr p, s') \<longleftrightarrow>
     (\<exists>salt. fill salt_length s = (Inr salt, s') \<and>
        p = \<lparr>kdf_algorithm = ''argon2id'', kdf_salt = b64_encode B salt, kdf_memory_cost_ki_b = 65536,
             kdf_time_cost = 3, kdf_parallelism = 1, kdf_output_length = 32\<rparr>)"
  by (auto simp: default_kdf_parameters_def andthen_Inr_iff key_length_u32_def)

lemma derive_key_default:
  assumes "b64_round_trips B" "a2_documented H" "entropy_fills fill"
    and "default_kdf_parameters B fill s = (Inr p, s')" "length password < 2 ^ 32"
  obtains k where "derive_key B H password p = Inr k" "length k = 32"
proof -
  obtain salt where salt: "fill salt_length s = (Inr salt, s')" "length salt = 16"
    and p: "p = \<lparr>kdf_algorithm = ''argon2id'', kdf_salt = b64_encode B salt, kdf_memory_cost_ki_b = 65536,
             kdf_time_cost = 3, kdf_parallelism = 1, kdf_output_length = 32\<rparr>"
    using assms(3,4) by (fastforce simp: default_parameters_Inr entropy_fills_def salt_length_def)
  have valid: "validate_parameters p = Inr ()"
    by (simp add: validate_parameters_Inr kdf_bounded_def p)
  have ok: "a2_params_ok H 65536 3 1 32"
    using assms(2) by (simp add: a2_documented_def)
  then have "a2_hash H 65536 3 1 32 password salt 32 \<noteq> None"
    using assms(2,5) salt(2) by (auto simp: a2_documented_def)
  then obtain k where "a2_hash H 65536 3 1 32 password salt 32 = Some k" by auto
  then have "derive_key B H password p = Inr k"
    using valid ok assms(1) salt by (simp add: derive_key_def p b64_round_trips_def layout_simps)
  then show thesis using that derive_key_length [OF assms(2)] by blast
qed

section \<open>Properties\<close>

text \<open>Instances of the parameters: bytes kept as characters, and a hash that mixes nothing.\<close>

definition char_base64 :: base64_lib where
  "char_base64 = \<lparr>b64_encode = map (\<lambda>b. char_of (unat b)), b64_decode = (\<lambda>s. Some (as_bytes s))\<rparr>"

definition pad_argon2 :: argon2_lib where
  "pad_argon2 =
     \<lparr>a2_params_ok = (\<lambda>m t p n. 8 * unat p \<le> unat m \<and> 1 \<le> unat t \<and> 1 \<le> unat p),
      a2_hash = (\<lambda>m t p n pw salt l. Some (take l (salt @ pw @ replicate l 0)))\<rparr>"

lemma char_base64_round_trips: "b64_round_trips char_base64"
  by (simp add: b64_round_trips_def char_base64_def as_bytes_def of_char_char_of_u8 comp_def)

lemma pad_argon2_documented: "a2_documented pad_argon2"
  by (auto simp: a2_documented_def pad_argon2_def min_def)

definition zero_fill :: "'s entropy" where
  "zero_fill n s = (Inr (replicate n 0), s)"

lemma zero_fills: "entropy_fills zero_fill"
  by (simp add: entropy_fills_def zero_fill_def)

text \<open>
  The derivation refuses parameters outside its bounds before it decodes the salt or hashes
  anything, so a manifest cannot demand more than 256 MiB, ten passes or sixteen lanes.
\<close>

theorem derivation_bounded:
  assumes "\<not> kdf_bounded p"
  shows "derive_key B H password p =
    Inl (InvalidConfiguration ''invalid Argon2id parameters in user manifest'')"
proof -
  have "validate_parameters p \<noteq> Inr ()" using assms by (simp add: validate_parameters_Inr)
  then have "validate_parameters p =
      Inl (InvalidConfiguration ''invalid Argon2id parameters in user manifest'')"
    by (simp add: validate_parameters_def split: if_splits)
  then show ?thesis by (simp add: derive_key_def)
qed

theorem derivation_bounded_witness:
  "derive_key char_base64 pad_argon2 [1]
     \<lparr>kdf_algorithm = ''argon2id'', kdf_salt = [], kdf_memory_cost_ki_b = 262145, kdf_time_cost = 3,
      kdf_parallelism = 1, kdf_output_length = 32\<rparr> =
   Inl (InvalidConfiguration ''invalid Argon2id parameters in user manifest'')"
  by (rule derivation_bounded) (simp add: kdf_bounded_def)

text \<open>
  The default parameters work.  Whenever the random source fills the salt, the parameters are
  within the bounds, and every password below 4 GiB is derived to a key of 32 bytes with them.
\<close>

theorem default_parameters_derive:
  assumes "b64_round_trips B" "a2_documented H" "entropy_fills fill"
    and "default_kdf_parameters B fill s = (Inr p, s')" "length password < 2 ^ 32"
  shows "kdf_bounded p \<and> (\<exists>k. derive_key B H password p = Inr k \<and> length k = 32)"
  using derive_key_default [OF assms] derive_key_bounded(1) by metis

theorem default_parameters_derive_witness:
  "\<exists>p k. default_kdf_parameters char_base64 zero_fill () = (Inr p, ()) \<and>
     derive_key char_base64 pad_argon2 [1, 2, 3] p = Inr k \<and> length k = 32"
proof -
  obtain p where p: "default_kdf_parameters char_base64 zero_fill () = (Inr p, ())"
    by (simp add: default_parameters_Inr zero_fill_def)
  from default_parameters_derive [OF char_base64_round_trips pad_argon2_documented zero_fills p, of "[1, 2, 3]"]
  show ?thesis using p by auto
qed

end
