(* ===== verification/Key_Wrap.thy ===== *)
theory Key_Wrap
  imports Kdf
begin

text \<open>
  \<open>src/crypto/key_wrap.rs\<close>: the random data key of a vault encrypted under the key derived from the
  password.  The lemmas show the round trip, that a wrapped key that does not open is reported as
  \<open>Authentication\<close> whatever is wrong with it, and what an authentic opening proves.
\<close>

section \<open>Operations\<close>

definition wrap_nonce_length :: nat where "wrap_nonce_length = 12"

lemmas [layout_simps] = wrap_nonce_length_def

definition wrap_data_key ::
  "aead \<Rightarrow> base64_lib \<Rightarrow> 's entropy \<Rightarrow> bytes \<Rightarrow> bytes \<Rightarrow> bytes \<Rightarrow> ('s, vault_error, wrapped_key) action" where
  "wrap_data_key A B fill data_key wrapping_key associated =
     andthen (action_err (\<lambda>_. random_failed) (fill wrap_nonce_length))
       (\<lambda>nonce.
          if \<not> aead_key_ok A wrapping_key then err (Cryptography ''invalid wrapping key'')
          else if \<not> aead_nonce_ok A nonce then err (Cryptography ''invalid key-wrap nonce'')
          else (case aead_encrypt A wrapping_key nonce associated data_key of
                  None \<Rightarrow> err (Cryptography ''data-key wrapping failed'')
                | Some encrypted \<Rightarrow>
                    if length encrypted < tag_length then err (Cryptography ''invalid wrapped data-key length'')
                    else
                      let split = length encrypted - tag_length in
                      ok \<lparr>wk_algorithm = wrap_algorithm, wk_iv = b64_encode B nonce,
                          wk_ciphertext = b64_encode B (take split encrypted),
                          wk_authentication_tag = b64_encode B (drop split encrypted)\<rparr>))"

definition unwrap_data_key ::
  "aead \<Rightarrow> base64_lib \<Rightarrow> wrapped_key \<Rightarrow> bytes \<Rightarrow> bytes \<Rightarrow> bytes vault_result" where
  "unwrap_data_key A B wrapped wrapping_key associated =
     (case b64_decode B (wk_iv wrapped) of
        None \<Rightarrow> Inl Authentication
      | Some nonce \<Rightarrow>
     (case b64_decode B (wk_ciphertext wrapped) of
        None \<Rightarrow> Inl Authentication
      | Some ciphertext \<Rightarrow>
     (case b64_decode B (wk_authentication_tag wrapped) of
        None \<Rightarrow> Inl Authentication
      | Some tag \<Rightarrow>
          if length nonce \<noteq> wrap_nonce_length \<or> length ciphertext \<noteq> key_length \<or>
             length tag \<noteq> tag_length
          then Inl Authentication
          else if \<not> aead_key_ok A wrapping_key then Inl Authentication
          else if \<not> aead_nonce_ok A nonce then Inl Authentication
          else (case aead_decrypt A wrapping_key nonce associated (ciphertext @ tag) of
                  None \<Rightarrow> Inl Authentication
                | Some plaintext \<Rightarrow>
                    if length plaintext \<noteq> key_length then Inl Authentication else Inr plaintext))))"

section \<open>Properties\<close>

lemma unwrap_Inr:
  "unwrap_data_key A B w key ad = Inr k \<longleftrightarrow>
     (\<exists>n c t. b64_decode B (wk_iv w) = Some n \<and> b64_decode B (wk_ciphertext w) = Some c \<and>
        b64_decode B (wk_authentication_tag w) = Some t \<and>
        length n = 12 \<and> length c = 32 \<and> length t = 16 \<and> aead_key_ok A key \<and> aead_nonce_ok A n \<and>
        aead_decrypt A key n ad (c @ t) = Some k \<and> length k = 32)"
  by (auto simp: unwrap_data_key_def layout_simps split: option.split)

lemma unwrap_cases: "unwrap_data_key A B w key ad = Inl Authentication \<or> (\<exists>k. unwrap_data_key A B w key ad = Inr k)"
  by (auto simp: unwrap_data_key_def split: option.split)

lemma wrap_Inr:
  assumes "wrap_data_key A B fill data_key key ad s = (Inr w, s')"
  obtains n c where "fill 12 s = (Inr n, s')" "aead_encrypt A key n ad data_key = Some c" "16 \<le> length c"
    "aead_key_ok A key" "aead_nonce_ok A n"
    "w = \<lparr>wk_algorithm = wrap_algorithm, wk_iv = b64_encode B n,
          wk_ciphertext = b64_encode B (take (length c - 16) c),
          wk_authentication_tag = b64_encode B (drop (length c - 16) c)\<rparr>"
  using assms
  by (auto simp: wrap_data_key_def andthen_Inr_iff layout_simps Let_def split: if_splits option.splits)

lemma wrap_algorithm_kept:
  "wrap_data_key A B fill data_key key ad s = (Inr w, s') \<Longrightarrow> wk_algorithm w = wrap_algorithm"
  by (erule wrap_Inr) simp

lemma unwrap_wrap:
  assumes "aead_sizes A" "aead_decrypts A" "b64_round_trips B"
    and "length data_key = 32"
    and "wrap_data_key A B fill data_key key ad s = (Inr w, s')"
  shows "unwrap_data_key A B w key ad = Inr data_key"
proof -
  obtain n c where n: "aead_encrypt A key n ad data_key = Some c"
    and ok: "aead_key_ok A key" "aead_nonce_ok A n"
    and w: "w = \<lparr>wk_algorithm = wrap_algorithm, wk_iv = b64_encode B n,
          wk_ciphertext = b64_encode B (take (length c - 16) c),
          wk_authentication_tag = b64_encode B (drop (length c - 16) c)\<rparr>"
    using wrap_Inr [OF assms(5)] by metis
  have len: "length c = 48" "length key = 32" "length n = 12"
    using aead_sizesD [OF assms(1)] n ok assms(4) by auto
  have "aead_decrypt A key n ad c = Some data_key"
    by (rule aead_decryptsD [OF assms(2) n]) (simp_all add: len assms(4))
  then show ?thesis
    using assms(3,4) len ok by (auto simp: unwrap_Inr w b64_round_trips_def)
qed


text \<open>
  Rotation: the new wrapped key opens to the same data key, under the new wrapping key.
\<close>

lemma rewrap_same_key:
  assumes "aead_sizes A" "aead_decrypts A" "b64_round_trips B"
    and "unwrap_data_key A B w key ad = Inr k"
    and "wrap_data_key A B fill k key' ad' s = (Inr w', s')"
  shows "unwrap_data_key A B w' key' ad' = Inr k"
proof -
  have "length k = 32" using assms(4) by (auto simp: unwrap_Inr)
  then show ?thesis using unwrap_wrap [OF assms(1-3) _ assms(5)] by simp
qed

section \<open>Claims\<close>

definition plain_aead :: aead where
  "plain_aead =
     \<lparr>aead_key_ok = (\<lambda>k. length k = 32), aead_nonce_ok = (\<lambda>n. length n = 12),
      aead_encrypt = (\<lambda>k n a m. Some (m @ replicate 16 0)),
      aead_decrypt = (\<lambda>k n a c. if length c < 16 then None else Some (take (length c - 16) c))\<rparr>"

lemma plain_aead_ok: "aead_sizes plain_aead" "aead_decrypts plain_aead"
  by (simp_all add: plain_aead_def aead_sizes_def aead_decrypts_def)

text \<open>
  A wrapped data key opens, under the same wrapping key and associated data, to the data key; and
  rewrapping what was opened, under any other key and associated data, opens to the same data key.
\<close>

theorem wrap_round_trip:
  assumes "aead_sizes A" "aead_decrypts A" "b64_round_trips B" "length data_key = 32"
    and "wrap_data_key A B fill data_key key ad s = (Inr w, s1)"
    and "wrap_data_key A B fill data_key key' ad' s1 = (Inr w', s2)"
  shows "unwrap_data_key A B w key ad = Inr data_key \<and> unwrap_data_key A B w' key' ad' = Inr data_key"
  using unwrap_wrap [OF assms(1-5)] unwrap_wrap [OF assms(1-4,6)] by simp

theorem wrap_round_trip_witness:
  "\<exists>w. wrap_data_key plain_aead char_base64 zero_fill (replicate 32 1) (replicate 32 2) [3] () = (Inr w, ()) \<and>
     unwrap_data_key plain_aead char_base64 w (replicate 32 2) [3] = Inr (replicate 32 1)"
proof -
  obtain w where w: "wrap_data_key plain_aead char_base64 zero_fill (replicate 32 1) (replicate 32 2) [3] ()
      = (Inr w, ())"
    by (simp add: wrap_data_key_def andthen_def action_err_apply zero_fill_def plain_aead_def layout_simps)
  from wrap_round_trip [OF plain_aead_ok char_base64_round_trips _ w w] w show ?thesis by auto
qed

text \<open>
  Opening fails only as \<open>Authentication\<close>, whatever is wrong with the wrapped key, and a success is
  always a key of 32 bytes: the caller learns nothing else from a damaged manifest.
\<close>

theorem unwrap_outcomes:
  "unwrap_data_key A B w key ad = Inl Authentication \<or>
   (\<exists>k. unwrap_data_key A B w key ad = Inr k \<and> length k = 32)"
  using unwrap_cases [of A B w key ad] by (auto simp: unwrap_Inr)




end
