(* ===== verification/Daemon_Protocol.thy ===== *)
theory Daemon_Protocol
  imports Rust_Io
begin

text \<open>
  \<open>src/daemon_protocol.rs\<close>: the messages between the daemon and its clients and their framing, a
  big-endian length and that many bytes of JSON.  The \<open>serde_json\<close> crate is a parameter, one codec for
  each message type.  The lemmas show the round trip over any byte sink and any plain source, the
  bound on what is read, and the errors on every other input.
\<close>

section \<open>Messages\<close>

definition protocol_version :: u16 where "protocol_version = 1"
definition max_frame_bytes :: nat where "max_frame_bytes = 16 * 1024"

lemmas [layout_simps] = max_frame_bytes_def

datatype capability_state = Enabled | Disabled

datatype daemon_error_code = UnsupportedProtocol | PeerRejectedCode | InvalidRequest

record peer_identity =
  peer_pid :: i32
  peer_uid :: u32
  peer_gid :: u32

record daemon_capabilities =
  cap_kernel_peer_credentials :: capability_state
  cap_pam_authentication :: capability_state
  cap_dedicated_uid :: capability_state
  cap_encrypted_mount :: capability_state

record daemon_status =
  ds_protocol_version :: u16
  ds_daemon_version :: string
  ds_daemon_uid :: u32
  ds_peer :: peer_identity
  ds_capabilities :: daemon_capabilities

datatype daemon_request = StatusRequest u16

datatype daemon_response =
    StatusResponse daemon_status
  | ErrorResponse u16 daemon_error_code string

definition is_enabled :: "capability_state \<Rightarrow> bool" where
  "is_enabled c = (case c of Enabled \<Rightarrow> True | Disabled \<Rightarrow> False)"

definition alpha_status_only :: daemon_capabilities where
  "alpha_status_only =
     \<lparr>cap_kernel_peer_credentials = Enabled, cap_pam_authentication = Disabled,
      cap_dedicated_uid = Disabled, cap_encrypted_mount = Disabled\<rparr>"

section \<open>Framing\<close>

text \<open>\<open>serde_json::to_vec\<close> and \<open>from_slice\<close> on one message type; an error is its message.\<close>

record 'm json_codec =
  json_to_vec :: "'m \<Rightarrow> string + bytes"
  json_from_slice :: "bytes \<Rightarrow> string + 'm"

definition json_round_trips :: "'m json_codec \<Rightarrow> bool" where
  "json_round_trips J \<longleftrightarrow> (\<forall>m p. json_to_vec J m = Inr p \<longrightarrow> json_from_slice J p = Inr m)"

definition write_message ::
  "'m json_codec \<Rightarrow> ('h, 's) write_ops \<Rightarrow> 'h \<Rightarrow> 'm \<Rightarrow> ('s, vault_error, unit) action" where
  "write_message J W writer message =
     (case json_to_vec J message of
        Inl e \<Rightarrow> err (Serialization e)
      | Inr payload \<Rightarrow>
          if payload = [] \<or> length payload > max_frame_bytes
          then err (Protocol (''message length must be between 1 and '' @ show_nat max_frame_bytes @ '' bytes''))
          else if \<not> length payload < 2 ^ 32 then err (Protocol ''message length exceeds u32'')
          else andthen (action_err Io (op_write_all W writer (u32_to_be (of_nat (length payload)))))
            (\<lambda>_. andthen (action_err Io (op_write_all W writer payload))
              (\<lambda>_. action_err Io (op_flush W writer))))"

definition protocol_io :: "string \<Rightarrow> io_error \<Rightarrow> vault_error" where
  "protocol_io context error = Protocol (context @ '': '' @ io_message error)"

definition invalid_length :: "nat \<Rightarrow> vault_error" where
  "invalid_length n =
     Protocol (''invalid message length '' @ show_nat n @ ''; maximum is '' @ show_nat max_frame_bytes)"

definition read_message :: "'m json_codec \<Rightarrow> (source, vault_error, 'm) action" where
  "read_message J =
     andthen (action_err (protocol_io ''message header is truncated'') (read_exact 4))
       (\<lambda>header. let n = unat (u32_from_be header) in
          if n = 0 \<or> n > max_frame_bytes then err (invalid_length n)
          else andthen (action_err (protocol_io ''message payload is truncated'') (read_exact n))
            (\<lambda>payload. lift_result (map_err (\<lambda>e. Protocol (''invalid JSON message: '' @ e))
               (json_from_slice J payload))))"

text \<open>The frame of a payload.\<close>

definition message_frame :: "bytes \<Rightarrow> bytes" where
  "message_frame payload = u32_to_be (of_nat (length payload)) @ payload"

definition fits_frame :: "bytes \<Rightarrow> bool" where
  "fits_frame payload \<longleftrightarrow> payload \<noteq> [] \<and> length payload \<le> max_frame_bytes"

section \<open>Writing\<close>

context byte_sink
begin

lemma write_message_Inr:
  assumes "live h s" "write_message J ops h m s = (Inr u, s')"
  obtains p where "json_to_vec J m = Inr p" "fits_frame p"
    "live h s'" "content h s' = content h s @ message_frame p"
proof -
  obtain p s1 s2 u1 u2 where p: "json_to_vec J m = Inr p" "fits_frame p"
    and 1: "op_write_all ops h (u32_to_be (of_nat (length p))) s = (Inr u1, s1)"
    and 2: "op_write_all ops h p s1 = (Inr u2, s2)"
    and 3: "op_flush ops h s2 = (Inr u, s')"
    using assms(2)
    by (auto simp: write_message_def fits_frame_def andthen_Inr_iff split: sum.splits if_splits)
  note s1 = write_all_ok [OF assms(1) 1]
  note s2 = write_all_ok [OF conjunct1 [OF s1] 2]
  note s3 = flush_keeps [OF conjunct1 [OF s2] 3]
  show thesis
    by (rule that [OF p]) (use s1 s2 s3 in \<open>auto simp: message_frame_def\<close>)
qed

text \<open>Whatever happens, nothing but a beginning of the frame was added.\<close>

lemma write_message_prefix:
  assumes "live h s" "write_message J ops h m s = (r, s')"
  shows "\<exists>q. content h s' = content h s @ q \<and>
    (q = [] \<or> (\<exists>p. json_to_vec J m = Inr p \<and> fits_frame p \<and> prefix q (message_frame p)))"
proof (cases "\<exists>p. json_to_vec J m = Inr p \<and> fits_frame p")
  case True
  then obtain p where p: "json_to_vec J m = Inr p" "fits_frame p" by blast
  let ?h = "u32_to_be (of_nat (length p))"
  have run: "write_message J ops h m s =
    andthen (action_err Io (op_write_all ops h ?h)) (\<lambda>_. andthen (action_err Io (op_write_all ops h p))
              (\<lambda>_. action_err Io (op_flush ops h))) s"
    using p by (auto simp: write_message_def fits_frame_def layout_simps)
  obtain r1 s1 where 1: "op_write_all ops h ?h s = (r1, s1)" by fastforce
  show ?thesis
  proof (cases r1)
    case (Inl e)
    then have "s' = s1" using run assms(2) 1 by (simp add: andthen_def action_err_apply)
    then show ?thesis using write_all_err [OF assms(1)] 1 Inl p by (fastforce simp: message_frame_def)
  next
    case (Inr u1)
    with write_all_ok [OF assms(1)] 1 have s1: "live h s1" "content h s1 = content h s @ ?h" by auto
    obtain r2 s2 where 2: "op_write_all ops h p s1 = (r2, s2)" by fastforce
    show ?thesis
    proof (cases r2)
      case (Inl e)
      then have "s' = s2" using run assms(2) 1 2 Inr by (simp add: andthen_def action_err_apply)
      moreover obtain q where "prefix q p" "content h s2 = content h s1 @ q"
        using write_all_err [OF s1(1)] 2 Inl by blast
      ultimately show ?thesis using s1(2) p by (auto simp: message_frame_def)
    next
      case (Inr u2)
      then have fl: "s' = snd (op_flush ops h s2)"
        using run assms(2) 1 2 \<open>r1 = Inr u1\<close> by (auto simp: andthen_def action_err_apply)
      have "live h s2" "content h s2 = content h s @ message_frame p"
        using write_all_ok [OF s1(1)] 2 Inr s1(2) by (auto simp: message_frame_def)
      then have "content h s' = content h s @ message_frame p"
        using flush_keeps [of h s2] fl by (metis prod.collapse)
      then show ?thesis using p by auto
    qed
  qed
next
  case False
  then have "s' = s"
    using assms(2) by (auto simp: write_message_def fits_frame_def layout_simps split: sum.splits if_splits)
  then show ?thesis by auto
qed

end

section \<open>Reading\<close>

lemma max_frame_bytes_eq: "max_frame_bytes = 16384"
  by (simp add: layout_simps)

lemma four_to_be: "u32_to_be 4 = [0, 0, 0, 4]"
  by (rule u32_to_from_be [of "[0, 0, 0, 4]", simplified, simplified u32_from_be_def, simplified])

lemma message_length:
  "length p \<le> max_frame_bytes \<Longrightarrow> unat (of_nat (length p) :: u32) = length p"
  by (simp add: layout_simps unsigned_of_nat take_bit_nat_eq_self_iff)

lemma read_message_frame:
  assumes "plain_source es" "source_data es = message_frame p @ rest" "fits_frame p"
  obtains es' where "read_message J es =
      (map_err (\<lambda>e. Protocol (''invalid JSON message: '' @ e)) (json_from_slice J p), es')"
    "plain_source es'" "source_data es' = rest"
proof -
  let ?h = "u32_to_be (of_nat (length p)) :: bytes"
  obtain es1 where 1: "read_exact (length ?h) es = (Inr ?h, es1)" "plain_source es1" "source_data es1 = p @ rest"
    by (rule read_exact_enough [OF assms(1), of ?h "p @ rest"]) (use assms(2) in \<open>simp_all add: message_frame_def\<close>)
  obtain es2 where 2: "read_exact (length p) es1 = (Inr p, es2)" "plain_source es2" "source_data es2 = rest"
    by (rule read_exact_enough [OF 1(2,3)]) blast
  have "read_message J es =
      (map_err (\<lambda>e. Protocol (''invalid JSON message: '' @ e)) (json_from_slice J p), es2)"
    using 1 2 assms(3) by (simp add: read_message_def andthen_def action_err_apply fits_frame_def message_length Let_def)
  then show thesis using that 2 by blast
qed

text \<open>Success takes exactly one frame off the input, one within the bounds.\<close>

lemma read_message_Inr:
  assumes "read_message J es = (Inr m, es')"
  shows "\<exists>p. fits_frame p \<and> source_data es = message_frame p @ source_data es' \<and> json_from_slice J p = Inr m"
proof -
  obtain header es1 p where 1: "read_exact 4 es = (Inr header, es1)"
    and n: "unat (u32_from_be header) \<noteq> 0" "unat (u32_from_be header) \<le> max_frame_bytes"
    and 2: "read_exact (unat (u32_from_be header)) es1 = (Inr p, es')"
    and m: "json_from_slice J p = Inr m"
    using assms by (auto simp: read_message_def andthen_Inr_iff Let_def split: if_splits)
  from read_exact_Inr [OF 1] have h: "length header = 4" "source_data es = header @ source_data es1" by auto
  from read_exact_Inr [OF 2] have p: "length p = unat (u32_from_be header)" "source_data es1 = p @ source_data es'" by auto
  have "u32_to_be (of_nat (length p)) = header"
    using h(1) by (simp add: p(1) u32_to_from_be)
  then show ?thesis using h p n m by (auto simp: fits_frame_def message_frame_def)
qed

text \<open>A length outside the bounds is refused with the payload still unread.\<close>

lemma read_message_bad_length:
  assumes "plain_source es" "source_data es = u32_to_be n @ rest" "unat n = 0 \<or> unat n > max_frame_bytes"
  obtains es' where "read_message J es = (Inl (invalid_length (unat n)), es')" "source_data es' = rest"
proof -
  obtain es1 where 1: "read_exact (length (u32_to_be n)) es = (Inr (u32_to_be n), es1)" "plain_source es1"
      "source_data es1 = rest"
    by (rule read_exact_enough [OF assms(1,2)]) blast
  then show thesis
    using that assms(3) by (simp add: read_message_def andthen_def action_err_apply Let_def)
qed

lemma read_message_truncated:
  assumes "plain_source es" "fits_frame p" "strict_prefix (source_data es) (message_frame p)"
  obtains c es' where "read_message J es = (Inl (protocol_io c unexpected_eof), es')"
    "c = ''message header is truncated'' \<or> c = ''message payload is truncated''"
proof -
  let ?h = "u32_to_be (of_nat (length p)) :: bytes"
  show thesis
  proof (cases "length (source_data es) < 4")
    case True
    then obtain es1 where "read_exact 4 es = (Inl unexpected_eof, es1)"
      by (rule read_exact_short [OF assms(1)])
    then show thesis using that by (simp add: read_message_def andthen_def action_err_apply Let_def)
  next
    case False
    obtain q where q: "message_frame p = source_data es @ q" "q \<noteq> []"
      using assms(3) by (auto simp: strict_prefix_def prefix_def)
    then obtain b where b: "source_data es = ?h @ b" "p = b @ q"
      using append_split_longer [of "source_data es" q ?h p] False by (auto simp: message_frame_def)
    obtain es1 where 1: "read_exact (length ?h) es = (Inr ?h, es1)" "plain_source es1" "source_data es1 = b"
      by (rule read_exact_enough [OF assms(1) b(1)]) blast
    have "length (source_data es1) < length p" using 1(3) b(2) q(2) by simp
    then obtain es2 where "read_exact (length p) es1 = (Inl unexpected_eof, es2)"
      by (rule read_exact_short [OF 1(2)])
    then show thesis
      using that 1 assms(2)
      by (simp add: read_message_def andthen_def action_err_apply fits_frame_def message_length Let_def)
  qed
qed

section \<open>Properties\<close>

text \<open>
  C13: messages sent over a byte sink come out of any plain source that delivers what the sink holds:
  the reader returns the message and leaves exactly the bytes after its frame.
\<close>

theorem message_round_trip:
  assumes "byte_sink ops content live" "live h s" "content h s = []" "json_round_trips J"
    and "write_message J ops h m s = (Inr u, s')"
    and "plain_source es" "source_data es = content h s' @ rest"
  shows "\<exists>es'. read_message J es = (Inr m, es') \<and> plain_source es' \<and> source_data es' = rest"
proof -
  obtain p where p: "json_to_vec J m = Inr p" "fits_frame p" and c: "content h s' = message_frame p"
    using byte_sink.write_message_Inr [OF assms(1,2,5)] assms(3) by (metis append_Nil)
  obtain es' where "read_message J es =
      (map_err (\<lambda>e. Protocol (''invalid JSON message: '' @ e)) (json_from_slice J p), es')"
    "plain_source es'" "source_data es' = rest"
    by (rule read_message_frame [OF assms(6) _ p(2)]) (use assms(7) c in auto)
  then show ?thesis using assms(4) p(1) by (auto simp: json_round_trips_def)
qed

definition demo_json :: "daemon_request json_codec" where
  "demo_json =
     \<lparr>json_to_vec = (\<lambda>m. case m of StatusRequest v \<Rightarrow> Inr (u32_to_be (ucast v))),
      json_from_slice = (\<lambda>p. if length p = 4 then Inr (StatusRequest (of_nat (be_val p))) else Inl ''syntax'')\<rparr>"

lemma unat_ucast_u16: "unat (ucast (v :: u16) :: u32) = unat v"
proof -
  have "unat v < 65536" using unsigned_less [where ?'a = nat and w = v] by simp
  then show ?thesis by (simp add: unsigned_ucast_eq take_bit_nat_eq_self_iff)
qed

lemma demo_json_round_trips: "json_round_trips demo_json"
  by (auto simp: json_round_trips_def demo_json_def unat_ucast_u16 split: daemon_request.splits)

lemma demo_message_sent: "write_message demo_json vec_ops () (StatusRequest v) [] = (Inr (), message_frame (u32_to_be (ucast v)))"
proof -
  have "json_to_vec demo_json (StatusRequest v) = Inr (u32_to_be (ucast v))" by (simp add: demo_json_def)
  moreover have "u32_to_be (ucast v) \<noteq> []" using length_u32_to_be [of "ucast v"] by (metis list.size(3) zero_neq_numeral)
  ultimately show ?thesis
    by (simp add: write_message_def vec_ops_def andthen_def action_err_apply layout_simps message_frame_def)
qed

theorem message_round_trip_witness:
  "\<exists>v es'. write_message demo_json vec_ops () (StatusRequest 1) [] = (Inr (), v) \<and>
     read_message demo_json (bytes_source (v @ [9])) = (Inr (StatusRequest 1), es') \<and> source_data es' = [9]"
proof -
  define v where "v = message_frame (u32_to_be (ucast (1 :: u16)))"
  have w: "write_message demo_json vec_ops () (StatusRequest 1) [] = (Inr (), v)"
    unfolding v_def by (rule demo_message_sent)
  have "\<exists>es'. read_message demo_json (bytes_source (v @ [9])) = (Inr (StatusRequest 1), es') \<and>
      plain_source es' \<and> source_data es' = [9]"
    by (rule message_round_trip [OF vec.byte_sink_axioms _ _ demo_json_round_trips w plain_bytes_source]) simp_all
  then show ?thesis using w by blast
qed

text \<open>
  C14: a message that was read is one frame of one to 16384 bytes taken off the input and no more, and
  its payload is what the decoder accepted.
\<close>

theorem read_message_bounded:
  assumes "read_message J es = (Inr m, es')"
  shows "\<exists>p. 1 \<le> length p \<and> length p \<le> 16384 \<and> json_from_slice J p = Inr m \<and>
    source_data es = u32_to_be (of_nat (length p)) @ p @ source_data es'"
  using read_message_Inr [OF assms]
  by (auto simp: fits_frame_def message_frame_def layout_simps Suc_le_eq)

theorem read_message_bounded_witness:
  "\<exists>p. 1 \<le> length p \<and> length p \<le> 16384 \<and> json_from_slice demo_json p = Inr (StatusRequest 0)"
proof -
  have "source_data (bytes_source ([0, 0, 0, 4] @ [0, 0, 0, 0])) = message_frame (replicate 4 0) @ []"
    using u32_from_to_be by (simp add: message_frame_def four_to_be eval_nat_numeral)
  from read_message_frame [OF plain_bytes_source this, of demo_json] obtain es' where
    "read_message demo_json (bytes_source ([0, 0, 0, 4] @ [0, 0, 0, 0])) = (Inr (StatusRequest 0), es')"
    by (auto simp: fits_frame_def layout_simps demo_json_def)
  from read_message_bounded [OF this] show ?thesis by blast
qed

text \<open>
  A length outside the bounds is refused with the payload unread, and an input that ends inside
  the header or the payload is refused with a truncation message, before any decoding.
\<close>

theorem read_message_refuses:
  assumes "plain_source es"
    and "(\<exists>rest. source_data es = u32_to_be n @ rest \<and> (unat n = 0 \<or> unat n > 16384)) \<or>
         (\<exists>p. fits_frame p \<and> strict_prefix (source_data es) (message_frame p))"
  shows "\<exists>msg es'. read_message J es = (Inl (Protocol msg), es') \<and>
    (msg = ''invalid message length '' @ show_nat (unat n) @ ''; maximum is '' @ show_nat 16384 \<or>
     msg = ''message header is truncated: '' @ io_message unexpected_eof \<or>
     msg = ''message payload is truncated: '' @ io_message unexpected_eof)"
  using assms(2)
proof (elim disjE exE conjE)
  fix rest assume "source_data es = u32_to_be n @ rest" "unat n = 0"
  then show ?thesis
    using read_message_bad_length [OF assms(1), of n rest J]
    by (metis (no_types) invalid_length_def max_frame_bytes_eq)
next
  fix rest assume "source_data es = u32_to_be n @ rest" "unat n > 16384"
  then show ?thesis
    using read_message_bad_length [OF assms(1), of n rest J]
    by (metis (no_types) invalid_length_def max_frame_bytes_eq)
next
  fix p assume "fits_frame p" "strict_prefix (source_data es) (message_frame p)"
  then obtain c es' where "read_message J es = (Inl (protocol_io c unexpected_eof), es')"
    "c = ''message header is truncated'' \<or> c = ''message payload is truncated''"
    by (rule read_message_truncated [OF assms(1)])
  then show ?thesis by (auto simp: protocol_io_def)
qed

theorem read_message_refuses_witness:
  "\<exists>msg es'. read_message demo_json (bytes_source (u32_to_be 16385)) = (Inl (Protocol msg), es')"
  using read_message_refuses [OF plain_bytes_source [of "u32_to_be 16385"], of 16385 demo_json] by auto

end
