(* ===== verification/Host_Path.thy ===== *)
theory Host_Path
  imports Vault_Prelude
begin

text \<open>
  \<open>std::path\<close> on Unix as far as the program uses it: a path is the sequence of its components, as
  \<open>Path::components\<close> gives them.  \<open>locate\<close> gives the names from the root that a path stands for; it
  resolves \<open>..\<close> by the names alone, which is what the host does when no ancestor is a symbolic link.
\<close>

datatype path_component = RootDir | CurDir | ParentDir | Normal string

type_synonym path = "path_component list"
type_synonym names = "string list"

section \<open>Parsing and printing\<close>

fun split_on :: "char \<Rightarrow> string \<Rightarrow> string list" where
  "split_on c [] = [[]]"
| "split_on c (x # xs) =
     (if x = c then [] # split_on c xs
      else (case split_on c xs of [] \<Rightarrow> [[x]] | y # ys \<Rightarrow> (x # y) # ys))"

definition component_of :: "string \<Rightarrow> path_component" where
  "component_of s = (if s = ''.'' then CurDir else if s = ''..'' then ParentDir else Normal s)"

definition parse_path :: "string \<Rightarrow> path" where
  "parse_path s =
     (let parts = map component_of (filter (\<lambda>p. p \<noteq> []) (split_on (CHR ''/'') s)) in
      if s \<noteq> [] \<and> hd s = CHR ''/'' then RootDir # filter (\<lambda>c. c \<noteq> CurDir) parts
      else (case parts of [] \<Rightarrow> [] | c # cs \<Rightarrow> c # filter (\<lambda>c. c \<noteq> CurDir) cs))"

fun component_string :: "path_component \<Rightarrow> string" where
  "component_string RootDir = []"
| "component_string CurDir = ''.''"
| "component_string ParentDir = ''..''"
| "component_string (Normal s) = s"

fun join_strings :: "string list \<Rightarrow> string" where
  "join_strings [] = []"
| "join_strings [s] = s"
| "join_strings (s # t # ss) = s @ ''/'' @ join_strings (t # ss)"

definition path_display :: "path \<Rightarrow> string" where
  "path_display p =
     (if p = [RootDir] then ''/'' else join_strings (map component_string p))"

section \<open>Operations\<close>

definition is_absolute :: "path \<Rightarrow> bool" where
  "is_absolute p \<longleftrightarrow> p \<noteq> [] \<and> hd p = RootDir"

definition join_path :: "path \<Rightarrow> path \<Rightarrow> path" where
  "join_path p q =
     (if is_absolute q then q else if p = [] then q else p @ filter (\<lambda>c. c \<noteq> CurDir) q)"

definition path_join :: "path \<Rightarrow> string \<Rightarrow> path" where
  "path_join p s = join_path p (parse_path s)"

definition path_parent :: "path \<Rightarrow> path option" where
  "path_parent p = (if p = [] \<or> last p = RootDir then None else Some (butlast p))"

definition file_stem :: "string \<Rightarrow> string" where
  "file_stem name =
     (let rest = dropWhile (\<lambda>c. c \<noteq> CHR ''.'') (rev name) in
      if rest = [] \<or> tl rest = [] then name else rev (tl rest))"

definition with_extension :: "path \<Rightarrow> string \<Rightarrow> path" where
  "with_extension p ext =
     (if p = [] then p
      else (case last p of
              Normal name \<Rightarrow>
                butlast p @ [Normal (file_stem name @ (if ext = [] then [] else ''.'' @ ext))]
            | _ \<Rightarrow> p))"

fun locate :: "names \<Rightarrow> path \<Rightarrow> names" where
  "locate cur [] = cur"
| "locate cur (RootDir # cs) = locate [] cs"
| "locate cur (CurDir # cs) = locate cur cs"
| "locate cur (ParentDir # cs) = locate (butlast cur) cs"
| "locate cur (Normal s # cs) = locate (cur @ [s]) cs"

definition canonical_path :: "names \<Rightarrow> path" where
  "canonical_path q = RootDir # map Normal q"

section \<open>Simple names\<close>

text \<open>A name that is a single normal component; joining it adds exactly one level.\<close>

definition simple_name :: "string \<Rightarrow> bool" where
  "simple_name s \<longleftrightarrow> s \<noteq> [] \<and> CHR ''/'' \<notin> set s \<and> s \<noteq> ''.'' \<and> s \<noteq> ''..''"

lemma split_on_absent: "c \<notin> set s \<Longrightarrow> split_on c s = [s]"
  by (induction s) auto

lemma parse_simple: "simple_name s \<Longrightarrow> parse_path s = [Normal s]"
  by (cases s) (auto simp: parse_path_def simple_name_def split_on_absent component_of_def)

lemma join_simple: "simple_name s \<Longrightarrow> path_join p s = p @ [Normal s]"
  by (simp add: path_join_def join_path_def parse_simple is_absolute_def)

lemma locate_append: "locate cur (p @ q) = locate (locate cur p) q"
  by (induction cur p rule: locate.induct) auto

lemma locate_join: "simple_name s \<Longrightarrow> locate cur (path_join p s) = locate cur p @ [s]"
  by (simp add: join_simple locate_append)

lemma locate_canonical [simp]: "locate cur (canonical_path q) = q"
proof -
  have "locate pre (map Normal q) = pre @ q" for pre
    by (induction q arbitrary: pre) auto
  then show ?thesis by (simp add: canonical_path_def)
qed

lemma path_parent_join: "simple_name s \<Longrightarrow> path_parent (path_join p s) = Some p"
  by (simp add: join_simple path_parent_def)

lemma is_absolute_join: "simple_name s \<Longrightarrow> is_absolute p \<Longrightarrow> is_absolute (path_join p s)"
  by (auto simp: join_simple is_absolute_def)

lemma with_extension_join:
  "simple_name s \<Longrightarrow> ext \<noteq> [] \<Longrightarrow>
     with_extension (path_join p s) ext = p @ [Normal (file_stem s @ ''.'' @ ext)]"
  by (simp add: join_simple with_extension_def)

lemma file_stem_no_slash: "CHR ''/'' \<notin> set s \<Longrightarrow> CHR ''/'' \<notin> set (file_stem s)"
  by (auto simp: file_stem_def Let_def) (metis list.sel(2) list.set_sel(2) set_dropWhileD set_rev)

end
