(* ===== verification/Result_Triples.thy ===== *)
theory Result_Triples
  imports Vault_Prelude
begin

text \<open>
  A program logic for fallible stateful computations: \<open>triple P m Q E\<close> says that from a state with \<open>P\<close>
  the computation \<open>m\<close> either returns a value and a state with \<open>Q\<close> or fails with an error and a state
  with \<open>E\<close>.  The rules follow the constructs of \<open>Vault_Prelude\<close>; the operations on the host are given
  triples once, and the properties of the operations built from them are derived by the rules.
\<close>

definition triple ::
  "('s \<Rightarrow> bool) \<Rightarrow> ('s, 'e, 'a) action \<Rightarrow> ('a \<Rightarrow> 's \<Rightarrow> bool) \<Rightarrow> ('e \<Rightarrow> 's \<Rightarrow> bool) \<Rightarrow> bool" where
  "triple P m Q E \<longleftrightarrow>
     (\<forall>s r s'. P s \<longrightarrow> m s = (r, s') \<longrightarrow> (case r of Inl e \<Rightarrow> E e s' | Inr x \<Rightarrow> Q x s'))"

named_theorems triple_rules \<open>rules that follow the structure of a computation\<close>

lemma tripleI:
  assumes "\<And>s x s'. P s \<Longrightarrow> m s = (Inr x, s') \<Longrightarrow> Q x s'"
    and "\<And>s e s'. P s \<Longrightarrow> m s = (Inl e, s') \<Longrightarrow> E e s'"
  shows "triple P m Q E"
  using assms unfolding triple_def by (auto split: sum.split)

lemma triple_Inr: "triple P m Q E \<Longrightarrow> P s \<Longrightarrow> m s = (Inr x, s') \<Longrightarrow> Q x s'"
  unfolding triple_def by fastforce

lemma triple_Inl: "triple P m Q E \<Longrightarrow> P s \<Longrightarrow> m s = (Inl e, s') \<Longrightarrow> E e s'"
  unfolding triple_def by fastforce

lemma triple_weaken:
  assumes "triple P' m Q' E'" "\<And>s. P s \<Longrightarrow> P' s" "\<And>x s. Q' x s \<Longrightarrow> Q x s" "\<And>e s. E' e s \<Longrightarrow> E e s"
  shows "triple P m Q E"
  by (rule tripleI) (use assms triple_Inr triple_Inl in metis)+

lemma triple_pre: "triple P' m Q E \<Longrightarrow> (\<And>s. P s \<Longrightarrow> P' s) \<Longrightarrow> triple P m Q E"
  by (erule triple_weaken) auto

lemma triple_post: "triple P m Q' E \<Longrightarrow> (\<And>x s. Q' x s \<Longrightarrow> Q x s) \<Longrightarrow> triple P m Q E"
  by (erule triple_weaken) auto

lemma triple_conj:
  "triple P m Q E \<Longrightarrow> triple P' m Q' E' \<Longrightarrow>
     triple (\<lambda>s. P s \<and> P' s) m (\<lambda>x s. Q x s \<and> Q' x s) (\<lambda>e s. E e s \<and> E' e s)"
  by (rule tripleI) (auto dest: triple_Inr triple_Inl)

lemma triple_ok [triple_rules]: "(\<And>s. P s \<Longrightarrow> Q x s) \<Longrightarrow> triple P (ok x) Q E"
  by (rule tripleI) auto

lemma triple_err [triple_rules]: "(\<And>s. P s \<Longrightarrow> E e s) \<Longrightarrow> triple P (err e) Q E"
  by (rule tripleI) auto

lemma triple_lift_result [triple_rules]:
  "(\<And>x s. r = Inr x \<Longrightarrow> P s \<Longrightarrow> Q x s) \<Longrightarrow> (\<And>e s. r = Inl e \<Longrightarrow> P s \<Longrightarrow> E e s) \<Longrightarrow>
     triple P (lift_result r) Q E"
  by (rule tripleI) auto

lemma triple_andthen [triple_rules]:
  assumes "triple P m R E" "\<And>x. triple (R x) (f x) Q E"
  shows "triple P (andthen m f) Q E"
proof (rule tripleI)
  fix s y s' assume "P s" "andthen m f s = (Inr y, s')"
  then show "Q y s'" using assms unfolding andthen_Inr_iff by (metis triple_Inr)
next
  fix s e s' assume "P s" "andthen m f s = (Inl e, s')"
  then show "E e s'" using assms unfolding andthen_Inl_iff by (metis triple_Inr triple_Inl)
qed

lemma triple_action_err [triple_rules]:
  "triple P m Q (\<lambda>e. E (g e)) \<Longrightarrow> triple P (action_err g m) Q E"
  by (rule tripleI) (auto simp: action_err_Inl dest: triple_Inr triple_Inl)

lemma triple_if [triple_rules]:
  "(b \<Longrightarrow> triple P m Q E) \<Longrightarrow> (\<not> b \<Longrightarrow> triple P n Q E) \<Longrightarrow> triple P (if b then m else n) Q E"
  by simp

lemma triple_option [triple_rules]:
  "(x = None \<Longrightarrow> triple P m Q E) \<Longrightarrow> (\<And>y. x = Some y \<Longrightarrow> triple P (n y) Q E) \<Longrightarrow>
     triple P (case x of None \<Rightarrow> m | Some y \<Rightarrow> n y) Q E"
  by (cases x) auto

lemma triple_sum [triple_rules]:
  "(\<And>e. x = Inl e \<Longrightarrow> triple P (m e) Q E) \<Longrightarrow> (\<And>y. x = Inr y \<Longrightarrow> triple P (n y) Q E) \<Longrightarrow>
     triple P (case x of Inl e \<Rightarrow> m e | Inr y \<Rightarrow> n y) Q E"
  by (cases x) auto

lemma triple_let [triple_rules]: "triple P (f x) Q E \<Longrightarrow> triple P (let y = x in f y) Q E"
  by simp

text \<open>For invariants, that hold however the computation ends.\<close>

lemma triple_fun':
  assumes "\<And>s r s'. P s \<Longrightarrow> m s = (r, s') \<Longrightarrow> Q s'"
  shows "triple P m (\<lambda>_. Q) (\<lambda>_. Q)"
  by (rule tripleI) (use assms in blast)+

lemma triple_result: "triple P m (\<lambda>_. Q) (\<lambda>_. Q) \<Longrightarrow> P s \<Longrightarrow> m s = (r, s') \<Longrightarrow> Q s'"
  by (cases r) (auto dest: triple_Inr triple_Inl)

lemma triple_conj_imp: "(b \<Longrightarrow> triple P m Q E) \<Longrightarrow> triple (\<lambda>s. b \<and> P s) m Q E"
  by (auto simp: triple_def)

section \<open>Handling failures\<close>

text \<open>
  \<open>try_else m h\<close>: the result of \<open>m\<close>, after running the handler \<open>h\<close> for its effect when \<open>m\<close> failed,
  as in \<open>if result.is_err() { let _ = cleanup(); }\<close>.  \<open>attempt\<close> turns a failure into a value.
\<close>

definition attempt :: "('s, 'e, 'a) action \<Rightarrow> ('s, 'f, 'e + 'a) action" where
  "attempt m = (\<lambda>s. case m s of (r, s') \<Rightarrow> (Inr r, s'))"

definition ignore_result :: "('s, 'e, 'a) action \<Rightarrow> ('s, 'f, unit) action" where
  "ignore_result m = andthen (attempt m) (\<lambda>_. ok ())"

definition on_failure :: "('s, 'e, 'a) action \<Rightarrow> ('s, 'f, 'b) action \<Rightarrow> ('s, 'e, 'a) action" where
  "on_failure m h =
     andthen (attempt m)
       (\<lambda>r. case r of Inl e \<Rightarrow> andthen (ignore_result h) (\<lambda>_. err e) | Inr x \<Rightarrow> ok x)"

lemma attempt_apply: "attempt m s = (Inr (fst (m s)), snd (m s))"
  by (simp add: attempt_def split: prod.split)

lemma attempt_iff: "attempt m s = (x, s') \<longleftrightarrow> (\<exists>r. x = Inr r \<and> m s = (r, s'))"
  by (cases "m s") (auto simp: attempt_def)

lemma triple_attempt [triple_rules]:
  "triple P m (\<lambda>x. Q (Inr x)) (\<lambda>e. Q (Inl e)) \<Longrightarrow> triple P (attempt m) Q E"
proof (rule tripleI)
  fix s x s' assume "P s" "attempt m s = (Inr x, s')" and t: "triple P m (\<lambda>x. Q (Inr x)) (\<lambda>e. Q (Inl e))"
  then have "m s = (x, s')" by (simp add: attempt_iff)
  then show "Q x s'" using triple_Inr [OF t \<open>P s\<close>] triple_Inl [OF t \<open>P s\<close>] by (cases x) auto
qed (simp add: attempt_iff)

lemma triple_ignore [triple_rules]:
  "triple P m (\<lambda>_. Q ()) (\<lambda>_. Q ()) \<Longrightarrow> triple P (ignore_result m) Q E"
  unfolding ignore_result_def
  by (rule triple_andthen [where R = "\<lambda>_. Q ()"]) (auto intro!: triple_rules)

lemma triple_on_failure [triple_rules]:
  assumes "triple P m Q R" "\<And>e. triple (R e) h (\<lambda>_. E e) (\<lambda>_. E e)"
  shows "triple P (on_failure m h) Q E"
  unfolding on_failure_def
  by (rule triple_andthen [where R = "\<lambda>r s. case r of Inl e \<Rightarrow> R e s | Inr x \<Rightarrow> Q x s"])
     (auto intro!: triple_rules assms)

lemma on_failure_Inr: "on_failure m h s = (Inr x, s') \<longleftrightarrow> m s = (Inr x, s')"
  by (cases "m s"; cases "fst (m s)")
     (auto simp: on_failure_def andthen_def attempt_def ignore_result_def split: prod.splits)

lemma on_failure_Inl:
  "on_failure m h s = (Inl e, s') \<longleftrightarrow> (\<exists>s1. m s = (Inl e, s1) \<and> s' = snd (h s1))"
  by (cases "m s"; cases "fst (m s)")
     (auto simp: on_failure_def andthen_def attempt_def ignore_result_def split: prod.splits)

text \<open>
  \<open>ensuring m h\<close>: the result of \<open>m\<close>, after running \<open>h\<close> for its effect however \<open>m\<close> ended, as a value
  that is dropped at the end of its scope.
\<close>

definition ensuring :: "('s, 'e, 'a) action \<Rightarrow> ('s, 'e, 'b) action \<Rightarrow> ('s, 'e, 'a) action" where
  "ensuring m h = andthen (attempt m) (\<lambda>r. andthen (ignore_result h) (\<lambda>_. lift_result r))"

lemma ensuring_iff: "ensuring m h s = (r, s') \<longleftrightarrow> (\<exists>s1. m s = (r, s1) \<and> s' = snd (h s1))"
  by (cases "m s") (auto simp: ensuring_def andthen_def attempt_def ignore_result_def split: prod.splits)

lemma triple_ensuring [triple_rules]:
  assumes "triple P m Q R" "\<And>x. triple (Q x) h (\<lambda>_. Q' x) (\<lambda>_. Q' x)" "\<And>e. triple (R e) h (\<lambda>_. E e) (\<lambda>_. E e)"
  shows "triple P (ensuring m h) Q' E"
proof (rule tripleI)
  fix s x s' assume "P s" "ensuring m h s = (Inr x, s')"
  then obtain s1 where "Q x s1" "h s1 = (fst (h s1), s')"
    using triple_Inr [OF assms(1)] unfolding ensuring_iff by (metis prod.collapse)
  then show "Q' x s'" using triple_result [OF assms(2)] by blast
next
  fix s e s' assume "P s" "ensuring m h s = (Inl e, s')"
  then obtain s1 where "R e s1" "h s1 = (fst (h s1), s')"
    using triple_Inl [OF assms(1)] unfolding ensuring_iff by (metis prod.collapse)
  then show "E e s'" using triple_result [OF assms(3)] by blast
qed

lemma handler_code [code]:
  "attempt m s = (case m s of (r, s') \<Rightarrow> (Inr r, s'))"
  "ignore_result m s = (Inr (), snd (m s))"
  "on_failure m h s = (case m s of (Inl e, s') \<Rightarrow> (Inl e, snd (h s')) | (Inr x, s') \<Rightarrow> (Inr x, s'))"
  "ensuring m h s = (case m s of (r, s') \<Rightarrow> (r, snd (h s')))"
  by (auto simp: attempt_def ignore_result_def on_failure_def ensuring_def andthen_def split: prod.split sum.split)

section \<open>Invariants\<close>

text \<open>
  \<open>keeps P m\<close>: however \<open>m\<close> ends, \<open>P\<close> still holds.  The rules are syntax-directed, so that the
  invariance of an operation follows from that of the calls in it.
\<close>

definition keeps :: "('s \<Rightarrow> bool) \<Rightarrow> ('s, 'e, 'a) action \<Rightarrow> bool" where
  "keeps P m \<longleftrightarrow> triple P m (\<lambda>_. P) (\<lambda>_. P)"

named_theorems keeps_rules \<open>rules for invariance\<close>

lemma keepsI: "triple P m (\<lambda>_. P) (\<lambda>_. P) \<Longrightarrow> keeps P m"
  by (simp add: keeps_def)

lemma keeps_triple: "keeps P m \<Longrightarrow> triple P m (\<lambda>_. P) (\<lambda>_. P)"
  by (simp add: keeps_def)

lemma keepsD: "keeps P m \<Longrightarrow> P s \<Longrightarrow> m s = (r, s') \<Longrightarrow> P s'"
  unfolding keeps_def by (rule triple_result)

lemma keeps_fun: "(\<And>s r s'. P s \<Longrightarrow> m s = (r, s') \<Longrightarrow> P s') \<Longrightarrow> keeps P m"
  unfolding keeps_def by (rule triple_fun')

lemma keeps_weaken: "triple P m (\<lambda>x s. P s \<and> C x s) (\<lambda>_. P) \<Longrightarrow> keeps P m"
  unfolding keeps_def by (erule triple_weaken) auto

lemma keeps_basic [keeps_rules]: "keeps P (ok x)" "keeps P (err e)" "keeps P (lift_result r)"
  by (auto simp: keeps_def intro!: triple_rules)

lemma keeps_andthen [keeps_rules]: "keeps P m \<Longrightarrow> (\<And>x. keeps P (f x)) \<Longrightarrow> keeps P (andthen m f)"
  unfolding keeps_def by (rule triple_andthen)

lemma keeps_wrap [keeps_rules]:
  "keeps P m \<Longrightarrow> keeps P (action_err f m)" "keeps P m \<Longrightarrow> keeps P (attempt m)"
  "keeps P m \<Longrightarrow> keeps P (ignore_result m)"
  unfolding keeps_def by (auto intro: triple_action_err triple_attempt triple_ignore)

lemma keeps_on_failure [keeps_rules]: "keeps P m \<Longrightarrow> keeps P h \<Longrightarrow> keeps P (on_failure m h)"
  unfolding keeps_def by (erule triple_on_failure)

lemma keeps_ensuring [keeps_rules]: "keeps P m \<Longrightarrow> keeps P h \<Longrightarrow> keeps P (ensuring m h)"
  unfolding keeps_def by (erule triple_ensuring)

lemma keeps_conj: "keeps P m \<Longrightarrow> keeps Q m \<Longrightarrow> keeps (\<lambda>s. P s \<and> Q s) m"
  unfolding keeps_def triple_def by (auto split: sum.splits)

lemma keeps_if [keeps_rules]:
  "(b \<Longrightarrow> keeps P m) \<Longrightarrow> (\<not> b \<Longrightarrow> keeps P n) \<Longrightarrow> keeps P (if b then m else n)"
  by simp

lemma keeps_option [keeps_rules]:
  "(x = None \<Longrightarrow> keeps P m) \<Longrightarrow> (\<And>y. x = Some y \<Longrightarrow> keeps P (n y)) \<Longrightarrow>
     keeps P (case x of None \<Rightarrow> m | Some y \<Rightarrow> n y)"
  by (cases x) auto

lemma keeps_sum [keeps_rules]:
  "(\<And>e. x = Inl e \<Longrightarrow> keeps P (m e)) \<Longrightarrow> (\<And>y. x = Inr y \<Longrightarrow> keeps P (n y)) \<Longrightarrow>
     keeps P (case x of Inl e \<Rightarrow> m e | Inr y \<Rightarrow> n y)"
  by (cases x) auto

lemma keeps_let [keeps_rules]: "keeps P (f x) \<Longrightarrow> keeps P (let y = x in f y)"
  by simp

lemma keeps_state: "(\<And>x. keeps P (f x)) \<Longrightarrow> keeps P (\<lambda>s. f (g s) s)"
  unfolding keeps_def triple_def by blast

text \<open>
  A value that lives in a scope of its own: \<open>m\<close> gives the value and \<open>J\<close> for it, the body keeps \<open>J\<close>, and
  the end of the scope leads back to \<open>P\<close>.
\<close>

lemma keeps_scope:
  assumes "triple P m (\<lambda>x. J x) (\<lambda>_. P)" "\<And>x. keeps (J x) (f x)" "\<And>x. triple (J x) (h x) (\<lambda>_. P) (\<lambda>_. P)"
  shows "keeps P (andthen m (\<lambda>x. ensuring (f x) (h x)))"
  unfolding keeps_def
  by (rule triple_andthen [OF assms(1)], rule triple_ensuring [OF keeps_triple [OF assms(2)]]) (rule assms(3))+

lemma keeps_scope_then:
  assumes "triple P m (\<lambda>x. J x) (\<lambda>_. P)" "\<And>x. keeps (J x) (f x)" "\<And>x. triple (J x) (h x) (\<lambda>_. P) (\<lambda>_. P)"
    and "\<And>y. keeps P (g y)"
  shows "keeps P (andthen m (\<lambda>x. andthen (ensuring (f x) (h x)) g))"
  unfolding andthen_assoc [symmetric] by (rule keeps_andthen [OF keeps_scope [OF assms(1-3)] assms(4)])

text \<open>The same when the continuation depends on what is known of the value.\<close>

lemma keeps_andthen_known:
  assumes "triple P m (\<lambda>x s. P s \<and> C x) (\<lambda>_. P)" "\<And>x. C x \<Longrightarrow> keeps P (f x)"
  shows "keeps P (andthen m f)"
  unfolding keeps_def
proof (rule triple_andthen [OF assms(1)])
  fix x show "triple (\<lambda>s. P s \<and> C x) (f x) (\<lambda>_. P) (\<lambda>_. P)"
    using assms(2) [of x] unfolding keeps_def triple_def by blast
qed

section \<open>Errors\<close>

text \<open>\<open>errors E m\<close>: a failure of \<open>m\<close> is an error of the kind \<open>E\<close>.\<close>

definition errors :: "('e \<Rightarrow> bool) \<Rightarrow> ('s, 'e, 'a) action \<Rightarrow> bool" where
  "errors E m \<longleftrightarrow> (\<forall>s e s'. m s = (Inl e, s') \<longrightarrow> E e)"

named_theorems errors_rules \<open>rules for the kinds of errors\<close>

lemma errorsD: "errors E m \<Longrightarrow> m s = (Inl e, s') \<Longrightarrow> E e"
  unfolding errors_def by blast

lemma errors_basic [errors_rules]:
  "errors E (ok x)" "E e \<Longrightarrow> errors E (err e)" "(\<And>e. r = Inl e \<Longrightarrow> E e) \<Longrightarrow> errors E (lift_result r)"
  by (auto simp: errors_def)

lemma errors_andthen [errors_rules]: "errors E m \<Longrightarrow> (\<And>x. errors E (f x)) \<Longrightarrow> errors E (andthen m f)"
  unfolding errors_def andthen_Inl_iff by blast

lemma errors_wrap [errors_rules]:
  "(\<And>e. E (g e)) \<Longrightarrow> errors E (action_err g m)" "errors E (attempt m)" "errors E (ignore_result m)"
  by (auto simp: errors_def action_err_Inl attempt_iff ignore_result_def andthen_Inl_iff)

lemma errors_handlers [errors_rules]:
  "errors E m \<Longrightarrow> errors E (on_failure m h)" "errors E m \<Longrightarrow> errors E (ensuring m h)"
  by (auto simp: errors_def on_failure_Inl ensuring_iff)

lemma errors_cases [errors_rules]:
  "errors E m \<Longrightarrow> errors E n \<Longrightarrow> errors E (if b then m else n)"
  "(x = None \<Longrightarrow> errors E m) \<Longrightarrow> (\<And>y. x = Some y \<Longrightarrow> errors E (k y)) \<Longrightarrow>
     errors E (case x of None \<Rightarrow> m | Some y \<Rightarrow> k y)"
  "(\<And>e. z = Inl e \<Longrightarrow> errors E (l e)) \<Longrightarrow> (\<And>y. z = Inr y \<Longrightarrow> errors E (k y)) \<Longrightarrow>
     errors E (case z of Inl e \<Rightarrow> l e | Inr y \<Rightarrow> k y)"
  "errors E (j v) \<Longrightarrow> errors E (let y = v in j y)"
  by (auto split: option.split sum.split)

lemma errors_state: "(\<And>x. errors E (f x)) \<Longrightarrow> errors E (\<lambda>s. f (g s) s)"
  unfolding errors_def by blast

end
