(* ===== verification/Host_Os.thy ===== *)
theory Host_Os
  imports Rust_Io Host_Path Result_Triples
begin

text \<open>
  The host the program runs on, as far as \<open>std\<close> shows it: names and inodes, open files, the locks on
  them, the environment of the process.  Every system call takes a tick, and the world holds for
  every tick the fault, if any, that the host answers with; a theorem for every world is therefore a
  theorem for every way the host can fail.  Other processes act only between the operations modelled.
\<close>

unbundle bit_operations_syntax

section \<open>The world\<close>

datatype inode_kind = RegularFile bytes | Directory | Symlink path | SocketFile

record inode =
  in_kind :: inode_kind
  in_uid :: u32
  in_mode :: u32

text \<open>A fault is an error, and for a write the number of bytes that went out before it.\<close>

record fault =
  ft_error :: io_error
  ft_partial :: nat

record world =
  w_names :: "(names \<times> nat) list"
  w_inodes :: "nat \<Rightarrow> inode option"
  w_next :: nat
  w_fds :: "nat \<Rightarrow> (nat \<times> nat) option"
  w_locks :: "nat \<Rightarrow> nat option"
  w_listening :: "nat \<Rightarrow> bool"
  w_tick :: nat
  w_faults :: "nat \<Rightarrow> fault option"
  w_euid :: u32
  w_umask :: u32
  w_pid :: u32
  w_cwd :: names
  w_env :: "string \<Rightarrow> string option"
  w_clock :: "u64 option"
  w_stdout :: string

type_synonym 'a os = "(world, io_error, 'a) action"
type_synonym 'a vault_os = "(world, vault_error, 'a) action"

record file_handle =
  fh_fd :: nat
  fh_ino :: nat

datatype file_type = IsFile | IsDir | IsSymlink | IsSocket

record metadata =
  md_type :: file_type
  md_len :: nat
  md_uid :: u32
  md_mode :: u32
  md_ino :: nat

section \<open>Names\<close>

definition lookup :: "world \<Rightarrow> names \<Rightarrow> nat option" where
  "lookup w q = map_of (w_names w) q"

definition inode_at :: "world \<Rightarrow> names \<Rightarrow> inode option" where
  "inode_at w q = Option.bind (lookup w q) (w_inodes w)"

definition dir_at :: "world \<Rightarrow> names \<Rightarrow> bool" where
  "dir_at w q \<longleftrightarrow> q = [] \<or> (case inode_at w q of None \<Rightarrow> False | Some i \<Rightarrow> in_kind i = Directory)"

definition link_name :: "names \<Rightarrow> nat \<Rightarrow> world \<Rightarrow> world" where
  "link_name q i w = w\<lparr>w_names := (q, i) # filter (\<lambda>e. fst e \<noteq> q) (w_names w)\<rparr>"

definition unlink_name :: "names \<Rightarrow> world \<Rightarrow> world" where
  "unlink_name q w = w\<lparr>w_names := filter (\<lambda>e. fst e \<noteq> q) (w_names w)\<rparr>"

definition unlink_tree :: "names \<Rightarrow> world \<Rightarrow> world" where
  "unlink_tree q w = w\<lparr>w_names := filter (\<lambda>e. \<not> prefix q (fst e)) (w_names w)\<rparr>"

definition move_tree :: "names \<Rightarrow> names \<Rightarrow> world \<Rightarrow> world" where
  "move_tree a b w =
     w\<lparr>w_names := map (\<lambda>(q, i). (if prefix a q then b @ drop (length a) q else q, i))
                     (filter (\<lambda>e. \<not> prefix b (fst e)) (w_names w))\<rparr>"

definition set_inode :: "nat \<Rightarrow> inode \<Rightarrow> world \<Rightarrow> world" where
  "set_inode i n w = w\<lparr>w_inodes := (w_inodes w)(i := Some n)\<rparr>"

definition fresh_inode :: "inode_kind \<Rightarrow> u32 \<Rightarrow> names \<Rightarrow> world \<Rightarrow> world" where
  "fresh_inode k mode q w =
     (let i = w_next w in
      set_inode i \<lparr>in_kind = k, in_uid = w_euid w, in_mode = mode AND NOT (w_umask w)\<rparr>
        (link_name q i (w\<lparr>w_next := Suc i\<rparr>)))"

text \<open>Following symbolic links, at most forty of them.\<close>

fun follow :: "nat \<Rightarrow> world \<Rightarrow> names \<Rightarrow> names option" where
  "follow 0 w q = None"
| "follow (Suc n) w q =
     (case inode_at w q of
        Some i \<Rightarrow> (case in_kind i of Symlink t \<Rightarrow> follow n w (locate (butlast q) t) | _ \<Rightarrow> Some q)
      | None \<Rightarrow> Some q)"

definition max_links :: nat where "max_links = 40"

section \<open>System calls\<close>

definition sys :: "'a os \<Rightarrow> 'a os" where
  "sys f = (\<lambda>w.
     let w' = w\<lparr>w_tick := Suc (w_tick w)\<rparr> in
     case w_faults w (w_tick w) of
       Some ft \<Rightarrow> (Inl (ft_error ft), w')
     | None \<Rightarrow> f w')"

definition not_found :: io_error where
  "not_found = os_error NotFound ''No such file or directory (os error 2)''"

definition not_a_directory :: io_error where
  "not_a_directory = os_error OtherKind ''Not a directory (os error 20)''"

definition already_exists :: io_error where
  "already_exists = os_error AlreadyExists ''File exists (os error 17)''"

definition is_a_directory :: io_error where
  "is_a_directory = os_error OtherKind ''Is a directory (os error 21)''"

definition too_many_links :: io_error where
  "too_many_links = os_error OtherKind ''Too many levels of symbolic links (os error 40)''"

definition bad_descriptor :: io_error where
  "bad_descriptor = os_error OtherKind ''Bad file descriptor (os error 9)''"

definition no_such_device :: io_error where
  "no_such_device = os_error OtherKind ''No such device or address (os error 6)''"

definition not_permitted :: io_error where
  "not_permitted = os_error PermissionDenied ''Operation not permitted (os error 1)''"

text \<open>The error for a name that is not there: some ancestor is not a directory, or it is missing.\<close>

definition missing_error :: "world \<Rightarrow> names \<Rightarrow> io_error" where
  "missing_error w q =
     (if \<exists>k \<in> set [1..<length q]. inode_at w (take k q) \<noteq> None \<and> \<not> dir_at w (take k q)
      then not_a_directory else not_found)"

fun type_of_kind :: "inode_kind \<Rightarrow> file_type" where
  "type_of_kind (RegularFile b) = IsFile"
| "type_of_kind Directory = IsDir"
| "type_of_kind (Symlink t) = IsSymlink"
| "type_of_kind SocketFile = IsSocket"

fun kind_length :: "inode_kind \<Rightarrow> nat" where
  "kind_length (RegularFile b) = length b"
| "kind_length _ = 0"

definition metadata_of :: "nat \<Rightarrow> inode \<Rightarrow> metadata" where
  "metadata_of i n =
     \<lparr>md_type = type_of_kind (in_kind n), md_len = kind_length (in_kind n), md_uid = in_uid n,
      md_mode = in_mode n, md_ino = i\<rparr>"

text \<open>\<open>fs::symlink_metadata\<close>\<close>

definition symlink_metadata :: "path \<Rightarrow> metadata os" where
  "symlink_metadata p = sys (\<lambda>w.
     if p = [] then (Inl not_found, w)
     else let q = locate (w_cwd w) p in
       case lookup w q of
         None \<Rightarrow> (Inl (missing_error w q), w)
       | Some i \<Rightarrow>
           (case w_inodes w i of
              None \<Rightarrow> (Inl (missing_error w q), w)
            | Some n \<Rightarrow> (Inr (metadata_of i n), w)))"

text \<open>\<open>fs::canonicalize\<close>\<close>

definition canonicalize :: "path \<Rightarrow> path os" where
  "canonicalize p = sys (\<lambda>w.
     if p = [] then (Inl not_found, w)
     else (case follow max_links w (locate (w_cwd w) p) of
       None \<Rightarrow> (Inl too_many_links, w)
     | Some q \<Rightarrow>
         if q \<noteq> [] \<and> inode_at w q = None then (Inl (missing_error w q), w)
         else (Inr (canonical_path q), w)))"

text \<open>\<open>DirBuilder::new().recursive(true).mode(mode).create\<close>: every missing ancestor, top down.\<close>

definition mkdir :: "u32 \<Rightarrow> names \<Rightarrow> unit os" where
  "mkdir mode q = sys (\<lambda>w.
     if lookup w q \<noteq> None then (Inl already_exists, w)
     else if \<not> dir_at w (butlast q) then (Inl (missing_error w q), w)
     else (Inr (), fresh_inode Directory mode q w))"

definition ensure_dir :: "u32 \<Rightarrow> names \<Rightarrow> unit os" where
  "ensure_dir mode q = (\<lambda>w. if dir_at w q then (Inr (), w) else mkdir mode q w)"

fun make_dirs :: "u32 \<Rightarrow> names \<Rightarrow> names \<Rightarrow> unit os" where
  "make_dirs mode base [] = ok ()"
| "make_dirs mode base (n # ns) =
     andthen (ensure_dir mode (base @ [n])) (\<lambda>_. make_dirs mode (base @ [n]) ns)"

definition create_dir_recursive :: "u32 \<Rightarrow> path \<Rightarrow> unit os" where
  "create_dir_recursive mode p = (\<lambda>w.
     if p = [] then (Inr (), w) else make_dirs mode [] (locate (w_cwd w) p) w)"

text \<open>\<open>fs::rename\<close>, \<open>fs::remove_file\<close>, \<open>fs::remove_dir_all\<close>, \<open>fs::set_permissions\<close>, \<open>fs::read_dir\<close>\<close>

definition dir_empty :: "world \<Rightarrow> names \<Rightarrow> bool" where
  "dir_empty w q \<longleftrightarrow> list_all (\<lambda>e. \<not> strict_prefix q (fst e)) (w_names w)"

definition rename :: "path \<Rightarrow> path \<Rightarrow> unit os" where
  "rename p p' = sys (\<lambda>w.
     let a = locate (w_cwd w) p; b = locate (w_cwd w) p' in
     if inode_at w a = None then (Inl (missing_error w a), w)
     else if \<not> dir_at w (butlast b) then (Inl (missing_error w b), w)
     else if a = b then (Inr (), w)
     else if prefix a b \<or> prefix b a then (Inl (os_error InvalidInput ''Invalid argument (os error 22)''), w)
     else if inode_at w b \<noteq> None \<and> dir_at w a \<and> \<not> dir_at w b then (Inl not_a_directory, w)
     else if inode_at w b \<noteq> None \<and> \<not> dir_at w a \<and> dir_at w b then (Inl is_a_directory, w)
     else if \<not> dir_empty w b then (Inl (os_error OtherKind ''Directory not empty (os error 39)''), w)
     else (Inr (), move_tree a b w))"

definition remove_file :: "path \<Rightarrow> unit os" where
  "remove_file p = sys (\<lambda>w.
     let q = locate (w_cwd w) p in
     if inode_at w q = None then (Inl (missing_error w q), w)
     else if dir_at w q then (Inl is_a_directory, w)
     else (Inr (), unlink_name q w))"

definition remove_dir_all :: "path \<Rightarrow> unit os" where
  "remove_dir_all p = sys (\<lambda>w.
     let q = locate (w_cwd w) p in
     if inode_at w q = None then (Inl (missing_error w q), w)
     else if \<not> dir_at w q then (Inl not_a_directory, w)
     else (Inr (), unlink_tree q w))"

definition chmod_inode :: "nat \<Rightarrow> u32 \<Rightarrow> world \<Rightarrow> io_error + world" where
  "chmod_inode i mode w =
     (case w_inodes w i of
        None \<Rightarrow> Inl bad_descriptor
      | Some n \<Rightarrow>
          if in_uid n \<noteq> w_euid w \<and> w_euid w \<noteq> 0 then Inl not_permitted
          else Inr (set_inode i (n\<lparr>in_mode := mode\<rparr>) w))"

definition set_permissions :: "path \<Rightarrow> u32 \<Rightarrow> unit os" where
  "set_permissions p mode = sys (\<lambda>w.
     case follow max_links w (locate (w_cwd w) p) of
       None \<Rightarrow> (Inl too_many_links, w)
     | Some q \<Rightarrow>
         (case lookup w q of
            None \<Rightarrow> (Inl (missing_error w q), w)
          | Some i \<Rightarrow> (case chmod_inode i mode w of Inl e \<Rightarrow> (Inl e, w) | Inr w' \<Rightarrow> (Inr (), w'))))"

definition read_dir :: "path \<Rightarrow> string list os" where
  "read_dir p = sys (\<lambda>w.
     let q = locate (w_cwd w) p in
     if \<not> dir_at w q then (Inl (missing_error w q), w)
     else (Inr (map (\<lambda>e. last (fst e)) (filter (\<lambda>e. fst e \<noteq> [] \<and> butlast (fst e) = q) (w_names w))), w))"

definition is_dir :: "path \<Rightarrow> (world, 'e, bool) action" where
  "is_dir p = (\<lambda>w.
     case sys (\<lambda>w. (Inr (case follow max_links w (locate (w_cwd w) p) of
                          None \<Rightarrow> False | Some q \<Rightarrow> dir_at w q), w)) w of
       (Inl _, w') \<Rightarrow> (Inr False, w')
     | (Inr b, w') \<Rightarrow> (Inr b, w'))"

section \<open>Open files\<close>

definition open_fd :: "nat \<Rightarrow> world \<Rightarrow> file_handle \<times> world" where
  "open_fd i w =
     (\<lparr>fh_fd = w_next w, fh_ino = i\<rparr>,
      w\<lparr>w_fds := (w_fds w)(w_next w := Some (i, 0)), w_next := Suc (w_next w)\<rparr>)"

definition open_inode :: "world \<Rightarrow> nat \<Rightarrow> inode \<Rightarrow> (io_error + file_handle) \<times> world" where
  "open_inode w i n =
     (if in_kind n = SocketFile then (Inl no_such_device, w)
      else (case open_fd i w of (h, w') \<Rightarrow> (Inr h, w')))"

text \<open>\<open>OpenOptions::new().read(true)\<close>, with \<open>O_NOFOLLOW\<close> or without.\<close>

definition open_read :: "bool \<Rightarrow> path \<Rightarrow> file_handle os" where
  "open_read nofollow p = sys (\<lambda>w.
     let q0 = locate (w_cwd w) p in
     case (if nofollow then Some q0 else follow max_links w q0) of
       None \<Rightarrow> (Inl too_many_links, w)
     | Some q \<Rightarrow>
         (case lookup w q of
            None \<Rightarrow> (Inl (missing_error w q), w)
          | Some i \<Rightarrow>
              (case w_inodes w i of
                 None \<Rightarrow> (Inl (missing_error w q), w)
               | Some n \<Rightarrow>
                   if type_of_kind (in_kind n) = IsSymlink then (Inl too_many_links, w)
                   else open_inode w i n)))"

text \<open>\<open>write(true).create_new(true).mode(mode)\<close>\<close>

definition open_create_new :: "u32 \<Rightarrow> path \<Rightarrow> file_handle os" where
  "open_create_new mode p = sys (\<lambda>w.
     let q = locate (w_cwd w) p in
     if lookup w q \<noteq> None then (Inl already_exists, w)
     else if q = [] \<or> \<not> dir_at w (butlast q) then (Inl (missing_error w q), w)
     else (case open_fd (w_next w) (fresh_inode (RegularFile []) mode q w) of (h, w') \<Rightarrow> (Inr h, w')))"

text \<open>\<open>read(true).write(true).create(true).mode(mode)\<close> with \<open>O_NOFOLLOW\<close>\<close>

definition open_or_create :: "u32 \<Rightarrow> path \<Rightarrow> file_handle os" where
  "open_or_create mode p = sys (\<lambda>w.
     let q = locate (w_cwd w) p in
     case lookup w q of
       None \<Rightarrow>
         if q = [] \<or> \<not> dir_at w (butlast q) then (Inl (missing_error w q), w)
         else (case open_fd (w_next w) (fresh_inode (RegularFile []) mode q w) of (h, w') \<Rightarrow> (Inr h, w'))
     | Some i \<Rightarrow>
         (case w_inodes w i of
            None \<Rightarrow> (Inl (missing_error w q), w)
          | Some n \<Rightarrow>
              (case in_kind n of
                 Symlink t \<Rightarrow> (Inl too_many_links, w)
               | Directory \<Rightarrow> (Inl is_a_directory, w)
               | _ \<Rightarrow> open_inode w i n)))"

text \<open>Closing a file, as dropping a \<open>File\<close> does, gives up the locks taken through it.\<close>

definition release_locks :: "nat \<Rightarrow> (nat \<Rightarrow> nat option) \<Rightarrow> nat \<Rightarrow> nat option" where
  "release_locks fd locks i =
     (case locks i of None \<Rightarrow> None | Some holder \<Rightarrow> if holder = fd then None else Some holder)"

lemma release_locks_apply [simp]: "release_locks fd locks i = (if locks i = Some fd then None else locks i)"
  by (auto simp: release_locks_def split: option.split)

definition close_file :: "file_handle \<Rightarrow> world \<Rightarrow> world" where
  "close_file h w =
     w\<lparr>w_fds := (w_fds w)(fh_fd h := None),
       w_locks := release_locks (fh_fd h) (w_locks w)\<rparr>"

definition drop_file :: "file_handle \<Rightarrow> (world, 'e, unit) action" where
  "drop_file h = (\<lambda>w. (Inr (), close_file h w))"

section \<open>Contents\<close>

text \<open>The bytes of an inode that is a regular file, and replacing them.\<close>

definition file_bytes :: "world \<Rightarrow> nat \<Rightarrow> bytes option" where
  "file_bytes w i =
     (case w_inodes w i of
        None \<Rightarrow> None
      | Some n \<Rightarrow> (case in_kind n of RegularFile b \<Rightarrow> Some b | _ \<Rightarrow> None))"

definition put_bytes :: "nat \<Rightarrow> bytes \<Rightarrow> world \<Rightarrow> world" where
  "put_bytes i b w =
     (case w_inodes w i of
        None \<Rightarrow> w
      | Some n \<Rightarrow> set_inode i (n\<lparr>in_kind := RegularFile b\<rparr>) w)"

definition pad_to :: "nat \<Rightarrow> bytes \<Rightarrow> bytes" where
  "pad_to n b = b @ replicate (n - length b) 0"

definition write_at :: "file_handle \<Rightarrow> bytes \<Rightarrow> world \<Rightarrow> world option" where
  "write_at h b w =
     (case w_fds w (fh_fd h) of
        None \<Rightarrow> None
      | Some (i, pos) \<Rightarrow>
          (case file_bytes w i of
             None \<Rightarrow> None
           | Some c \<Rightarrow>
               Some ((put_bytes i (take pos (pad_to pos c) @ b @ drop (pos + length b) c) w)
                       \<lparr>w_fds := (w_fds w)(fh_fd h := Some (i, pos + length b))\<rparr>)))"

text \<open>
  \<open>write_all\<close>: a fault may come after a part of the bytes was written.  \<open>File::flush\<close> does nothing.
\<close>

definition file_write_all :: "file_handle \<Rightarrow> bytes \<Rightarrow> unit os" where
  "file_write_all h b = (\<lambda>w.
     if b = [] then (Inr (), w)
     else
       let w1 = w\<lparr>w_tick := Suc (w_tick w)\<rparr> in
       case w_faults w (w_tick w) of
         Some ft \<Rightarrow>
           (Inl (ft_error ft), case write_at h (take (ft_partial ft) b) w1 of None \<Rightarrow> w1 | Some w2 \<Rightarrow> w2)
       | None \<Rightarrow>
           (case write_at h b w1 of None \<Rightarrow> (Inl bad_descriptor, w1) | Some w2 \<Rightarrow> (Inr (), w2)))"

definition file_ops :: "(file_handle, world) write_ops" where
  "file_ops = \<lparr>op_write_all = file_write_all, op_flush = (\<lambda>h. ok ())\<rparr>"

definition file_sync_all :: "file_handle \<Rightarrow> unit os" where
  "file_sync_all h = sys (ok ())"

definition file_set_len :: "file_handle \<Rightarrow> nat \<Rightarrow> unit os" where
  "file_set_len h n = sys (\<lambda>w.
     case file_bytes w (fh_ino h) of
       None \<Rightarrow> (Inl bad_descriptor, w)
     | Some c \<Rightarrow> (Inr (), put_bytes (fh_ino h) (take n (pad_to n c)) w))"

definition file_seek_start :: "file_handle \<Rightarrow> nat \<Rightarrow> unit os" where
  "file_seek_start h n = sys (\<lambda>w.
     case w_fds w (fh_fd h) of
       None \<Rightarrow> (Inl bad_descriptor, w)
     | Some (i, pos) \<Rightarrow> (Inr (), w\<lparr>w_fds := (w_fds w)(fh_fd h := Some (i, n))\<rparr>))"

definition file_set_permissions :: "file_handle \<Rightarrow> u32 \<Rightarrow> unit os" where
  "file_set_permissions h mode = sys (\<lambda>w.
     case chmod_inode (fh_ino h) mode w of Inl e \<Rightarrow> (Inl e, w) | Inr w' \<Rightarrow> (Inr (), w'))"

text \<open>
  Reading a file from its start.  \<open>file_take\<close> is \<open>take(limit).read_to_end\<close>; \<open>file_source\<close> is the script
  of reads a reader over the file will see, where a fault at the tick comes after a part of the bytes.
\<close>

definition file_take :: "nat \<Rightarrow> file_handle \<Rightarrow> bytes os" where
  "file_take limit h = sys (\<lambda>w.
     case file_bytes w (fh_ino h) of
       None \<Rightarrow> (Inl is_a_directory, w)
     | Some c \<Rightarrow> (Inr (take limit c), w))"

definition file_source :: "file_handle \<Rightarrow> (world, 'e, source) action" where
  "file_source h = (\<lambda>w.
     let w' = w\<lparr>w_tick := Suc (w_tick w)\<rparr> in
     case (w_faults w (w_tick w), file_bytes w (fh_ino h)) of
       (None, Some c) \<Rightarrow> (Inr (bytes_source c), w')
     | (None, None) \<Rightarrow> (Inr [Fail is_a_directory], w')
     | (Some ft, Some c) \<Rightarrow> (Inr (bytes_source (take (ft_partial ft) c) @ [Fail (ft_error ft)]), w')
     | (Some ft, None) \<Rightarrow> (Inr [Fail (ft_error ft)], w'))"

end
