(* ===== verification/Host_Frame.thy ===== *)
theory Host_Frame
  imports Host_Os Vault_Writer
begin

text \<open>
  What the system calls change.  \<open>within S w0 w\<close> says that \<open>w\<close> came from \<open>w0\<close> by changing at most the
  names, the old inodes and the locks of the scope \<open>S\<close>; every call has a triple that keeps it, so that
  the frame of an operation follows from the scope of its parts.  An open file is a byte sink, and a
  reliable one while the host has no faults to come.
\<close>

section \<open>Well-formed worlds\<close>

text \<open>Numbers of inodes and descriptors in use are below the next fresh one.\<close>

definition wf_world :: "world \<Rightarrow> bool" where
  "wf_world w \<longleftrightarrow>
     (\<forall>q i. lookup w q = Some i \<longrightarrow> i < w_next w) \<and>
     (\<forall>fd e. w_fds w fd = Some e \<longrightarrow> fd < w_next w) \<and>
     (\<forall>i fd. w_locks w i = Some fd \<longrightarrow> fd < w_next w)"

definition same_process :: "world \<Rightarrow> world \<Rightarrow> bool" where
  "same_process w w' \<longleftrightarrow>
     w_faults w' = w_faults w \<and> w_euid w' = w_euid w \<and> w_umask w' = w_umask w \<and> w_pid w' = w_pid w \<and>
     w_cwd w' = w_cwd w \<and> w_env w' = w_env w \<and> w_clock w' = w_clock w \<and> w_tick w \<le> w_tick w'"

section \<open>Scopes\<close>

record scope =
  sc_names :: "names set"
  sc_inodes :: "nat set"
  sc_locks :: "nat set"

definition names_only :: "names set \<Rightarrow> scope" where
  "names_only N = \<lparr>sc_names = N, sc_inodes = {}, sc_locks = {}\<rparr>"

definition below :: "names \<Rightarrow> names set" where
  "below q = {p. prefix q p}"

definition within :: "scope \<Rightarrow> world \<Rightarrow> world \<Rightarrow> bool" where
  "within S w0 w \<longleftrightarrow>
     wf_world w0 \<and> wf_world w \<and> w_next w0 \<le> w_next w \<and> same_process w0 w \<and>
     (\<forall>q. q \<notin> sc_names S \<longrightarrow> lookup w q = lookup w0 q) \<and>
     (\<forall>i < w_next w0. i \<notin> sc_inodes S \<longrightarrow> w_inodes w i = w_inodes w0 i) \<and>
     (\<forall>i. i \<notin> sc_locks S \<longrightarrow> w_locks w i = w_locks w0 i)"

lemma names_only_simps [simp]:
  "sc_names (names_only N) = N" "sc_inodes (names_only N) = {}" "sc_locks (names_only N) = {}"
  by (simp_all add: names_only_def)

lemma in_below [simp]: "p \<in> below q \<longleftrightarrow> prefix q p"
  by (simp add: below_def)

lemma within_refl [simp]: "wf_world w \<Longrightarrow> within S w w"
  by (simp add: within_def same_process_def)

lemma within_trans:
  assumes "within S w0 w1" "within S w1 w2"
  shows "within S w0 w2"
  using assms unfolding within_def same_process_def by (auto intro: order_trans order_less_le_trans)

lemma within_mono:
  "within S w0 w \<Longrightarrow> sc_names S \<subseteq> sc_names T \<Longrightarrow> sc_inodes S \<subseteq> sc_inodes T \<Longrightarrow> sc_locks S \<subseteq> sc_locks T \<Longrightarrow>
     within T w0 w"
  unfolding within_def by blast

lemma withinD:
  assumes "within S w0 w"
  shows "wf_world w" "w_next w0 \<le> w_next w" "w_cwd w = w_cwd w0" "w_euid w = w_euid w0"
    "w_faults w = w_faults w0" "w_umask w = w_umask w0" "w_env w = w_env w0" "w_tick w0 \<le> w_tick w"
    "wf_world w0"
    "q \<notin> sc_names S \<Longrightarrow> lookup w q = lookup w0 q"
    "i < w_next w0 \<Longrightarrow> i \<notin> sc_inodes S \<Longrightarrow> w_inodes w i = w_inodes w0 i"
    "i \<notin> sc_locks S \<Longrightarrow> w_locks w i = w_locks w0 i"
  using assms by (auto simp: within_def same_process_def)

text \<open>A name outside the scope, of an inode outside the scope, still stands for the same inode.\<close>

lemma within_inode_at:
  assumes "within S w0 w" "q \<notin> sc_names S" "\<And>i. lookup w0 q = Some i \<Longrightarrow> i \<notin> sc_inodes S"
  shows "inode_at w q = inode_at w0 q"
proof (cases "lookup w0 q")
  case (Some i)
  then have "i < w_next w0" using assms(1) by (auto simp: within_def wf_world_def)
  then show ?thesis using Some withinD(10,11) [OF assms(1)] assms by (simp add: inode_at_def)
qed (use withinD(10) [OF assms(1,2)] in \<open>simp add: inode_at_def\<close>)

section \<open>Changes of state\<close>

lemma lookup_update [simp]:
  "lookup (w\<lparr>w_tick := t\<rparr>) q = lookup w q" "lookup (w\<lparr>w_fds := f\<rparr>) q = lookup w q"
  "lookup (w\<lparr>w_next := n\<rparr>) q = lookup w q" "lookup (w\<lparr>w_locks := l\<rparr>) q = lookup w q"
  "lookup (w\<lparr>w_stdout := s\<rparr>) q = lookup w q" "lookup (w\<lparr>w_listening := g\<rparr>) q = lookup w q"
  "lookup (set_inode i nd w) q = lookup w q"
  by (simp_all add: lookup_def set_inode_def)

lemma map_of_filter_key: "map_of (filter (\<lambda>e. P (fst e)) xs) k = (if P k then map_of xs k else None)"
  by (induction xs) auto

lemma lookup_link [simp]: "lookup (link_name q i w) p = (if p = q then Some i else lookup w p)"
  by (simp add: lookup_def link_name_def map_of_filter_key [of "\<lambda>k. k \<noteq> q"])

lemma lookup_unlink [simp]: "lookup (unlink_name q w) p = (if p = q then None else lookup w p)"
  by (simp add: lookup_def unlink_name_def map_of_filter_key [of "\<lambda>k. k \<noteq> q"])

lemma lookup_unlink_tree [simp]: "lookup (unlink_tree q w) p = (if prefix q p then None else lookup w p)"
  by (simp add: lookup_def unlink_tree_def map_of_filter_key [of "\<lambda>k. \<not> prefix q k"])

text \<open>After a move the new place has what the old one had, and the old place is empty.\<close>

lemma map_of_moved:
  assumes "\<not> prefix a b" "\<not> prefix b a"
  shows "map_of (map (\<lambda>(q, i). (if prefix a q then b @ drop (length a) q else q, i))
            (filter (\<lambda>e. \<not> prefix b (fst e)) xs)) p =
    (if prefix b p then map_of xs (a @ drop (length b) p)
     else if prefix a p then None else map_of xs p)"
proof (induction xs)
  case Nil
  then show ?case by simp
next
  case (Cons e xs)
  obtain q i where e: "e = (q, i)" by fastforce
  have parallel: "\<not> (prefix a q \<and> prefix b q)" for q
    using assms prefix_same_cases by blast
  have moved: "b @ drop (length a) q = p \<longleftrightarrow> prefix b p \<and> q = a @ drop (length b) p" if "prefix a q"
    using that by (auto simp: prefix_def)
  show ?case
  proof (cases "prefix b q")
    case True
    have "prefix a (a @ drop (length b) p)" by simp
    then have "q \<noteq> a @ drop (length b) p" using True parallel [of q] by blast
    then show ?thesis using Cons True parallel e by (auto simp: prefix_def)
  next
    case False
    then show ?thesis
      using Cons e moved parallel [of p] assms by (cases "prefix a q") auto
  qed
qed

lemma lookup_move_tree:
  "\<not> prefix a b \<Longrightarrow> \<not> prefix b a \<Longrightarrow>
     lookup (move_tree a b w) p =
       (if prefix b p then lookup w (a @ drop (length b) p)
        else if prefix a p then None else lookup w p)"
  by (simp add: lookup_def move_tree_def map_of_moved)

lemma inodes_update [simp]:
  "w_inodes (link_name q i w) = w_inodes w" "w_inodes (unlink_name q w) = w_inodes w"
  "w_inodes (unlink_tree q w) = w_inodes w" "w_inodes (move_tree a b w) = w_inodes w"
  "w_inodes (set_inode i n w) = (w_inodes w)(i := Some n)"
  "w_next (link_name q i w) = w_next w" "w_next (unlink_name q w) = w_next w"
  "w_next (unlink_tree q w) = w_next w" "w_next (move_tree a b w) = w_next w"
  "w_next (set_inode i n w) = w_next w"
  "w_fds (link_name q i w) = w_fds w" "w_fds (unlink_name q w) = w_fds w"
  "w_fds (unlink_tree q w) = w_fds w" "w_fds (move_tree a b w) = w_fds w"
  "w_fds (set_inode i n w) = w_fds w"
  "w_locks (link_name q i w) = w_locks w" "w_locks (unlink_name q w) = w_locks w"
  "w_locks (unlink_tree q w) = w_locks w" "w_locks (move_tree a b w) = w_locks w"
  "w_locks (set_inode i n w) = w_locks w"
  by (simp_all add: link_name_def unlink_name_def unlink_tree_def move_tree_def set_inode_def)

lemma same_process_update [simp]:
  "same_process w0 (link_name q i w) = same_process w0 w"
  "same_process w0 (unlink_name q w) = same_process w0 w"
  "same_process w0 (unlink_tree q w) = same_process w0 w"
  "same_process w0 (move_tree a b w) = same_process w0 w"
  "same_process w0 (set_inode i nd w) = same_process w0 w"
  "same_process w0 (w\<lparr>w_fds := f\<rparr>) = same_process w0 w"
  "same_process w0 (w\<lparr>w_next := n\<rparr>) = same_process w0 w"
  "same_process w0 (w\<lparr>w_locks := l\<rparr>) = same_process w0 w"
  "same_process w0 (w\<lparr>w_stdout := s\<rparr>) = same_process w0 w"
  by (simp_all add: same_process_def link_name_def unlink_name_def unlink_tree_def move_tree_def set_inode_def)

lemma within_tick: "within S w0 w \<Longrightarrow> within S w0 (w\<lparr>w_tick := Suc (w_tick w)\<rparr>)"
  by (auto simp: within_def wf_world_def same_process_def)

lemma within_fresh: "within S w0 w \<Longrightarrow> q \<in> sc_names S \<Longrightarrow> within S w0 (fresh_inode k m q w)"
  by (auto simp: within_def wf_world_def fresh_inode_def Let_def less_Suc_eq)

lemma within_unlink_name: "within S w0 w \<Longrightarrow> q \<in> sc_names S \<Longrightarrow> within S w0 (unlink_name q w)"
  by (auto simp: within_def wf_world_def)

lemma within_unlink_tree: "within S w0 w \<Longrightarrow> below q \<subseteq> sc_names S \<Longrightarrow> within S w0 (unlink_tree q w)"
  by (auto simp: within_def wf_world_def)

lemma within_move_tree:
  "within S w0 w \<Longrightarrow> below a \<subseteq> sc_names S \<Longrightarrow> below b \<subseteq> sc_names S \<Longrightarrow>
     \<not> prefix a b \<Longrightarrow> \<not> prefix b a \<Longrightarrow> within S w0 (move_tree a b w)"
  by (auto simp: within_def wf_world_def lookup_move_tree split: if_splits)

lemma within_set_inode:
  "within S w0 w \<Longrightarrow> w_next w0 \<le> i \<or> i \<in> sc_inodes S \<Longrightarrow> within S w0 (set_inode i n w)"
  by (auto simp: within_def wf_world_def)

lemma within_put_bytes:
  "within S w0 w \<Longrightarrow> w_next w0 \<le> i \<or> i \<in> sc_inodes S \<Longrightarrow> within S w0 (put_bytes i b w)"
  by (auto simp: put_bytes_def within_set_inode split: option.split)

lemma within_fds:
  "within S w0 w \<Longrightarrow> fd < w_next w \<Longrightarrow> within S w0 (w\<lparr>w_fds := (w_fds w)(fd := e)\<rparr>)"
  by (auto simp: within_def wf_world_def)

lemma within_open_fd: "within S w0 w \<Longrightarrow> open_fd i w = (h, w') \<Longrightarrow> within S w0 w'"
  by (auto simp: within_def wf_world_def open_fd_def less_Suc_eq)

text \<open>Closing a file gives up the locks taken through it; one opened since holds no older lock.\<close>

lemma within_close_locked:
  "within S w0 w \<Longrightarrow> (\<And>i. w_locks w i = Some (fh_fd h) \<Longrightarrow> i \<in> sc_locks S) \<Longrightarrow> within S w0 (close_file h w)"
  unfolding within_def wf_world_def close_file_def by (auto split: if_splits)

lemma within_close:
  assumes "within S w0 w" "w_next w0 \<le> fh_fd h"
  shows "within S w0 (close_file h w)"
proof (rule within_close_locked [OF assms(1)], rule ccontr)
  fix i assume "w_locks w i = Some (fh_fd h)" "i \<notin> sc_locks S"
  then have "w_locks w0 i = Some (fh_fd h)" using withinD(12) [OF assms(1)] by simp
  then have "fh_fd h < w_next w0" using withinD(9) [OF assms(1)] by (simp add: wf_world_def)
  then show False using assms(2) by simp
qed

section \<open>Triples of the system calls\<close>

text \<open>A predicate that only looks at what a tick leaves alone.\<close>

definition tick_closed :: "(world \<Rightarrow> bool) \<Rightarrow> bool" where
  "tick_closed P \<longleftrightarrow> (\<forall>w. P w \<longrightarrow> P (w\<lparr>w_tick := Suc (w_tick w)\<rparr>))"

lemma tick_closed_within [simp, intro]: "tick_closed (within S w0)"
  by (simp add: tick_closed_def within_tick)

lemma tick_closed_conj: "tick_closed P \<Longrightarrow> tick_closed Q \<Longrightarrow> tick_closed (\<lambda>w. P w \<and> Q w)"
  by (simp add: tick_closed_def)

lemma tick_closed_add: "tick_closed P \<Longrightarrow> P w \<Longrightarrow> P (w\<lparr>w_tick := w_tick w + n\<rparr>)"
proof (induction n)
  case (Suc n)
  then have "P ((w\<lparr>w_tick := w_tick w + n\<rparr>)\<lparr>w_tick := Suc (w_tick (w\<lparr>w_tick := w_tick w + n\<rparr>))\<rparr>)"
    unfolding tick_closed_def by blast
  then show ?case by simp
qed simp

lemma triple_sys:
  assumes "triple P f Q E" "tick_closed P" "\<And>e w. P w \<Longrightarrow> E e w"
  shows "triple P (sys f) Q E"
proof (rule tripleI)
  fix w x w' assume "P w" and run: "sys f w = (Inr x, w')"
  have "P (w\<lparr>w_tick := Suc (w_tick w)\<rparr>)" using assms(2) \<open>P w\<close> by (simp add: tick_closed_def)
  then show "Q x w'" using run triple_Inr [OF assms(1)]
    by (auto simp: sys_def Let_def split: option.splits)
next
  fix w e w' assume "P w" and run: "sys f w = (Inl e, w')"
  have "P (w\<lparr>w_tick := Suc (w_tick w)\<rparr>)" using assms(2) \<open>P w\<close> by (simp add: tick_closed_def)
  then show "E e w'" using run triple_Inl [OF assms(1)] assms(3)
    by (auto simp: sys_def Let_def split: option.splits)
qed

lemma triple_fun:
  assumes "\<And>w. P w \<Longrightarrow> (case f w of (Inl e, w') \<Rightarrow> E e w' | (Inr x, w') \<Rightarrow> Q x w')"
  shows "triple P f Q E"
  by (rule tripleI) (use assms in fastforce)+

text \<open>Calls that only look.\<close>

lemma symlink_metadata_triple:
  assumes "tick_closed P"
  shows "triple P (symlink_metadata p)
     (\<lambda>m w. P w \<and> p \<noteq> [] \<and> (\<exists>n. lookup w (locate (w_cwd w) p) = Some (md_ino m) \<and>
        w_inodes w (md_ino m) = Some n \<and> m = metadata_of (md_ino m) n))
     (\<lambda>e. P)"
  unfolding symlink_metadata_def
  by (rule triple_sys [OF triple_fun]) (use assms in \<open>auto simp: metadata_of_def Let_def split: option.split\<close>)

lemma canonicalize_triple:
  assumes "tick_closed P"
  shows "triple P (canonicalize p)
     (\<lambda>q w. P w \<and> (\<exists>ns. follow max_links w (locate (w_cwd w) p) = Some ns \<and> q = canonical_path ns))
     (\<lambda>e. P)"
  unfolding canonicalize_def
  by (rule triple_sys [OF triple_fun]) (use assms in \<open>auto split: option.split\<close>)

lemma read_dir_triple: "tick_closed P \<Longrightarrow> triple P (read_dir p) (\<lambda>_. P) (\<lambda>_. P)"
  unfolding read_dir_def by (rule triple_sys [OF triple_fun]) (auto simp: Let_def)

lemma file_take_triple: "tick_closed P \<Longrightarrow> triple P (file_take n h) (\<lambda>_. P) (\<lambda>_. P)"
  unfolding file_take_def by (rule triple_sys [OF triple_fun]) (auto split: option.split)

lemma file_source_triple: "tick_closed P \<Longrightarrow> triple P (file_source h) (\<lambda>_. P) (\<lambda>_. P)"
  by (rule triple_fun) (auto simp: file_source_def Let_def tick_closed_def split: option.split)

lemma file_sync_all_triple: "tick_closed P \<Longrightarrow> triple P (file_sync_all h) (\<lambda>_. P) (\<lambda>_. P)"
  unfolding file_sync_all_def by (rule triple_sys [OF triple_ok]) auto

text \<open>Calls that change names.\<close>

lemma mkdir_triple:
  assumes "lookup w0 q = None \<Longrightarrow> q \<in> sc_names S"
  shows "triple (within S w0) (mkdir mode q) (\<lambda>_. within S w0) (\<lambda>_. within S w0)"
  unfolding mkdir_def
proof (rule triple_sys [OF triple_fun])
  fix w assume w: "within S w0 w"
  have "q \<in> sc_names S" if "lookup w q = None" using assms withinD(10) [OF w, of q] that by metis
  then show "case (if lookup w q \<noteq> None then (Inl already_exists, w)
     else if \<not> dir_at w (butlast q) then (Inl (missing_error w q), w)
     else (Inr (), fresh_inode Directory mode q w)) of
      (Inl e, w') \<Rightarrow> within S w0 w' | (Inr x, w') \<Rightarrow> within S w0 w'"
    using w by (auto simp: within_fresh)
qed auto

lemma make_dirs_triple:
  assumes "\<forall>k. 0 < k \<longrightarrow> k \<le> length ns \<longrightarrow> lookup w0 (base @ take k ns) = None \<longrightarrow> base @ take k ns \<in> sc_names S"
  shows "triple (within S w0) (make_dirs mode base ns) (\<lambda>_. within S w0) (\<lambda>_. within S w0)"
  using assms
proof (induction ns arbitrary: base)
  case (Cons n ns)
  have first: "lookup w0 (base @ [n]) = None \<Longrightarrow> base @ [n] \<in> sc_names S"
    using Cons.prems [rule_format, of 1] by simp
  have "triple (within S w0) (ensure_dir mode (base @ [n])) (\<lambda>_. within S w0) (\<lambda>_. within S w0)"
    using mkdir_triple [of w0 "base @ [n]" S mode, OF first]
    by (auto simp: ensure_dir_def triple_def split: if_splits)
  moreover have "triple (within S w0) (make_dirs mode (base @ [n]) ns) (\<lambda>_. within S w0) (\<lambda>_. within S w0)"
  proof (rule Cons.IH, intro allI impI)
    fix k assume "0 < k" "k \<le> length ns" "lookup w0 ((base @ [n]) @ take k ns) = None"
    then show "(base @ [n]) @ take k ns \<in> sc_names S" using Cons.prems [rule_format, of "Suc k"] by simp
  qed
  ultimately show ?case by (auto intro: triple_andthen)
qed (auto intro: triple_ok)

text \<open>The missing names on the way to a place, which a recursive creation may add.\<close>

definition missing_on :: "world \<Rightarrow> names \<Rightarrow> names set" where
  "missing_on w q = {p. p \<noteq> [] \<and> prefix p q \<and> lookup w p = None}"

lemma create_dir_triple:
  assumes "missing_on w0 (locate (w_cwd w0) p) \<subseteq> sc_names S"
  shows "triple (within S w0) (create_dir_recursive mode p) (\<lambda>_. within S w0) (\<lambda>_. within S w0)"
proof -
  let ?q = "locate (w_cwd w0) p"
  have "triple (within S w0) (make_dirs mode [] ?q) (\<lambda>_. within S w0) (\<lambda>_. within S w0)"
    by (rule make_dirs_triple) (use assms in \<open>auto simp: missing_on_def take_is_prefix\<close>)
  then show ?thesis
    by (auto simp: triple_def create_dir_recursive_def withinD(3) split: if_splits)
qed

lemma rename_triple:
  assumes "below (locate (w_cwd w0) a) \<subseteq> sc_names S" "below (locate (w_cwd w0) b) \<subseteq> sc_names S"
  shows "triple (within S w0) (rename a b) (\<lambda>_. within S w0) (\<lambda>_. within S w0)"
  unfolding rename_def
  by (rule triple_sys [OF triple_fun]) (auto simp: Let_def withinD(3) within_move_tree assms)

lemma remove_file_triple:
  assumes "locate (w_cwd w0) p \<in> sc_names S"
  shows "triple (within S w0) (remove_file p) (\<lambda>_. within S w0) (\<lambda>_. within S w0)"
  unfolding remove_file_def
  by (rule triple_sys [OF triple_fun]) (auto simp: Let_def withinD(3) within_unlink_name assms)

lemma remove_dir_all_triple:
  assumes "below (locate (w_cwd w0) p) \<subseteq> sc_names S"
  shows "triple (within S w0) (remove_dir_all p) (\<lambda>_. within S w0) (\<lambda>_. within S w0)"
  unfolding remove_dir_all_def
  by (rule triple_sys [OF triple_fun]) (auto simp: Let_def withinD(3) within_unlink_tree assms)

text \<open>Opening a file for reading changes nothing but the descriptors.\<close>

lemma open_inode_Inr:
  assumes "open_inode w i n = (Inr h, w')" "within S w0 w"
  shows "within S w0 w' \<and> fh_ino h = i \<and> w_next w0 \<le> fh_fd h \<and> (\<forall>q. lookup w' q = lookup w q)"
proof -
  have o: "open_fd i w = (h, w')"
    using assms(1) by (auto simp: open_inode_def split: if_splits prod.splits)
  from within_open_fd [OF assms(2) o] have "within S w0 w'" .
  moreover have "fh_ino h = i" "fh_fd h = w_next w" "lookup w' q = lookup w q" for q
    using o by (auto simp: open_fd_def)
  ultimately show ?thesis using withinD(2) [OF assms(2)] by simp
qed

lemma open_inode_Inl: "open_inode w i n = (Inl e, w') \<Longrightarrow> w' = w"
  by (auto simp: open_inode_def split: if_splits prod.splits)

lemma open_read_triple:
  "triple (within S w0) (open_read nf p)
     (\<lambda>h w. within S w0 w \<and> w_next w0 \<le> fh_fd h \<and>
        (nf \<longrightarrow> lookup w (locate (w_cwd w0) p) = Some (fh_ino h)))
     (\<lambda>_. within S w0)"
  unfolding open_read_def
proof (rule triple_sys [OF triple_fun])
  fix w assume w: "within S w0 w"
  show "case (let q0 = locate (w_cwd w) p in
     case (if nf then Some q0 else follow max_links w q0) of
       None \<Rightarrow> (Inl too_many_links, w)
     | Some q \<Rightarrow>
         (case lookup w q of
            None \<Rightarrow> (Inl (missing_error w q), w)
          | Some i \<Rightarrow>
              (case w_inodes w i of
                 None \<Rightarrow> (Inl (missing_error w q), w)
               | Some n \<Rightarrow>
                   if type_of_kind (in_kind n) = IsSymlink then (Inl too_many_links, w)
                   else open_inode w i n))) of
      (Inl e, w') \<Rightarrow> within S w0 w'
    | (Inr h, w') \<Rightarrow> within S w0 w' \<and> w_next w0 \<le> fh_fd h \<and>
        (nf \<longrightarrow> lookup w' (locate (w_cwd w0) p) = Some (fh_ino h))"
    using w withinD(3) [OF w]
    by (auto simp: Let_def split: option.split sum.split
        dest: open_inode_Inr [OF _ w] open_inode_Inl)
qed auto

section \<open>Open files as byte sinks\<close>

definition file_content :: "file_handle \<Rightarrow> world \<Rightarrow> bytes" where
  "file_content h w = (case file_bytes w (fh_ino h) of None \<Rightarrow> [] | Some b \<Rightarrow> b)"

definition file_live :: "file_handle \<Rightarrow> world \<Rightarrow> bool" where
  "file_live h w \<longleftrightarrow>
     (\<exists>c. file_bytes w (fh_ino h) = Some c \<and> w_fds w (fh_fd h) = Some (fh_ino h, length c))"

definition quiet_from_now :: "world \<Rightarrow> bool" where
  "quiet_from_now w \<longleftrightarrow> (\<forall>t \<ge> w_tick w. w_faults w t = None)"

lemma file_bytes_update [simp]:
  "file_bytes (w\<lparr>w_tick := t\<rparr>) i = file_bytes w i" "file_bytes (w\<lparr>w_fds := f\<rparr>) i = file_bytes w i"
  "file_bytes (w\<lparr>w_next := n\<rparr>) i = file_bytes w i" "file_bytes (w\<lparr>w_locks := l\<rparr>) i = file_bytes w i"
  "file_bytes (link_name q j w) i = file_bytes w i" "file_bytes (unlink_name q w) i = file_bytes w i"
  "file_bytes (move_tree a b w) i = file_bytes w i"
  by (simp_all add: file_bytes_def)

lemma put_bytes_update [simp]:
  "w_fds (put_bytes i b w) = w_fds w" "w_faults (put_bytes i b w) = w_faults w"
  "w_tick (put_bytes i b w) = w_tick w" "w_next (put_bytes i b w) = w_next w"
  "w_locks (put_bytes i b w) = w_locks w" "w_cwd (put_bytes i b w) = w_cwd w"
  "lookup (put_bytes i b w) q = lookup w q"
  by (auto simp: put_bytes_def set_inode_def lookup_def split: option.split)

lemma file_bytes_put: "file_bytes w i = Some c \<Longrightarrow> file_bytes (put_bytes i b w) i = Some b"
  by (auto simp: file_bytes_def put_bytes_def set_inode_def split: option.splits)

lemma file_live_tick [simp]: "file_live h (w\<lparr>w_tick := t\<rparr>) = file_live h w"
  by (simp add: file_live_def)

lemma file_content_tick [simp]: "file_content h (w\<lparr>w_tick := t\<rparr>) = file_content h w"
  by (simp add: file_content_def)

text \<open>A write at the end of a live file appends.\<close>

lemma write_at_live:
  assumes "file_live h w"
  obtains w' where "write_at h b w = Some w'" "file_live h w'" "file_content h w' = file_content h w @ b"
    "w' = (put_bytes (fh_ino h) (file_content h w @ b) w)
       \<lparr>w_fds := (w_fds w)(fh_fd h := Some (fh_ino h, length (file_content h w) + length b))\<rparr>"
proof -
  obtain c where c: "file_bytes w (fh_ino h) = Some c" "w_fds w (fh_fd h) = Some (fh_ino h, length c)"
    using assms by (auto simp: file_live_def)
  let ?w = "(put_bytes (fh_ino h) (c @ b) w)\<lparr>w_fds := (w_fds w)(fh_fd h := Some (fh_ino h, length c + length b))\<rparr>"
  have "write_at h b w = Some ?w" using c by (simp add: write_at_def pad_to_def)
  moreover have "file_live h ?w" "file_content h ?w = c @ b"
    using file_bytes_put [OF c(1), of "c @ b"] by (simp_all add: file_live_def file_content_def)
  ultimately show thesis using that c(1) by (simp add: file_content_def)
qed

lemma file_write_cases:
  assumes "file_live h w" "file_write_all h b w = (r, w')"
  shows "file_live h w' \<and>
    (case r of
       Inr _ \<Rightarrow> file_content h w' = file_content h w @ b
     | Inl _ \<Rightarrow> (\<exists>p. prefix p b \<and> file_content h w' = file_content h w @ p))"
proof (cases "b = []")
  case True
  then show ?thesis using assms by (auto simp: file_write_all_def)
next
  case False
  let ?w = "w\<lparr>w_tick := Suc (w_tick w)\<rparr>"
  have live: "file_live h ?w" using assms(1) by simp
  show ?thesis
  proof (cases "w_faults w (w_tick w)")
    case None
    obtain w2 where "write_at h b ?w = Some w2" "file_live h w2" "file_content h w2 = file_content h ?w @ b"
      by (rule write_at_live [OF live])
    then show ?thesis using assms(2) False None by (auto simp: file_write_all_def)
  next
    case (Some ft)
    obtain w2 where "write_at h (take (ft_partial ft) b) ?w = Some w2" "file_live h w2"
        "file_content h w2 = file_content h ?w @ take (ft_partial ft) b"
      by (rule write_at_live [OF live])
    then show ?thesis using assms(2) False Some take_is_prefix by (auto simp: file_write_all_def)
  qed
qed

interpretation disk_file: byte_sink file_ops file_content file_live
proof unfold_locales
  fix h w b u w' assume "file_live h w" "op_write_all file_ops h b w = (Inr u, w')"
  then show "file_live h w' \<and> file_content h w' = file_content h w @ b"
    using file_write_cases [of h w b "Inr u" w'] by (simp add: file_ops_def)
next
  fix h w b e w' assume "file_live h w" "op_write_all file_ops h b w = (Inl e, w')"
  then show "file_live h w' \<and> (\<exists>p. prefix p b \<and> file_content h w' = file_content h w @ p)"
    using file_write_cases [of h w b "Inl e" w'] by (simp add: file_ops_def)
qed (auto simp: file_ops_def)

lemma file_write_quiet:
  assumes "file_live h w" "quiet_from_now w"
  shows "\<exists>w'. file_write_all h b w = (Inr (), w') \<and> quiet_from_now w'"
proof (cases "b = []")
  case False
  have live: "file_live h (w\<lparr>w_tick := Suc (w_tick w)\<rparr>)" using assms(1) by simp
  obtain w2 where w2: "write_at h b (w\<lparr>w_tick := Suc (w_tick w)\<rparr>) = Some w2"
      "w2 = put_bytes (fh_ino h) (file_content h (w\<lparr>w_tick := Suc (w_tick w)\<rparr>) @ b) (w\<lparr>w_tick := Suc (w_tick w)\<rparr>)
       \<lparr>w_fds := (w_fds (w\<lparr>w_tick := Suc (w_tick w)\<rparr>))(fh_fd h := Some (fh_ino h,
          length (file_content h (w\<lparr>w_tick := Suc (w_tick w)\<rparr>)) + length b))\<rparr>"
    by (rule write_at_live [OF live])
  have "quiet_from_now w2" using assms(2) by (simp add: w2(2) quiet_from_now_def)
  then show ?thesis using w2(1) False assms(2) by (simp add: file_write_all_def quiet_from_now_def Let_def)
qed (use assms in \<open>simp add: file_write_all_def\<close>)

text \<open>While the host has no faults to come, an open file accepts everything.\<close>

interpretation quiet_file: reliable_sink file_ops file_content "\<lambda>h w. file_live h w \<and> quiet_from_now w"
proof unfold_locales
  fix h w b u w' assume "file_live h w \<and> quiet_from_now w" "op_write_all file_ops h b w = (Inr u, w')"
  then show "(file_live h w' \<and> quiet_from_now w') \<and> file_content h w' = file_content h w @ b"
    using file_write_cases [of h w b "Inr u" w'] file_write_quiet [of h w b] by (auto simp: file_ops_def)
next
  fix h w b e w' assume "file_live h w \<and> quiet_from_now w" "op_write_all file_ops h b w = (Inl e, w')"
  then show "(file_live h w' \<and> quiet_from_now w') \<and> (\<exists>p. prefix p b \<and> file_content h w' = file_content h w @ p)"
    using file_write_quiet [of h w b] by (auto simp: file_ops_def)
next
  fix h w b assume "file_live h w \<and> quiet_from_now w"
  then show "\<exists>w'. op_write_all file_ops h b w = (Inr (), w')"
    using file_write_quiet [of h w b] by (auto simp: file_ops_def)
qed (auto simp: file_ops_def)

end
