(* ===== verification/Config_Paths.thy ===== *)
theory Config_Paths
  imports Host_Frame
begin

text \<open>
  \<open>src/config.rs\<close> for a Linux target: where the vaults and the runtime directories are, and the checks
  that a directory or a file is private to the current user.  The lemmas show what the checks
  guarantee, that nothing that existed is changed, and which names can be created.
\<close>

section \<open>Operations\<close>

definition app_name :: string where "app_name = ''codex-vault''"

definition env_path :: "string \<Rightarrow> world \<Rightarrow> path option" where
  "env_path name w = map_option parse_path (w_env w name)"

definition default_vault_root :: "path vault_os" where
  "default_vault_root = (\<lambda>w.
     case env_path ''CODEX_VAULT_HOME'' w of
       Some root \<Rightarrow> (Inr root, w)
     | None \<Rightarrow>
         (case env_path ''HOME'' w of
            None \<Rightarrow> (Inl (InvalidConfiguration ''HOME and CODEX_VAULT_HOME are unset''), w)
          | Some home \<Rightarrow> (Inr (path_join home ''.codex-vault''), w)))"

definition private_mask :: u32 where "private_mask = 63"

definition validate_private_directory :: "path \<Rightarrow> unit vault_os" where
  "validate_private_directory p =
     andthen (action_err Io (symlink_metadata p))
       (\<lambda>m w. if md_type m \<noteq> IsDir \<or> md_type m = IsSymlink
              then (Inl (InvalidConfiguration (''private path is not a real directory: '' @ path_display p)), w)
              else if md_uid m \<noteq> w_euid w \<or> and (md_mode m) private_mask \<noteq> 0
              then (Inl (InvalidConfiguration
                     (''private directory has unsafe ownership or permissions: '' @ path_display p)), w)
              else (Inr (), w))"

definition validate_private_file :: "path \<Rightarrow> metadata vault_os" where
  "validate_private_file p =
     andthen (action_err Io (symlink_metadata p))
       (\<lambda>m w. if md_type m \<noteq> IsFile \<or> md_type m = IsSymlink
              then (Inl (InvalidConfiguration (''private path is not a real file: '' @ path_display p)), w)
              else if md_uid m \<noteq> w_euid w \<or> and (md_mode m) private_mask \<noteq> 0
              then (Inl (InvalidConfiguration
                     (''private file has unsafe ownership or permissions: '' @ path_display p)), w)
              else (Inr m, w))"

definition private_dir_mode :: u32 where "private_dir_mode = 448"
definition private_file_mode :: u32 where "private_file_mode = 384"

definition ensure_private_directory :: "path \<Rightarrow> unit vault_os" where
  "ensure_private_directory p =
     andthen (attempt (symlink_metadata p))
       (\<lambda>r. case r of
          Inr _ \<Rightarrow> validate_private_directory p
        | Inl e \<Rightarrow>
            if io_kind e \<noteq> NotFound then err (Io e)
            else andthen (action_err Io (create_dir_recursive private_dir_mode p))
              (\<lambda>_. validate_private_directory p))"

definition prepare_runtime_root :: "path \<Rightarrow> path vault_os" where
  "prepare_runtime_root p =
     (if \<not> is_absolute p
      then err (InvalidConfiguration ''runtime root must be an absolute path; refusing implicit relocation'')
      else andthen (ensure_private_directory p) (\<lambda>_. action_err Io (canonicalize p)))"

fun first_usable :: "path list \<Rightarrow> path vault_os" where
  "first_usable [] =
     err (InvalidConfiguration ''no private writable runtime directory is available'')"
| "first_usable (candidate # rest) =
     andthen (attempt (prepare_runtime_root candidate))
       (\<lambda>r. case r of Inr p \<Rightarrow> ok p | Inl _ \<Rightarrow> first_usable rest)"

definition select_runtime_root_from :: "path option \<Rightarrow> path list \<Rightarrow> path vault_os" where
  "select_runtime_root_from explicit candidates =
     (case explicit of Some p \<Rightarrow> prepare_runtime_root p | None \<Rightarrow> first_usable candidates)"

text \<open>\<open>env::temp_dir\<close>\<close>

definition temp_dir :: "world \<Rightarrow> path" where
  "temp_dir w = (case env_path ''TMPDIR'' w of Some p \<Rightarrow> p | None \<Rightarrow> parse_path ''/tmp'')"

definition uid_name :: "world \<Rightarrow> string" where
  "uid_name w = app_name @ ''-'' @ show_nat (unat (w_euid w))"

definition runtime_candidates :: "world \<Rightarrow> path list" where
  "runtime_candidates w =
     (case env_path ''XDG_RUNTIME_DIR'' w of Some p \<Rightarrow> [path_join p app_name] | None \<Rightarrow> []) @
     [parse_path (''/dev/shm/'' @ uid_name w), path_join (temp_dir w) (uid_name w)]"

definition select_runtime_root :: "path vault_os" where
  "select_runtime_root = (\<lambda>w.
     select_runtime_root_from (env_path ''CODEX_VAULT_RUNTIME_DIR'' w) (runtime_candidates w) w)"

section \<open>What the checks guarantee\<close>

text \<open>A real directory, or file, of the user that no one else has any permission on.\<close>

definition private_dir :: "world \<Rightarrow> names \<Rightarrow> bool" where
  "private_dir w q \<longleftrightarrow>
     (\<exists>n. inode_at w q = Some n \<and> in_kind n = Directory \<and> in_uid n = w_euid w \<and> and (in_mode n) private_mask = 0)"

definition private_file :: "world \<Rightarrow> names \<Rightarrow> bool" where
  "private_file w q \<longleftrightarrow>
     (\<exists>n b. inode_at w q = Some n \<and> in_kind n = RegularFile b \<and> in_uid n = w_euid w \<and> and (in_mode n) private_mask = 0)"

lemma type_of_kind_dir: "type_of_kind k = IsDir \<longleftrightarrow> k = Directory"
  by (cases k) auto

lemma type_of_kind_file: "type_of_kind k = IsFile \<longleftrightarrow> (\<exists>b. k = RegularFile b)"
  by (cases k) auto

lemma metadata_of_simps [simp]:
  "md_type (metadata_of i n) = type_of_kind (in_kind n)" "md_uid (metadata_of i n) = in_uid n"
  "md_mode (metadata_of i n) = in_mode n" "md_ino (metadata_of i n) = i"
  "md_len (metadata_of i n) = kind_length (in_kind n)"
  by (simp_all add: metadata_of_def)

lemma validate_directory_triple:
  assumes "tick_closed P"
  shows "triple P (validate_private_directory p)
     (\<lambda>_ w. P w \<and> p \<noteq> [] \<and> private_dir w (locate (w_cwd w) p)) (\<lambda>_. P)"
  unfolding validate_private_directory_def
proof (rule triple_andthen)
  show "triple P (action_err Io (symlink_metadata p))
     (\<lambda>m w. P w \<and> p \<noteq> [] \<and> (\<exists>n. lookup w (locate (w_cwd w) p) = Some (md_ino m) \<and>
        w_inodes w (md_ino m) = Some n \<and> m = metadata_of (md_ino m) n)) (\<lambda>_. P)"
    by (rule triple_action_err, rule symlink_metadata_triple [OF assms])
next
  fix m
  show "triple (\<lambda>w. P w \<and> p \<noteq> [] \<and> (\<exists>n. lookup w (locate (w_cwd w) p) = Some (md_ino m) \<and>
        w_inodes w (md_ino m) = Some n \<and> m = metadata_of (md_ino m) n))
     (\<lambda>w. if md_type m \<noteq> IsDir \<or> md_type m = IsSymlink
              then (Inl (InvalidConfiguration (''private path is not a real directory: '' @ path_display p)), w)
              else if md_uid m \<noteq> w_euid w \<or> and (md_mode m) private_mask \<noteq> 0
              then (Inl (InvalidConfiguration
                     (''private directory has unsafe ownership or permissions: '' @ path_display p)), w)
              else (Inr (), w))
     (\<lambda>_ w. P w \<and> p \<noteq> [] \<and> private_dir w (locate (w_cwd w) p)) (\<lambda>_. P)"
    by (rule triple_fun)
       (auto simp: private_dir_def inode_at_def type_of_kind_dir, (metis metadata_of_simps(1-3) type_of_kind_dir)+)
qed

lemma validate_file_triple:
  assumes "tick_closed P"
  shows "triple P (validate_private_file p)
     (\<lambda>m w. P w \<and> p \<noteq> [] \<and> private_file w (locate (w_cwd w) p) \<and>
        lookup w (locate (w_cwd w) p) = Some (md_ino m) \<and>
        (\<exists>b. file_bytes w (md_ino m) = Some b \<and> md_len m = length b)) (\<lambda>_. P)"
  unfolding validate_private_file_def
proof (rule triple_andthen)
  show "triple P (action_err Io (symlink_metadata p))
     (\<lambda>m w. P w \<and> p \<noteq> [] \<and> (\<exists>n. lookup w (locate (w_cwd w) p) = Some (md_ino m) \<and>
        w_inodes w (md_ino m) = Some n \<and> m = metadata_of (md_ino m) n)) (\<lambda>_. P)"
    by (rule triple_action_err, rule symlink_metadata_triple [OF assms])
next
  fix m
  have found: "private_file w (locate (w_cwd w) p) \<and> (\<exists>b. file_bytes w (md_ino m) = Some b \<and> md_len m = length b)"
    if n: "lookup w (locate (w_cwd w) p) = Some (md_ino m)" "w_inodes w (md_ino m) = Some n"
        "m = metadata_of (md_ino m) n"
      and ok: "md_type m = IsFile" "md_uid m = w_euid w" "and (md_mode m) private_mask = 0" for w n
  proof -
    have "type_of_kind (in_kind n) = IsFile" "in_uid n = w_euid w" "and (in_mode n) private_mask = 0"
      "md_len m = kind_length (in_kind n)"
      using n(3) ok by (metis metadata_of_simps)+
    then show ?thesis
      using n(1,2) by (auto simp: private_file_def inode_at_def file_bytes_def type_of_kind_file)
  qed
  show "triple (\<lambda>w. P w \<and> p \<noteq> [] \<and> (\<exists>n. lookup w (locate (w_cwd w) p) = Some (md_ino m) \<and>
        w_inodes w (md_ino m) = Some n \<and> m = metadata_of (md_ino m) n))
     (\<lambda>w. if md_type m \<noteq> IsFile \<or> md_type m = IsSymlink
              then (Inl (InvalidConfiguration (''private path is not a real file: '' @ path_display p)), w)
              else if md_uid m \<noteq> w_euid w \<or> and (md_mode m) private_mask \<noteq> 0
              then (Inl (InvalidConfiguration
                     (''private file has unsafe ownership or permissions: '' @ path_display p)), w)
              else (Inr m, w))
     (\<lambda>m w. P w \<and> p \<noteq> [] \<and> private_file w (locate (w_cwd w) p) \<and>
        lookup w (locate (w_cwd w) p) = Some (md_ino m) \<and>
        (\<exists>b. file_bytes w (md_ino m) = Some b \<and> md_len m = length b)) (\<lambda>_. P)"
    by (rule triple_fun) (auto dest: found)
qed

section \<open>Nothing that exists is changed\<close>

text \<open>
  Whether it succeeds or not, \<open>ensure_private_directory\<close> adds at most names that were missing on the
  way to the directory, and on success the place is a private directory.
\<close>

lemma ensure_directory_triple:
  assumes "missing_on w0 (locate (w_cwd w0) p) \<subseteq> sc_names S"
  shows "triple (within S w0) (ensure_private_directory p)
     (\<lambda>_ w. within S w0 w \<and> private_dir w (locate (w_cwd w0) p)) (\<lambda>_. within S w0)"
proof -
  have val: "triple (within S w0) (validate_private_directory p)
     (\<lambda>_ w. within S w0 w \<and> private_dir w (locate (w_cwd w0) p)) (\<lambda>_. within S w0)"
    by (rule triple_post [OF validate_directory_triple]) (auto simp: withinD(3))
  have meta: "triple (within S w0) (attempt (symlink_metadata p)) (\<lambda>_. within S w0) E" for E
    by (rule triple_attempt, rule triple_weaken [OF symlink_metadata_triple, of "within S w0"]) auto
  show ?thesis
    unfolding ensure_private_directory_def
    by (rule triple_andthen [OF meta])
       (auto intro!: triple_sum triple_if triple_err triple_andthen [OF triple_action_err] val
          create_dir_triple assms)
qed

text \<open>A real directory is where a path to it leads.\<close>

lemma follow_private_dir: "private_dir w q \<Longrightarrow> follow max_links w q = Some q"
  by (auto simp: private_dir_def max_links_def eval_nat_numeral)

lemma tick_closed_private: "tick_closed (\<lambda>w. within S w0 w \<and> private_dir w q)"
proof -
  have "inode_at (w\<lparr>w_tick := t\<rparr>) q = inode_at w q" for w t
    by (simp add: inode_at_def)
  then show ?thesis by (auto simp: tick_closed_def within_tick private_dir_def)
qed

lemma prepare_root_triple:
  assumes "missing_on w0 (locate (w_cwd w0) p) \<subseteq> sc_names S"
  shows "triple (within S w0) (prepare_runtime_root p)
     (\<lambda>r w. within S w0 w \<and> is_absolute p \<and> r = canonical_path (locate (w_cwd w0) p) \<and>
        private_dir w (locate (w_cwd w0) p)) (\<lambda>_. within S w0)"
proof -
  let ?q = "locate (w_cwd w0) p"
  have canon: "triple (\<lambda>w. within S w0 w \<and> private_dir w ?q) (action_err Io (canonicalize p))
     (\<lambda>r w. within S w0 w \<and> r = canonical_path ?q \<and> private_dir w ?q) (\<lambda>_. within S w0)"
    by (rule triple_action_err, rule triple_weaken [OF canonicalize_triple [OF tick_closed_private]])
       (auto simp: withinD(3) follow_private_dir)
  show ?thesis
  proof (cases "is_absolute p")
    case True
    then show ?thesis
      by (auto simp: prepare_runtime_root_def
          intro: triple_andthen [OF ensure_directory_triple [OF assms] triple_post [OF canon]])
  qed (auto simp: prepare_runtime_root_def intro!: triple_err)
qed

lemma first_usable_triple:
  assumes "\<forall>p \<in> set ps. missing_on w0 (locate (w_cwd w0) p) \<subseteq> sc_names S"
  shows "triple (within S w0) (first_usable ps)
     (\<lambda>r w. within S w0 w \<and> (\<exists>p \<in> set ps. is_absolute p \<and> r = canonical_path (locate (w_cwd w0) p) \<and>
        private_dir w (locate (w_cwd w0) p))) (\<lambda>_. within S w0)"
  using assms
proof (induction ps)
  case (Cons p ps)
  have p: "missing_on w0 (locate (w_cwd w0) p) \<subseteq> sc_names S" using Cons.prems by simp
  have rest: "triple (within S w0) (first_usable ps)
     (\<lambda>r w. within S w0 w \<and> (\<exists>p \<in> set ps. is_absolute p \<and> r = canonical_path (locate (w_cwd w0) p) \<and>
        private_dir w (locate (w_cwd w0) p))) (\<lambda>_. within S w0)"
    using Cons by simp
  have try_p: "triple (within S w0) (attempt (prepare_runtime_root p))
      (\<lambda>r w. case r of Inl e \<Rightarrow> within S w0 w
         | Inr q \<Rightarrow> within S w0 w \<and> is_absolute p \<and> q = canonical_path (locate (w_cwd w0) p) \<and>
             private_dir w (locate (w_cwd w0) p)) E" for E
    by (rule triple_attempt, rule triple_weaken [OF prepare_root_triple [OF p]]) auto
  show ?case
    unfolding first_usable.simps
  proof (rule triple_andthen [OF try_p])
    fix r
    show "triple (\<lambda>w. case r of Inl e \<Rightarrow> within S w0 w
         | Inr q \<Rightarrow> within S w0 w \<and> is_absolute p \<and> q = canonical_path (locate (w_cwd w0) p) \<and>
             private_dir w (locate (w_cwd w0) p))
      (case r of Inr p \<Rightarrow> ok p | Inl _ \<Rightarrow> first_usable ps)
      (\<lambda>r w. within S w0 w \<and> (\<exists>p \<in> set (p # ps). is_absolute p \<and> r = canonical_path (locate (w_cwd w0) p) \<and>
        private_dir w (locate (w_cwd w0) p))) (\<lambda>_. within S w0)"
      by (cases r) (auto intro!: triple_ok triple_post [OF rest])
  qed
qed (auto intro!: triple_err)

section \<open>Properties\<close>

text \<open>
  C15: a private directory is ensured without touching what exists.  Whatever faults the host has,
  every name that existed still stands for the same unchanged inode, every other name is on the way to
  the directory, and a success means that the place is a real directory of the current user with no
  permission for others.
\<close>

theorem ensure_private_directory_safe:
  assumes "wf_world w" "ensure_private_directory p w = (r, w')"
  shows "(\<forall>q i. lookup w q = Some i \<longrightarrow> lookup w' q = Some i \<and> w_inodes w' i = w_inodes w i) \<and>
    (\<forall>q. lookup w' q \<noteq> lookup w q \<longrightarrow> prefix q (locate (w_cwd w) p)) \<and>
    (r = Inr () \<longrightarrow> private_dir w' (locate (w_cwd w) p))"
proof -
  define S where "S = names_only (missing_on w (locate (w_cwd w) p))"
  have t: "triple (within S w) (ensure_private_directory p)
     (\<lambda>_ w'. within S w w' \<and> private_dir w' (locate (w_cwd w) p)) (\<lambda>_. within S w)"
    by (rule ensure_directory_triple) (simp add: S_def)
  have w': "within S w w'" and priv: "r = Inr () \<Longrightarrow> private_dir w' (locate (w_cwd w) p)"
    using triple_Inr [OF t within_refl [OF assms(1)]] triple_Inl [OF t within_refl [OF assms(1)]] assms(2)
    by (cases r; auto)+
  have "lookup w' q = Some i \<and> w_inodes w' i = w_inodes w i" if "lookup w q = Some i" for q i
    using withinD(10,11) [OF w'] assms(1) that by (auto simp: S_def missing_on_def wf_world_def)
  moreover have "prefix q (locate (w_cwd w) p)" if "lookup w' q \<noteq> lookup w q" for q
    using withinD(10) [OF w', of q] that by (auto simp: S_def missing_on_def)
  ultimately show ?thesis using priv by blast
qed

text \<open>A small host without faults: a root directory and a private directory \<open>/run\<close> of user 1000.\<close>

definition demo_dir :: inode where
  "demo_dir = \<lparr>in_kind = Directory, in_uid = 1000, in_mode = 448\<rparr>"

definition demo_world :: world where
  "demo_world =
     \<lparr>w_names = [([], 0), ([''run''], 1)], w_inodes = (\<lambda>i. if i < 2 then Some demo_dir else None), w_next = 2,
      w_fds = (\<lambda>_. None), w_locks = (\<lambda>_. None), w_listening = (\<lambda>_. False), w_tick = 0,
      w_faults = (\<lambda>_. None), w_euid = 1000, w_umask = 18, w_pid = 42, w_cwd = [],
      w_env = (\<lambda>n. if n = ''CODEX_VAULT_RUNTIME_DIR'' \<or> n = ''CODEX_VAULT_HOME'' then Some ''/run/vault'' else None),
      w_clock = Some 5, w_stdout = []\<rparr>"

lemma demo_wf: "wf_world demo_world"
  by (simp add: wf_world_def demo_world_def lookup_def)

theorem ensure_private_directory_safe_witness:
  "private_dir (snd (ensure_private_directory (parse_path ''/run/vault'') demo_world)) [''run'', ''vault'']"
proof -
  have "fst (ensure_private_directory (parse_path ''/run/vault'') demo_world) = Inr ()" by code_simp
  moreover have "locate (w_cwd demo_world) (parse_path ''/run/vault'') = [''run'', ''vault'']" by code_simp
  ultimately show ?thesis
    using ensure_private_directory_safe [OF demo_wf, of "parse_path ''/run/vault''"]
    by (metis prod.collapse)
qed

text \<open>
  C16: an explicit runtime root is never replaced by another.  With \<open>CODEX_VAULT_RUNTIME_DIR\<close> set, the
  selection changes at most missing names on the way to that directory, whatever the result, and a
  success returns it, absolute, canonical and private.
\<close>

theorem explicit_runtime_root_only:
  assumes "wf_world w" "w_env w ''CODEX_VAULT_RUNTIME_DIR'' = Some s" "select_runtime_root w = (r, w')"
  shows "(\<forall>q. lookup w' q \<noteq> lookup w q \<longrightarrow> lookup w q = None \<and> prefix q (locate (w_cwd w) (parse_path s))) \<and>
    (\<forall>p. r = Inr p \<longrightarrow> is_absolute (parse_path s) \<and> p = canonical_path (locate (w_cwd w) (parse_path s)) \<and>
       private_dir w' (locate (w_cwd w) (parse_path s)))"
proof -
  let ?p = "parse_path s"
  define S where "S = names_only (missing_on w (locate (w_cwd w) ?p))"
  have run: "prepare_runtime_root ?p w = (r, w')"
    using assms(2,3) by (simp add: select_runtime_root_def select_runtime_root_from_def env_path_def)
  have t: "triple (within S w) (prepare_runtime_root ?p)
     (\<lambda>r w'. within S w w' \<and> is_absolute ?p \<and> r = canonical_path (locate (w_cwd w) ?p) \<and>
        private_dir w' (locate (w_cwd w) ?p)) (\<lambda>_. within S w)"
    by (rule prepare_root_triple) (simp add: S_def)
  have w': "within S w w'"
    using triple_Inr [OF t within_refl [OF assms(1)]] triple_Inl [OF t within_refl [OF assms(1)]] run
    by (cases r; auto)
  have "lookup w q = None \<and> prefix q (locate (w_cwd w) ?p)" if "lookup w' q \<noteq> lookup w q" for q
  proof -
    have "q \<in> sc_names S" using withinD(10) [OF w', of q] that by blast
    then show ?thesis by (simp add: S_def missing_on_def)
  qed
  then show ?thesis using triple_Inr [OF t within_refl [OF assms(1)]] run by blast
qed

theorem explicit_runtime_root_only_witness:
  "fst (select_runtime_root demo_world) = Inr (canonical_path [''run'', ''vault'']) \<and>
   private_dir (snd (select_runtime_root demo_world)) [''run'', ''vault'']"
proof -
  have "fst (select_runtime_root demo_world) = Inr (canonical_path [''run'', ''vault''])" by code_simp
  moreover have "w_env demo_world ''CODEX_VAULT_RUNTIME_DIR'' = Some ''/run/vault''" by code_simp
  moreover have "locate (w_cwd demo_world) (parse_path ''/run/vault'') = [''run'', ''vault'']" by code_simp
  ultimately show ?thesis
    using explicit_runtime_root_only [OF demo_wf _ prod.collapse [symmetric], of "''/run/vault''"] by simp
qed

end
