(* ===== verification/Writer_Frame.thy ===== *)
theory Writer_Frame
  imports Vault_Writer Result_Triples
begin

text \<open>
  What the vault writer does to the state of its sink besides appending: nothing its sink operations
  do not do.  An invariant of the sink's \<open>write_all\<close> and \<open>flush\<close> is one of every writer operation.
\<close>

definition over_sink :: "'h \<Rightarrow> ('s \<Rightarrow> bool) \<Rightarrow> 'h vault_writer \<times> 's \<Rightarrow> bool" where
  "over_sink h J = (\<lambda>(w, s). (vw_inner w = Some h \<or> vw_inner w = None) \<and> J s)"

definition sink_keeps :: "('h, 's) write_ops \<Rightarrow> 'h \<Rightarrow> ('s \<Rightarrow> bool) \<Rightarrow> bool" where
  "sink_keeps W h J \<longleftrightarrow>
     (\<forall>b. triple J (op_write_all W h b) (\<lambda>_. J) (\<lambda>_. J)) \<and> triple J (op_flush W h) (\<lambda>_. J) (\<lambda>_. J)"

lemma sink_keepsD:
  assumes "sink_keeps W h J" "J s"
  shows "op_write_all W h b s = (r, s') \<Longrightarrow> J s'" "op_flush W h s = (r, s') \<Longrightarrow> J s'"
  using assms triple_result [of J "op_write_all W h b" J s r s'] triple_result [of J "op_flush W h" J s r s']
  by (simp_all add: sink_keeps_def)

lemma over_sink_pending [simp]: "over_sink h J (w\<lparr>vw_pending := p\<rparr>, s) = over_sink h J (w, s)"
  by (simp add: over_sink_def)

lemma write_frame_keeps:
  assumes "sink_keeps W h J"
  shows "triple (over_sink h J) (vw_write_frame A W ty p) (\<lambda>_. over_sink h J) (\<lambda>_. over_sink h J)"
proof (rule triple_fun')
  fix st r st' assume "over_sink h J st" "vw_write_frame A W ty p st = (r, st')"
  moreover have "J s'" if "J s" "op_write_all W h b s = (q, s')" for b s q s'
    using sink_keepsD(1) [OF assms that] .
  ultimately show "over_sink h J st'"
    unfolding over_sink_def vw_write_frame_def
    by (auto split: prod.splits if_splits sum.splits option.splits) meson+
qed

lemma emit_keeps:
  assumes "sink_keeps W h J"
  shows "triple (over_sink h J) (andthen (action_err f (vw_write_frame A W ty p)) (\<lambda>_. ok x))
    (\<lambda>_. over_sink h J) (\<lambda>_. over_sink h J)"
  by (rule triple_andthen [where R = "\<lambda>_. over_sink h J"], rule triple_action_err,
      rule write_frame_keeps [OF assms], rule triple_ok)

lemma fill_pending_keeps:
  assumes "sink_keeps W h J"
  shows "triple (over_sink h J) (vw_fill_pending A W input) (\<lambda>_. over_sink h J) (\<lambda>_. over_sink h J)"
proof (rule triple_fun')
  fix st r st' assume st: "over_sink h J st" "vw_fill_pending A W input st = (r, st')"
  obtain w s where [simp]: "st = (w, s)" by fastforce
  show "over_sink h J st'"
    using st triple_result [OF emit_keeps [OF assms], of "(w\<lparr>vw_pending := []\<rparr>, s)"]
    by (cases st') (auto simp: vw_fill_pending_def Let_def split: if_splits)
qed

lemma write_chunks_keeps:
  assumes "sink_keeps W h J"
  shows "over_sink h J st \<Longrightarrow> vw_write_chunks A W input st = (r, st') \<Longrightarrow> over_sink h J st'"
proof (induction input arbitrary: st rule: measure_induct_rule [where f = length])
  case (less input)
  obtain x st1 where f: "vw_write_frame A W data_frame (take chunk_size input) st = (x, st1)"
    by (rule prod.exhaust)
  have st1: "over_sink h J st1" by (rule triple_result [OF write_frame_keeps [OF assms] less.prems(1) f])
  show ?case
  proof (cases "chunk_size \<le> length input \<and> is_ok x")
    case True
    then have "vw_write_chunks A W (drop chunk_size input) st1 = (r, st')"
      using less.prems(2) f by (auto simp: vw_write_chunks.simps [of A W input st] is_ok_def split: sum.splits)
    moreover have "length (drop chunk_size input) < length input"
      using True by (simp add: chunk_size_def) linarith
    ultimately show ?thesis using less.IH st1 by blast
  next
    case False
    then have "st' = st \<or> st' = st1"
      using less.prems(2) f
      by (auto simp: vw_write_chunks.simps [of A W input st] is_ok_def split: sum.splits if_splits)
    then show ?thesis using less.prems(1) st1 by auto
  qed
qed

lemma write_keeps:
  assumes "sink_keeps W h J"
  shows "triple (over_sink h J) (vw_write A W input) (\<lambda>_. over_sink h J) (\<lambda>_. over_sink h J)"
proof (rule triple_fun')
  fix st r st' assume st: "over_sink h J st" "vw_write A W input st = (r, st')"
  have "triple (over_sink h J) (vw_write_chunks A W rest) (\<lambda>_. over_sink h J) (\<lambda>_. over_sink h J)" for rest
    by (rule triple_fun') (rule write_chunks_keeps [OF assms])
  then have "triple (over_sink h J) (andthen (vw_fill_pending A W input)
       (\<lambda>rest. andthen (vw_write_chunks A W rest)
         (\<lambda>rest. andthen (vw_keep_pending rest) (\<lambda>_. ok (length input))))) (\<lambda>_. over_sink h J) (\<lambda>_. over_sink h J)"
    by (intro triple_andthen [OF fill_pending_keeps [OF assms]] triple_andthen [where R = "\<lambda>_. over_sink h J"]
          triple_ok) (auto simp: vw_keep_pending_def triple_def)
  from triple_result [OF this st(1)] show "over_sink h J st'"
    using st by (auto simp: vw_write_def split: if_splits prod.splits)
qed

lemma write_list_keeps:
  assumes "sink_keeps W h J"
  shows "triple (over_sink h J) (vw_write_list A W xs) (\<lambda>_. over_sink h J) (\<lambda>_. over_sink h J)"
proof (induction xs)
  case (Cons x xs)
  have "triple (over_sink h J) (vw_write_all A W x) (\<lambda>_. over_sink h J) (\<lambda>_. over_sink h J)"
    unfolding vw_write_all_def
    by (rule triple_if, rule triple_ok, assumption,
        rule triple_andthen [OF write_keeps [OF assms]], rule triple_ok, assumption)
  then show ?case using Cons unfolding vw_write_list.simps by (blast intro: triple_andthen)
qed (simp add: triple_def)

lemma finish_keeps:
  assumes "sink_keeps W h J"
  shows "triple (over_sink h J) (vw_finish A W) (\<lambda>r st. r = h \<and> over_sink h J st) (\<lambda>_. over_sink h J)"
proof -
  have pending: "triple (over_sink h J) (vw_finish_pending A W) (\<lambda>_. over_sink h J) (\<lambda>_. over_sink h J)"
  proof (rule triple_fun')
    fix st r st' assume st: "over_sink h J st" "vw_finish_pending A W st = (r, st')"
    then show "over_sink h J st'"
      using triple_result [OF write_frame_keeps [OF assms], of "(fst st\<lparr>vw_pending := []\<rparr>, snd st)"]
      by (auto simp: vw_finish_pending_def split: if_splits prod.splits)
  qed
  have inner: "triple (over_sink h J) (vw_finish_inner W) (\<lambda>r st. r = h \<and> over_sink h J st) (\<lambda>_. over_sink h J)"
  proof (rule tripleI)
    fix st r st' assume "over_sink h J st" "vw_finish_inner W st = (Inr r, st')"
    then show "r = h \<and> over_sink h J st'"
      using sink_keepsD(2) [OF assms]
      by (auto simp: vw_finish_inner_def over_sink_def split: option.splits sum.splits prod.splits)
  next
    fix st e st' assume "over_sink h J st" "vw_finish_inner W st = (Inl e, st')"
    then show "over_sink h J st'"
      using sink_keepsD(2) [OF assms]
      by (auto simp: vw_finish_inner_def over_sink_def split: option.splits sum.splits prod.splits)
  qed
  show ?thesis
    unfolding vw_finish_def
    by (rule triple_andthen [OF pending], rule triple_andthen [OF write_frame_keeps [OF assms]], rule inner)
qed

lemma writer_new_keeps:
  assumes "sink_keeps W h J" "triple J (fill nonce_seed_length) (\<lambda>_. J) (\<lambda>_. J)"
  shows "triple J (vault_writer_new A W fill h key) (\<lambda>w s. over_sink h J (w, s)) (\<lambda>_. J)"
proof -
  have "triple J (op_write_all W h b) (\<lambda>_. J) (\<lambda>_. J)" for b
    using assms(1) by (simp add: sink_keeps_def)
  then show ?thesis
    unfolding vault_writer_new_def
    by (intro triple_andthen [OF triple_action_err [OF assms(2)]]
          triple_andthen [OF triple_action_err] triple_if triple_err triple_ok)
       (auto simp: over_sink_def)
qed

end
