(* ===== verification/Stream_Soundness.thy ===== *)
theory Stream_Soundness
  imports Stream_Grammar
begin

text \<open>
  What a finished reader proves about its input when others drive it.  However the reads of an archive
  are sized and interleaved, as long as each of them succeeds, \<open>verify_finished\<close> succeeds only when the
  whole input is a vault of the grammar and no read of it failed.  The invariant \<open>reading\<close> carries
  this through the operations; it does not need the source to be free of errors.
\<close>

section \<open>Sources with errors\<close>

text \<open>No read delivers nothing before the end, and none is interrupted.\<close>

definition tame_source :: "source \<Rightarrow> bool" where
  "tame_source es \<longleftrightarrow> (\<forall>e \<in> set es. case e of Chunk b \<Rightarrow> b \<noteq> [] | Fail e \<Rightarrow> io_kind e \<noteq> Interrupted)"

fun source_fails :: "source \<Rightarrow> io_error list" where
  "source_fails [] = []"
| "source_fails (Fail e # es) = e # source_fails es"
| "source_fails (Chunk b # es) = source_fails es"

lemma tame_source_simps [simp]:
  "tame_source []" "tame_source (Chunk b # es) \<longleftrightarrow> b \<noteq> [] \<and> tame_source es"
  "tame_source (Fail e # es) \<longleftrightarrow> io_kind e \<noteq> Interrupted \<and> tame_source es"
  by (auto simp: tame_source_def)

lemma read_exact_tame:
  "tame_source es \<Longrightarrow> read_exact n es = (Inr r, es') \<Longrightarrow> tame_source es' \<and> source_fails es' = source_fails es"
proof (induction n es arbitrary: r es' rule: read_exact.induct)
  case (3 n b es)
  show ?case
  proof (cases "n \<noteq> 0 \<and> length b \<le> n")
    case True
    then obtain r0 where "read_exact (n - length b) es = (Inr r0, es')"
      using "3.prems" by (cases "read_exact (n - length b) es") (auto split: sum.splits)
    then show ?thesis using "3.IH" True "3.prems" by auto
  qed (use "3.prems" in \<open>auto split: if_splits\<close>)
qed (auto split: if_splits)

lemma read_once_tame:
  assumes "tame_source es" "0 < n" "read_once n es = (x, es')"
  shows "(\<forall>r. x = Inr r \<longrightarrow> tame_source es' \<and> source_fails es' = source_fails es \<and>
      (r = [] \<longrightarrow> source_data es = [] \<and> source_fails es = [])) \<and>
    (\<forall>e. x = Inl e \<longrightarrow> io_kind e \<noteq> Interrupted)"
  using assms by (cases es rule: source_data.cases) (auto split: if_splits)

section \<open>The invariant\<close>

text \<open>
  A reader on its way through \<open>body\<close>: if what is left is accepted from here then the whole is accepted,
  and a finalized reader has accepted the whole.
\<close>

definition reading :: "aead \<Rightarrow> bytes \<Rightarrow> bytes \<Rightarrow> bytes \<Rightarrow> io_error list \<Rightarrow> vault_reader \<Rightarrow> bool" where
  "reading A key seed body fails r \<longleftrightarrow>
     vr_cipher r = key \<and> vr_nonce_seed r = seed \<and> vr_file_header r = file_header_of seed \<and>
     tame_source (vr_inner r) \<and> source_fails (vr_inner r) = fails \<and>
     (if vr_finalized r then fails = [] \<and> (\<exists>ps. stream_frames A key seed 0 ps body)
      else \<forall>ps. stream_frames A key seed (vr_sequence r) ps (source_data (vr_inner r)) \<longrightarrow>
             (\<exists>ps'. stream_frames A key seed 0 ps' body))"

lemma opened_frame:
  assumes "vr_nonce_seed r = seed" "vr_cipher r = key" "vr_file_header r = file_header_of seed"
    and "length h = 9" "vr_check_header r h = Inr ()" "length c = header_length h + tag_length"
    and "vr_open_frame A r h c = Inr p"
  shows "frame_ok A key seed (vr_sequence r) (header_type h) h c p"
proof -
  have "reader_at key seed (set_inner [] r)" using assms(1-3) by (simp add: reader_at_def)
  moreover have "vr_check_header (set_inner [] r) h = Inr ()" using assms(5) by (simp add: vr_check_header_def)
  moreover have "vr_open_frame A (set_inner [] r) h c = Inr p"
    using assms(7) unfolding vr_open_frame_def set_inner_simps .
  ultimately show ?thesis using open_frame_iff [of key seed "set_inner [] r" h c A p] assms(4,6) by simp
qed

lemma next_frame_reading:
  assumes rd: "reading A key seed body fails r" and nf: "\<not> vr_finalized r"
    and run: "vr_next_frame A r = (Inr u, r')"
  shows "reading A key seed body fails r'"
proof -
  have fld: "vr_cipher r = key" "vr_nonce_seed r = seed" "vr_file_header r = file_header_of seed"
    "tame_source (vr_inner r)" "source_fails (vr_inner r) = fails"
    and go: "\<And>ps. stream_frames A key seed (vr_sequence r) ps (source_data (vr_inner r)) \<Longrightarrow>
      \<exists>ps'. stream_frames A key seed 0 ps' body"
    using rd nf by (auto simp: reading_def)
  obtain h es c es' p where h: "read_exact frame_header_length (vr_inner r) = (Inr h, es)"
    and chk: "vr_check_header r h = Inr ()"
    and c: "read_exact (header_length h + tag_length) es = (Inr c, es')"
    and opn: "vr_open_frame A r h c = Inr p"
    and acc: "vr_accept_frame (header_type h) p ((set_inner es' r)\<lparr>vr_sequence := vr_sequence r + 1\<rparr>) = (Inr u, r')"
    using run by (auto simp: vr_next_frame_def split: sum.splits prod.splits)
  have lens: "length h = 9" "length c = header_length h + tag_length"
    and data: "source_data (vr_inner r) = h @ c @ source_data es'"
    using read_exact_Inr [OF h] read_exact_Inr [OF c] by (auto simp: layout_simps)
  have tame: "tame_source es'" "source_fails es' = fails"
    using read_exact_tame [OF _ h] read_exact_tame [OF _ c] fld(4,5) by auto
  have ok: "frame_ok A key seed (vr_sequence r) (header_type h) h c p"
    by (rule opened_frame [OF fld(2,1,3) lens(1) chk lens(2) opn])
  show ?thesis
  proof (cases "header_type h = final_frame")
    case True
    then obtain es2 where ro: "read_once 1 es' = (Inr [], es2)"
      and r': "r' = (set_inner es2 ((set_inner es' r)\<lparr>vr_sequence := vr_sequence r + 1\<rparr>))
          \<lparr>vr_finalized := True, vr_plaintext := []\<rparr>"
      using acc by (auto simp: vr_accept_frame_def split: sum.splits prod.splits if_splits)
    note end' = read_once_tame [OF tame(1) _ ro]
    have "source_data (vr_inner r) = h @ c" "fails = []" using data end' tame(2) by auto
    moreover have "\<exists>ps'. stream_frames A key seed 0 ps' body"
      using go [of "[]"] stream_frames.final [OF ok [unfolded True]] calculation(1) by simp
    ultimately show ?thesis using fld tame end' by (auto simp: reading_def r')
  next
    case False
    then have ty: "header_type h = data_frame" using check_header_type [OF chk] by simp
    then have r': "r' = ((set_inner es' r)\<lparr>vr_sequence := vr_sequence r + 1\<rparr>)
        \<lparr>vr_plaintext := p, vr_plaintext_offset := 0\<rparr>"
      using acc by simp
    have "\<exists>ps'. stream_frames A key seed 0 ps' body"
      if "stream_frames A key seed (vr_sequence r + 1) ps (source_data es')" for ps
      using go [of "p # ps"] stream_frames.data [OF ok [unfolded ty] that] data by simp
    then show ?thesis using fld tame nf by (auto simp: reading_def r')
  qed
qed

lemma next_frame_error:
  assumes "tame_source (vr_inner r)" "vr_next_frame A r = (Inl e, r')"
  shows "io_kind e \<noteq> Interrupted"
proof -
  have "io_kind e \<noteq> Interrupted" if "vr_check_header r h = Inl e" for h e
    using that by (auto simp: vr_check_header_def Let_def split: if_splits)
  moreover have "io_kind e \<noteq> Interrupted" if "vr_open_frame A r h c = Inl e" for h c e
    using that by (auto simp: vr_open_frame_def split: sum.splits option.splits if_splits)
  moreover have "io_kind e \<noteq> Interrupted"
    if "vr_accept_frame ty p r1 = (Inl e, r2)" "tame_source (vr_inner r1)" for ty p r1 r2 e
    using that read_once_tame [of "vr_inner r1" 1] by (auto simp: vr_accept_frame_def split: if_splits sum.splits prod.splits)
  moreover have "tame_source es'" if "read_exact frame_header_length (vr_inner r) = (Inr h, es)"
      "read_exact k es = (Inr c, es')" for h es k c es'
    using read_exact_tame [OF _ that(1)] read_exact_tame [OF _ that(2)] assms(1) by auto
  ultimately show ?thesis
    using assms(2) by (auto simp: vr_next_frame_def split: sum.splits prod.splits)
qed

lemma fill_reading:
  assumes "reading A key seed body fails r" "vr_fill A r = (x, r')"
  shows "(\<forall>u. x = Inr u \<longrightarrow> reading A key seed body fails r') \<and> (\<forall>e. x = Inl e \<longrightarrow> io_kind e \<noteq> Interrupted)"
  using assms
proof (induction A r rule: vr_fill.induct)
  case (1 A r)
  show ?case
  proof (cases "length (vr_plaintext r) \<le> vr_plaintext_offset r \<and> \<not> vr_finalized r")
    case True
    obtain y r1 where nf: "vr_next_frame A r = (y, r1)" by fastforce
    show ?thesis
    proof (cases y)
      case (Inl e)
      then show ?thesis
        using "1.prems" nf True next_frame_error [of r A e r1] by (auto simp: vr_fill.simps [of A r] reading_def)
    next
      case (Inr u)
      then have "vr_fill A r1 = (x, r')" using "1.prems"(2) nf True by (simp add: vr_fill.simps [of A r])
      moreover have "reading A key seed body fails r1"
        using next_frame_reading [OF "1.prems"(1)] True nf Inr by simp
      ultimately show ?thesis using "1.IH" [OF True nf [symmetric] Inr] by blast
    qed
  next
    case False
    then show ?thesis using "1.prems" by (auto simp: vr_fill.simps [of A r])
  qed
qed

lemma read_reading:
  assumes "reading A key seed body fails r" "vr_read A n r = (x, r')"
  shows "(\<forall>b. x = Inr b \<longrightarrow> reading A key seed body fails r') \<and> (\<forall>e. x = Inl e \<longrightarrow> io_kind e \<noteq> Interrupted)"
proof (cases "n = 0")
  case False
  obtain y r1 where f: "vr_fill A r = (y, r1)" by fastforce
  have off: "reading A key seed body fails (r1\<lparr>vr_plaintext_offset := k\<rparr>) = reading A key seed body fails r1" for k
    by (simp add: reading_def)
  show ?thesis
    using fill_reading [OF assms(1) f] assms(2) f False off
    by (auto simp: vr_read_def Let_def split: sum.splits if_splits)
qed (use assms in \<open>auto simp: vr_read_def\<close>)

lemma copy_reading:
  "reading A key seed body fails r \<Longrightarrow> vr_copy A n acc r = (Inr out, r') \<Longrightarrow> reading A key seed body fails r'"
proof (induction A n acc r arbitrary: out rule: vr_copy.induct)
  case (1 A n acc r)
  obtain x r1 where rd: "vr_read A n r = (x, r1)" by fastforce
  note inv = read_reading [OF "1.prems"(1) rd]
  show ?case
  proof (cases x)
    case (Inl e)
    then show ?thesis using "1.prems"(2) inv rd by (subst (asm) vr_copy.simps) auto
  next
    case (Inr b)
    then show ?thesis
      using "1.prems"(2) inv rd "1.IH"(2) [OF rd [symmetric] Inr, of out]
      by (cases "b = []"; subst (asm) vr_copy.simps) auto
  qed
qed

section \<open>Soundness\<close>

text \<open>Reads that succeed, of any sizes.\<close>

inductive reads_to :: "aead \<Rightarrow> vault_reader \<Rightarrow> vault_reader \<Rightarrow> bool" for A :: aead where
  same: "reads_to A r r"
| step: "vr_read A n r = (Inr b, r') \<Longrightarrow> reads_to A r' r'' \<Longrightarrow> reads_to A r r''"

lemma reads_to_reading: "reads_to A r r' \<Longrightarrow> reading A key seed body fails r \<Longrightarrow> reading A key seed body fails r'"
  by (induction rule: reads_to.induct) (use read_reading in blast)+

lemma reads_to_trans: "reads_to A r r' \<Longrightarrow> reads_to A r' r'' \<Longrightarrow> reads_to A r r''"
  by (induction rule: reads_to.induct) (auto intro: reads_to.step)

lemma new_reading:
  assumes "vault_reader_new A es key = Inr r" "tame_source es"
  obtains seed body where "length seed = nonce_seed_length" "source_data es = file_header_of seed @ body"
    "aead_key_ok A key" "reading A key seed body (source_fails es) r"
proof -
  obtain fh es' where fh: "read_exact file_header_length es = (Inr fh, es')"
    and mg: "take (length magic) fh = magic" and k: "aead_key_ok A key"
    and r: "r = \<lparr>vr_inner = es', vr_cipher = key, vr_file_header = fh,
        vr_nonce_seed = drop (length magic) fh, vr_plaintext = [],
        vr_plaintext_offset = 0, vr_sequence = 0, vr_finalized = False\<rparr>"
    using assms(1) by (auto simp: vault_reader_new_def split: sum.splits prod.splits if_splits)
  let ?seed = "drop (length magic) fh"
  have eq: "fh = file_header_of ?seed" by (metis append_take_drop_id file_header_of_def mg)
  have "length ?seed = nonce_seed_length" "source_data es = file_header_of ?seed @ source_data es'"
    using read_exact_Inr [OF fh] eq by (auto simp: layout_simps)
  moreover have "reading A key ?seed (source_data es') (source_fails es) r"
    using read_exact_tame [OF assms(2) fh] eq by (auto simp: reading_def r)
  ultimately show thesis using that k by blast
qed

text \<open>The main lemma: opened, read by anyone through successful reads, and verified finished.\<close>

lemma verified_stream:
  assumes "vault_reader_new A es key = Inr r" "tame_source es"
    and "reads_to A r r'" "vr_verify_finished A r' = Inr ()"
  shows "source_fails es = [] \<and> (\<exists>ps. accepts_vault A key ps (source_data es))"
proof -
  obtain seed body where seed: "length seed = nonce_seed_length" "source_data es = file_header_of seed @ body"
      "aead_key_ok A key" and rd: "reading A key seed body (source_fails es) r"
    by (rule new_reading [OF assms(1,2)])
  obtain out r2 where cp: "vr_copy A copy_buffer [] r' = (Inr out, r2)" and fin: "vr_finalized r2"
    using assms(4) by (auto simp: vr_verify_finished_def split: sum.splits prod.splits if_splits)
  have "reading A key seed body (source_fails es) r2"
    by (rule copy_reading [OF reads_to_reading [OF assms(3) rd] cp])
  then show ?thesis using fin seed by (auto simp: reading_def accepts_vault_def)
qed

text \<open>Reading to the end without an error always ends at the final frame.\<close>

lemma vr_fill_filled:
  "vr_fill A r = (Inr u, r') \<Longrightarrow> vr_finalized r' \<or> vr_plaintext_offset r' < length (vr_plaintext r')"
proof (induction A r rule: vr_fill.induct)
  case (1 A r)
  show ?case
  proof (cases "length (vr_plaintext r) \<le> vr_plaintext_offset r \<and> \<not> vr_finalized r")
    case True
    then obtain v r1 where "vr_next_frame A r = (Inr v, r1)" "vr_fill A r1 = (Inr u, r')"
      using "1.prems" by (subst (asm) vr_fill.simps) (auto split: sum.splits prod.splits)
    then show ?thesis using "1.IH" [OF True] by auto
  next
    case False
    then show ?thesis using "1.prems" by (subst (asm) vr_fill.simps) auto
  qed
qed

lemma vr_copy_finished: "vr_copy A n acc r = (Inr out, r') \<Longrightarrow> 0 < n \<Longrightarrow> vr_finalized r'"
proof (induction A n acc r arbitrary: out rule: vr_copy.induct)
  case (1 A n acc r)
  obtain x r1 where rd: "vr_read A n r = (x, r1)" by fastforce
  show ?case
  proof (cases x)
    case (Inl e)
    then show ?thesis using "1.prems" "1.IH"(1) [OF rd [symmetric] Inl]
      by (subst (asm) (1) vr_copy.simps) (auto simp: rd split: if_splits)
  next
    case (Inr b)
    show ?thesis
    proof (cases "b = []")
      case True
      then have "r' = r1" using "1.prems"(1) Inr rd by (subst (asm) vr_copy.simps) simp
      moreover have "vr_finalized r1"
        using rd Inr True "1.prems"(2) vr_fill_filled [of A r]
        by (fastforce simp: vr_read_def Let_def split: prod.splits sum.splits if_splits)
      ultimately show ?thesis by simp
    next
      case False
      then have "vr_copy A n (acc @ b) r1 = (Inr out, r')"
        using "1.prems"(1) Inr rd by (subst (asm) vr_copy.simps) simp
      then show ?thesis using "1.IH"(2) [OF rd [symmetric] Inr False] "1.prems"(2) by blast
    qed
  qed
qed

text \<open>A vault of the grammar is opened and verified finished.\<close>

lemma accepted_verifies:
  assumes "plain_source es" "accepts_vault A key ps (source_data es)"
  obtains r where "vault_reader_new A es key = Inr r" "vr_verify_finished A r = Inr ()"
proof -
  have pos: "0 < copy_buffer" by (simp add: copy_buffer_def)
  have "read_vault A copy_buffer key es = Inr (concat ps)"
    using read_vault_iff [OF assms(1) pos] assms(2) by blast
  then obtain r where r: "vault_reader_new A es key = Inr r" "fst (vr_copy A copy_buffer [] r) = Inr (concat ps)"
    by (auto simp: read_vault_def split: sum.splits)
  obtain r' where cp: "vr_copy A copy_buffer [] r = (Inr (concat ps), r')"
    using r(2) by (cases "vr_copy A copy_buffer [] r") simp
  then have "vr_verify_finished A r = Inr ()"
    using vr_copy_finished [OF cp pos] cp by (simp add: vr_verify_finished_def)
  then show thesis using that r(1) by blast
qed

end
