(* ===== verification/Crates.thy ===== *)
theory Crates
  imports Config_Paths Writer_Frame Stream_Soundness Key_Wrap
begin

text \<open>
  The third-party crates that act on the host, as parameters: \<open>uuid\<close> and \<open>getrandom\<close> drawing values,
  \<open>tar\<close> packing and unpacking directories, \<open>tempfile\<close> creating directories, \<open>fs2\<close> locking files and
  \<open>serde_json\<close> on manifests, each with what its documentation promises as a named condition.
\<close>

section \<open>Random values\<close>

definition fresh_uuid :: "uuid_lib \<Rightarrow> (world, 'e, string) action" where
  "fresh_uuid U = (\<lambda>w.
     (Inr (uuid_to_string U (uuid_new_v4 U (w_tick w))), w\<lparr>w_tick := Suc (w_tick w)\<rparr>))"

text \<open>\<open>getrandom::fill\<close>: what the host's random source gives at a tick for a buffer of a length.\<close>

type_synonym random_source = "nat \<Rightarrow> nat \<Rightarrow> bytes option"

definition random_fills :: "random_source \<Rightarrow> bool" where
  "random_fills R \<longleftrightarrow> (\<forall>t n b. R t n = Some b \<longrightarrow> length b = n)"

definition os_random :: "random_source \<Rightarrow> world entropy" where
  "os_random R n = (\<lambda>w.
     (case R (w_tick w) n of None \<Rightarrow> Inl () | Some b \<Rightarrow> Inr b, w\<lparr>w_tick := Suc (w_tick w)\<rparr>))"

lemma os_random_fills: "random_fills R \<Longrightarrow> entropy_fills (os_random R)"
  by (auto simp: entropy_fills_def random_fills_def os_random_def split: option.splits)

lemma os_random_triple: "tick_closed P \<Longrightarrow> triple P (os_random R n) (\<lambda>_. P) (\<lambda>_. P)"
  by (rule triple_fun') (auto simp: os_random_def tick_closed_def)

lemma fresh_uuid_triple: "tick_closed P \<Longrightarrow> triple P (fresh_uuid U) (\<lambda>_. P) (\<lambda>_. P)"
  by (rule triple_fun') (auto simp: fresh_uuid_def tick_closed_def)

text \<open>A UUID in its textual form is a name, and makes one of a temporary file.\<close>

lemma uuid_char_safe: "is_uuid_byte (of_char c) \<Longrightarrow> c \<noteq> CHR ''/'' \<and> c \<noteq> CHR ''.''"
  by (auto simp: is_uuid_byte_def is_ascii_digit_def)

lemma uuid_simple_name:
  assumes "uuid_prints U" "length u = 16"
  shows "simple_name (uuid_to_string U u)"
proof -
  have s: "length (uuid_to_string U u) = 36"
    "\<forall>c \<in> set (uuid_to_string U u). is_uuid_byte (of_char c)"
    using assms by (auto simp: uuid_prints_def)
  have "uuid_to_string U u \<noteq> ''.''" "uuid_to_string U u \<noteq> ''..''" using s(1) by auto
  moreover have "uuid_to_string U u \<noteq> []" using s(1) by auto
  ultimately show ?thesis using s(2) uuid_char_safe by (auto simp: simple_name_def)
qed

section \<open>Archives\<close>

text \<open>
  \<open>tar::Builder\<close>: the buffers that \<open>append_dir_all(".", directory)\<close> writes before it is done or fails on
  the directory it reads, with the ticks it takes (it only reads), the buffers of the end of an
  archive, and those a builder still writes when it is dropped unfinished.  \<open>tar::Archive\<close>: a state
  over the reader, whose entries come one by one and are unpacked into a directory.
\<close>

datatype entry_type = RegularEntry | DirectoryEntry | SymlinkEntry | HardLinkEntry | OtherEntry

record tar_entry =
  te_type :: entry_type
  te_header :: bytes

record 't tar_lib =
  tar_pack :: "path \<Rightarrow> world \<Rightarrow> bytes list \<times> io_error option \<times> nat"
  tar_trailer :: "bytes list"
  tar_dropped :: "bytes list"
  tar_open :: "vault_reader \<Rightarrow> 't"
  tar_entries :: "aead \<Rightarrow> 't \<Rightarrow> (io_error + unit) \<times> 't"
  tar_next :: "aead \<Rightarrow> 't \<Rightarrow> (io_error + tar_entry option) \<times> 't"
  tar_unpack_in :: "aead \<Rightarrow> tar_entry \<Rightarrow> path \<Rightarrow> 't \<times> world \<Rightarrow> (io_error + bool) \<times> 't \<times> world"
  tar_into_inner :: "'t \<Rightarrow> vault_reader"
  tar_left :: "'t \<Rightarrow> nat"

text \<open>
  Documented: \<open>unpack_in\<close> changes nothing outside the destination; every entry takes something from
  the archive, of which \<open>tar_left\<close> bounds what is left.
\<close>

definition tar_confined :: "'t tar_lib \<Rightarrow> bool" where
  "tar_confined T \<longleftrightarrow>
     (\<forall>A e d S w0 t w r t' w'. below (locate (w_cwd w0) d) \<subseteq> sc_names S \<longrightarrow> within S w0 w \<longrightarrow>
        tar_unpack_in T A e d (t, w) = (r, t', w') \<longrightarrow> within S w0 w')"

definition tar_advances :: "'t tar_lib \<Rightarrow> bool" where
  "tar_advances T \<longleftrightarrow>
     (\<forall>A t e t'. tar_next T A t = (Inr (Some e), t') \<longrightarrow> tar_left T t' < tar_left T t) \<and>
     (\<forall>A e d t w r t' w'. tar_unpack_in T A e d (t, w) = (r, t', w') \<longrightarrow> tar_left T t' \<le> tar_left T t) \<and>
     (\<forall>A t r t'. tar_entries T A t = (r, t') \<longrightarrow> tar_left T t' \<le> tar_left T t)"

text \<open>
  Documented: an archive reads its input through \<open>Read::read\<close> only, and reports the errors of its reads.
\<close>

definition tar_reads_only :: "'t tar_lib \<Rightarrow> bool" where
  "tar_reads_only T \<longleftrightarrow>
     (\<forall>r. tar_into_inner T (tar_open T r) = r) \<and>
     (\<forall>A t x t'. tar_entries T A t = (Inr x, t') \<longrightarrow> reads_to A (tar_into_inner T t) (tar_into_inner T t')) \<and>
     (\<forall>A t x t'. tar_next T A t = (Inr x, t') \<longrightarrow> reads_to A (tar_into_inner T t) (tar_into_inner T t')) \<and>
     (\<forall>A e d t w x t' w'. tar_unpack_in T A e d (t, w) = (Inr x, t', w') \<longrightarrow>
        reads_to A (tar_into_inner T t) (tar_into_inner T t'))"

section \<open>Temporary directories\<close>

text \<open>
  \<open>tempfile\<close>: \<open>tempdir()\<close>, \<open>Builder::prefix(name).rand_bytes(0).tempdir_in(root)\<close>, and \<open>TempDir::close\<close>,
  which dropping a \<open>TempDir\<close> does too, without the error.
\<close>

record tempdir_lib =
  td_tempdir :: "path os"
  td_create_in :: "path \<Rightarrow> string \<Rightarrow> path os"
  td_close :: "path \<Rightarrow> unit os"

text \<open>
  Documented: \<open>tempdir_in\<close> creates a new, empty directory and changes no other name, \<open>close\<close> changes
  nothing outside the directory and leaves nothing of it on success.
\<close>

definition unused :: "world \<Rightarrow> names \<Rightarrow> bool" where
  "unused w q \<longleftrightarrow> (\<forall>p. prefix q p \<longrightarrow> lookup w p = None)"

definition tempdir_documented :: "tempdir_lib \<Rightarrow> bool" where
  "tempdir_documented D \<longleftrightarrow>
     (\<forall>root name S w0 w r w'. simple_name name \<longrightarrow>
        (lookup w0 (locate (w_cwd w0) root @ [name]) = None \<longrightarrow>
           locate (w_cwd w0) root @ [name] \<in> sc_names S) \<longrightarrow>
        within S w0 w \<longrightarrow> td_create_in D root name w = (r, w') \<longrightarrow>
        within S w0 w' \<and>
        (\<forall>p. r = Inr p \<longrightarrow> p = path_join root name \<and> unused w (locate (w_cwd w0) root @ [name]))) \<and>
     (\<forall>p S w0 w r w'. below (locate (w_cwd w0) p) \<subseteq> sc_names S \<longrightarrow> within S w0 w \<longrightarrow>
        td_close D p w = (r, w') \<longrightarrow>
        within S w0 w' \<and> (r = Inr () \<longrightarrow> unused w' (locate (w_cwd w0) p)))"

text \<open>A directory of \<open>tempdir()\<close> is a new one, at a missing name that begins with \<open>.tmp\<close>.\<close>

definition tempdir_fresh :: "tempdir_lib \<Rightarrow> bool" where
  "tempdir_fresh D \<longleftrightarrow>
     (\<forall>S w0 w r w'. (\<forall>q. lookup w0 q = None \<longrightarrow> q \<in> sc_names S) \<longrightarrow> within S w0 w \<longrightarrow>
        td_tempdir D w = (r, w') \<longrightarrow> within S w0 w' \<and>
        (\<forall>p. r = Inr p \<longrightarrow> unused w (locate (w_cwd w0) p) \<and>
           (\<exists>d name. locate (w_cwd w0) p = d @ [''.tmp'' @ name])))"

section \<open>File locks\<close>

text \<open>\<open>fs2\<close>: \<open>try_lock_exclusive\<close> and \<open>unlock\<close> on an open file.\<close>

record lock_lib =
  try_lock_exclusive :: "file_handle \<Rightarrow> unit os"
  unlock_file :: "file_handle \<Rightarrow> unit os"

text \<open>
  Documented: the lock of a file is taken only when no other open file holds it, and is then held by
  this one; contention is \<open>WouldBlock\<close>; unlocking gives it up; nothing else changes.
\<close>

definition locks_documented :: "lock_lib \<Rightarrow> bool" where
  "locks_documented L \<longleftrightarrow>
     (\<forall>h w r w'. try_lock_exclusive L h w = (r, w') \<longrightarrow>
        (\<exists>t \<ge> w_tick w. case r of
           Inr _ \<Rightarrow> (w_locks w (fh_ino h) = None \<or> w_locks w (fh_ino h) = Some (fh_fd h)) \<and>
              w' = w\<lparr>w_locks := (w_locks w)(fh_ino h := Some (fh_fd h)), w_tick := t\<rparr>
         | Inl e \<Rightarrow> w' = w\<lparr>w_tick := t\<rparr> \<and>
              (io_kind e = WouldBlock \<longrightarrow> w_locks w (fh_ino h) \<noteq> None \<and> w_locks w (fh_ino h) \<noteq> Some (fh_fd h)))) \<and>
     (\<forall>h w r w'. unlock_file L h w = (r, w') \<longrightarrow>
        (\<exists>t \<ge> w_tick w. case r of
           Inr _ \<Rightarrow> w' = w\<lparr>w_locks := (\<lambda>i. if i = fh_ino h \<and> w_locks w i = Some (fh_fd h) then None else w_locks w i),
                          w_tick := t\<rparr>
         | Inl e \<Rightarrow> w' = w\<lparr>w_tick := t\<rparr>))"

lemma try_lock_cases:
  assumes "locks_documented L" "try_lock_exclusive L h w = (r, w')"
  obtains (taken) t u where "r = Inr u" "w_tick w \<le> t"
      "w_locks w (fh_ino h) = None \<or> w_locks w (fh_ino h) = Some (fh_fd h)"
      "w' = w\<lparr>w_locks := (w_locks w)(fh_ino h := Some (fh_fd h)), w_tick := t\<rparr>"
  | (refused) t e where "r = Inl e" "w_tick w \<le> t" "w' = w\<lparr>w_tick := t\<rparr>"
      "io_kind e = WouldBlock \<longrightarrow> w_locks w (fh_ino h) \<noteq> None \<and> w_locks w (fh_ino h) \<noteq> Some (fh_fd h)"
proof -
  have "\<exists>t \<ge> w_tick w. case r of
           Inr _ \<Rightarrow> (w_locks w (fh_ino h) = None \<or> w_locks w (fh_ino h) = Some (fh_fd h)) \<and>
              w' = w\<lparr>w_locks := (w_locks w)(fh_ino h := Some (fh_fd h)), w_tick := t\<rparr>
         | Inl e \<Rightarrow> w' = w\<lparr>w_tick := t\<rparr> \<and>
              (io_kind e = WouldBlock \<longrightarrow> w_locks w (fh_ino h) \<noteq> None \<and> w_locks w (fh_ino h) \<noteq> Some (fh_fd h))"
    using assms unfolding locks_documented_def by blast
  then show thesis using taken refused by (cases r) auto
qed

lemma unlock_file_cases:
  assumes "locks_documented L" "unlock_file L h w = (r, w')"
  obtains (given_up) t u where "r = Inr u" "w_tick w \<le> t"
      "w' = w\<lparr>w_locks := (\<lambda>i. if i = fh_ino h \<and> w_locks w i = Some (fh_fd h) then None else w_locks w i),
              w_tick := t\<rparr>"
  | (refused) t e where "r = Inl e" "w_tick w \<le> t" "w' = w\<lparr>w_tick := t\<rparr>"
proof -
  have "\<exists>t \<ge> w_tick w. case r of
           Inr _ \<Rightarrow> w' = w\<lparr>w_locks := (\<lambda>i. if i = fh_ino h \<and> w_locks w i = Some (fh_fd h) then None else w_locks w i),
                          w_tick := t\<rparr>
         | Inl e \<Rightarrow> w' = w\<lparr>w_tick := t\<rparr>"
    using assms unfolding locks_documented_def by blast
  then show thesis using given_up refused by (cases r) auto
qed

section \<open>Manifests as JSON\<close>

text \<open>
  \<open>serde_json\<close> on \<open>UserManifest\<close>: the buffers the pretty printer writes, or its error, and parsing.
\<close>

record manifest_json =
  mj_pretty :: "user_manifest \<Rightarrow> string + bytes list"
  mj_from_slice :: "bytes \<Rightarrow> string + user_manifest"

definition mj_round_trips :: "manifest_json \<Rightarrow> bool" where
  "mj_round_trips M \<longleftrightarrow>
     (\<forall>m bs. mj_pretty M m = Inr bs \<longrightarrow> mj_from_slice M (concat bs @ as_bytes [CHR 0x0A]) = Inr m)"

end
