(* ===== verification/Archive.thy ===== *)
theory Archive
  imports Crates
begin

text \<open>
  \<open>src/archive.rs\<close>: sealing a directory into an encrypted state file, through a temporary file renamed
  into place, and unsealing one.  The lemmas show that sealing is atomic under every schedule of
  faults, what the file holds after a success, and what unsealing can change and proves.
\<close>

section \<open>Sealing\<close>

text \<open>\<open>append_dir_all\<close>: the buffers up to the end or the failure; a builder dropped unfinished ends the archive.\<close>

definition tar_append ::
  "aead \<Rightarrow> 't tar_lib \<Rightarrow> bytes list \<Rightarrow> io_error option \<Rightarrow> (file_handle, world, vault_error, unit) writer_action" where
  "tar_append A T buffers failure =
     on_failure
       (andthen (action_err Io (vw_write_list A file_ops buffers))
         (\<lambda>_. case failure of Some e \<Rightarrow> err (Io e) | None \<Rightarrow> ok ()))
       (vw_write_list A file_ops (tar_dropped T))"

definition seal_entries ::
  "aead \<Rightarrow> 't tar_lib \<Rightarrow> bytes list \<Rightarrow> io_error option \<Rightarrow>
     (file_handle, world, vault_error, file_handle) writer_action" where
  "seal_entries A T buffers failure =
     andthen (tar_append A T buffers failure)
       (\<lambda>_. andthen (action_err Io (vw_write_list A file_ops (tar_trailer T)))
         (\<lambda>_. vw_finish A file_ops))"

definition seal_stream ::
  "aead \<Rightarrow> 't tar_lib \<Rightarrow> random_source \<Rightarrow> path \<Rightarrow> bytes \<Rightarrow> file_handle \<Rightarrow> unit vault_os" where
  "seal_stream A T R directory data_key file =
     andthen (vault_writer_new A file_ops (os_random R) file data_key)
       (\<lambda>writer w. case tar_pack T directory w of
          (buffers, failure, ticks) \<Rightarrow>
            (case andthen (seal_entries A T buffers failure)
                    (\<lambda>file (v, w). case andthen (action_err Io (op_flush file_ops file))
                                      (\<lambda>_. action_err Io (file_sync_all file)) w of (r, w') \<Rightarrow> (r, (v, w')))
                    (writer, w\<lparr>w_tick := w_tick w + ticks\<rparr>) of
               (r, (_, w')) \<Rightarrow> (r, w')))"

definition seal_directory ::
  "aead \<Rightarrow> 't tar_lib \<Rightarrow> random_source \<Rightarrow> uuid_lib \<Rightarrow> path \<Rightarrow> path \<Rightarrow> bytes \<Rightarrow> unit vault_os" where
  "seal_directory A T R U directory destination data_key =
     andthen (fresh_uuid U)
       (\<lambda>uuid. let temporary = with_extension destination (''tmp-'' @ uuid) in
          on_failure
            (andthen (action_err Io (open_create_new private_file_mode temporary))
              (\<lambda>file. andthen (attempt (seal_stream A T R directory data_key file))
                (\<lambda>r. andthen (drop_file file)
                  (\<lambda>_. andthen (lift_result r)
                    (\<lambda>_. action_err Io (rename temporary destination))))))
            (remove_file temporary))"

section \<open>Unsealing\<close>

text \<open>
  The loop over the entries.  The fuel is what is left of the archive; \<open>unseal_loop_enough\<close> shows that
  it is enough, so that the last equation is not reached.
\<close>

definition did_not_return :: io_error where
  "did_not_return = io_other ''did not return''"

fun unseal_loop ::
  "nat \<Rightarrow> aead \<Rightarrow> 't tar_lib \<Rightarrow> path \<Rightarrow> 't \<Rightarrow> (world, vault_error, 't) action" where
  "unseal_loop 0 A T destination t = err (Io did_not_return)"
| "unseal_loop (Suc n) A T destination t = (\<lambda>w.
     case tar_next T A t of
       (Inl e, t1) \<Rightarrow> (Inl (map_read_error e), w)
     | (Inr None, t1) \<Rightarrow> (Inr t1, w)
     | (Inr (Some entry), t1) \<Rightarrow>
         if te_type entry = SymlinkEntry \<or> te_type entry = HardLinkEntry then unseal_loop n A T destination t1 w
         else if \<not> (te_type entry = RegularEntry \<or> te_type entry = DirectoryEntry)
         then unseal_loop n A T destination t1 w
         else (case tar_unpack_in T A entry destination (t1, w) of
                 (Inl e, t2, w2) \<Rightarrow> (Inl (map_read_error e), w2)
               | (Inr inside, t2, w2) \<Rightarrow>
                   if \<not> inside then (Inl (Integrity ''archive entry escaped the runtime directory''), w2)
                   else unseal_loop n A T destination t2 w2))"

definition unseal_entries :: "aead \<Rightarrow> 't tar_lib \<Rightarrow> path \<Rightarrow> 't \<Rightarrow> (world, vault_error, 't) action" where
  "unseal_entries A T destination t = unseal_loop (Suc (tar_left T t)) A T destination t"

definition unseal_archive :: "aead \<Rightarrow> 't tar_lib \<Rightarrow> path \<Rightarrow> vault_reader \<Rightarrow> unit vault_os" where
  "unseal_archive A T destination reader =
     (case tar_entries T A (tar_open T reader) of
        (Inl e, t) \<Rightarrow> err (map_read_error e)
      | (Inr _, t) \<Rightarrow>
          andthen (unseal_entries A T destination t)
            (\<lambda>t'. lift_result (vr_verify_finished A (tar_into_inner T t'))))"

definition unseal_directory :: "aead \<Rightarrow> 't tar_lib \<Rightarrow> path \<Rightarrow> path \<Rightarrow> bytes \<Rightarrow> unit vault_os" where
  "unseal_directory A T src destination data_key =
     andthen (action_err (\<lambda>_. Integrity ''unsafe vault state file'') (validate_private_file src))
       (\<lambda>_. andthen (action_err Io (open_read True src))
         (\<lambda>file. andthen (attempt
             (andthen (file_source file)
               (\<lambda>input. andthen (lift_result (vault_reader_new A input data_key))
                 (\<lambda>reader. unseal_archive A T destination reader))))
           (\<lambda>r. andthen (drop_file file) (\<lambda>_. lift_result r))))"

section \<open>The temporary file\<close>

lemma private_file_mode_masked: "and (and private_file_mode (not u)) private_mask = 0"
proof -
  have "and (and private_file_mode (not u)) private_mask = and (and private_file_mode private_mask) (not u)"
    by (simp add: and.commute and.left_commute)
  also have "and private_file_mode private_mask = 0"
    by (simp add: private_file_mode_def private_mask_def)
  finally show ?thesis by simp
qed

text \<open>
  While the temporary file is written: only its name has changed, its inode is new and private, and
  the handle is at its end.
\<close>

definition private_inode :: "u32 \<Rightarrow> inode \<Rightarrow> bool" where
  "private_inode uid n \<longleftrightarrow>
     (\<exists>b. in_kind n = RegularFile b) \<and> in_uid n = uid \<and> and (in_mode n) private_mask = 0"

definition writing_temp :: "world \<Rightarrow> names \<Rightarrow> file_handle \<Rightarrow> world \<Rightarrow> bool" where
  "writing_temp w0 q h w \<longleftrightarrow>
     within (names_only {q}) w0 w \<and> w_next w0 \<le> fh_ino h \<and> w_next w0 \<le> fh_fd h \<and> file_live h w \<and>
     lookup w q = Some (fh_ino h) \<and> (\<exists>n. w_inodes w (fh_ino h) = Some n \<and> private_inode (w_euid w0) n)"

lemma file_write_effect:
  assumes "file_live h w" "file_write_all h b w = (r, w')"
  shows "w' = w \<or> (\<exists>c. w' = (put_bytes (fh_ino h) c (w\<lparr>w_tick := Suc (w_tick w)\<rparr>))
      \<lparr>w_fds := (w_fds w)(fh_fd h := Some (fh_ino h, length c))\<rparr>)"
proof (cases "b = []")
  case False
  let ?w = "w\<lparr>w_tick := Suc (w_tick w)\<rparr>"
  have eff: "\<exists>c. write_at h x ?w = Some ((put_bytes (fh_ino h) c ?w)
      \<lparr>w_fds := (w_fds w)(fh_fd h := Some (fh_ino h, length c))\<rparr>)" for x
    by (rule write_at_live [of h ?w x]) (use assms(1) in \<open>auto intro!: exI [of _ "file_content h w @ x"]\<close>)
  show ?thesis
  proof (cases "w_faults w (w_tick w)")
    case None
    then show ?thesis using eff [of b] assms(2) False by (auto simp: file_write_all_def)
  next
    case (Some ft)
    then show ?thesis using eff [of "take (ft_partial ft) b"] assms(2) False by (auto simp: file_write_all_def)
  qed
qed (use assms in \<open>simp add: file_write_all_def\<close>)

lemma writing_temp_write:
  assumes "writing_temp w0 q h w" "file_write_all h b w = (r, w')"
  shows "writing_temp w0 q h w'"
proof -
  have live: "file_live h w'"
    using assms file_write_cases [of h w b r w'] by (auto simp: writing_temp_def)
  consider "w' = w" | c where "w' = (put_bytes (fh_ino h) c (w\<lparr>w_tick := Suc (w_tick w)\<rparr>))
      \<lparr>w_fds := (w_fds w)(fh_fd h := Some (fh_ino h, length c))\<rparr>"
    using assms file_write_effect [of h w b r w'] by (auto simp: writing_temp_def)
  then show ?thesis
  proof cases
    case 2
    have fd: "fh_fd h < w_next w"
      using assms(1) by (auto simp: writing_temp_def within_def wf_world_def file_live_def)
    have "within (names_only {q}) w0 (put_bytes (fh_ino h) c (w\<lparr>w_tick := Suc (w_tick w)\<rparr>))"
      using assms(1) by (auto simp: writing_temp_def intro: within_put_bytes within_tick)
    from within_fds [OF this, of "fh_fd h" "Some (fh_ino h, length c)"] fd
    have "within (names_only {q}) w0 w'" by (simp add: 2)
    then show ?thesis
      using assms(1) live by (auto simp: writing_temp_def 2 put_bytes_def private_inode_def split: option.split)
  qed (use assms in simp)
qed

lemma writing_temp_tick: "tick_closed (writing_temp w0 q h)"
  by (auto simp: tick_closed_def writing_temp_def within_tick)

lemma writing_temp_sink: "sink_keeps file_ops h (writing_temp w0 q h)"
  by (auto simp: sink_keeps_def file_ops_def intro!: triple_fun' triple_ok dest: writing_temp_write)

section \<open>What sealing keeps\<close>

lemma seal_entries_keeps:
  assumes "sink_keeps file_ops h J"
  shows "triple (over_sink h J) (seal_entries A T buffers failure)
    (\<lambda>r st. r = h \<and> over_sink h J st) (\<lambda>_. over_sink h J)"
proof -
  have list: "triple (over_sink h J) (action_err Io (vw_write_list A file_ops xs))
      (\<lambda>_. over_sink h J) (\<lambda>_. over_sink h J)" for xs
    by (rule triple_action_err) (rule write_list_keeps [OF assms])
  have append: "triple (over_sink h J) (tar_append A T buffers failure) (\<lambda>_. over_sink h J) (\<lambda>_. over_sink h J)"
    unfolding tar_append_def
    by (rule triple_on_failure [where R = "\<lambda>_. over_sink h J"], rule triple_andthen [OF list])
       (auto intro!: triple_rules write_list_keeps [OF assms] split: option.split)
  show ?thesis
    unfolding seal_entries_def
    by (rule triple_andthen [OF append], rule triple_andthen [OF list], rule finish_keeps [OF assms])
qed

lemma seal_stream_keeps:
  assumes sink: "sink_keeps file_ops h J" and tick: "tick_closed J"
  shows "triple J (seal_stream A T R directory key h) (\<lambda>_. J) (\<lambda>_. J)"
  unfolding seal_stream_def
proof (rule triple_andthen)
  show "triple J (vault_writer_new A file_ops (os_random R) h key) (\<lambda>v w. over_sink h J (v, w)) (\<lambda>_. J)"
    by (rule writer_new_keeps [OF sink os_random_triple [OF tick]])
next
  fix v :: "file_handle vault_writer"
  have flush: "triple J (andthen (action_err Io (op_flush file_ops h)) (\<lambda>_. action_err Io (file_sync_all h)))
      (\<lambda>_. J) (\<lambda>_. J)"
    by (rule triple_andthen [where R = "\<lambda>_. J"])
       (auto intro!: triple_action_err triple_ok file_sync_all_triple [OF tick] simp: file_ops_def)
  let ?fin = "\<lambda>file (v, w). case andthen (action_err Io (op_flush file_ops file))
      (\<lambda>_. action_err Io (file_sync_all file)) w of (r, w') \<Rightarrow> (r, (v, w'))"
  have all: "triple (over_sink h J) (andthen (seal_entries A T bufs f) ?fin)
      (\<lambda>_. over_sink h J) (\<lambda>_. over_sink h J)" for bufs f
  proof (rule triple_andthen [OF seal_entries_keeps [OF sink]])
    fix file'
    show "triple (\<lambda>st. file' = h \<and> over_sink h J st) (?fin file') (\<lambda>_. over_sink h J) (\<lambda>_. over_sink h J)"
      by (rule triple_fun') (auto simp: over_sink_def split: prod.splits dest: triple_result [OF flush])
  qed
  show "triple (\<lambda>w. over_sink h J (v, w)) (\<lambda>w. case tar_pack T directory w of
          (buffers, failure, ticks) \<Rightarrow>
            (case andthen (seal_entries A T buffers failure) ?fin (v, w\<lparr>w_tick := w_tick w + ticks\<rparr>) of
               (r, (_, w')) \<Rightarrow> (r, w'))) (\<lambda>_. J) (\<lambda>_. J)"
  proof (rule triple_fun')
    fix w r w'
    assume w: "over_sink h J (v, w)"
      and run: "(case tar_pack T directory w of
          (buffers, failure, ticks) \<Rightarrow>
            (case andthen (seal_entries A T buffers failure) ?fin (v, w\<lparr>w_tick := w_tick w + ticks\<rparr>) of
               (r, (_, w')) \<Rightarrow> (r, w'))) = (r, w')"
    obtain bufs f n where p: "tar_pack T directory w = (bufs, f, n)" by (rule prod_cases3)
    have "over_sink h J (v, w\<lparr>w_tick := w_tick w + n\<rparr>)"
      using w tick_closed_add [OF tick] by (auto simp: over_sink_def)
    then show "J w'"
      using run p triple_result [OF all, of "(v, w\<lparr>w_tick := w_tick w + n\<rparr>)"]
      by (auto simp: over_sink_def split: prod.splits)
  qed
qed
section \<open>What a sealed file holds\<close>

text \<open>The encoding, under some fresh seed, of what the builder wrote for the directory.\<close>

definition sealed_bytes :: "aead \<Rightarrow> 't tar_lib \<Rightarrow> path \<Rightarrow> bytes \<Rightarrow> bytes \<Rightarrow> bool" where
  "sealed_bytes A T directory key bs \<longleftrightarrow>
     (\<exists>w buffers ticks seed. tar_pack T directory w = (buffers, None, ticks) \<and> length seed = 12 \<and>
        encode_vault A key seed (chunks chunk_size (concat (buffers @ tar_trailer T))) = Some bs)"

lemma writer_rep_tick:
  "disk_file.writer_rep A key seed h base cs v (w\<lparr>w_tick := t\<rparr>) = disk_file.writer_rep A key seed h base cs v w"
  by (simp add: disk_file.writer_rep_def)

lemma os_random_quiet: "file_live h w \<Longrightarrow> disk_file.fill_quiet (os_random R) h w"
  by (auto simp: disk_file.fill_quiet_def os_random_def)

lemma tar_append_Inr:
  "tar_append A T buffers failure st = (Inr u, st') \<Longrightarrow>
     failure = None \<and> (\<exists>v. vw_write_list A file_ops buffers st = (Inr v, st'))"
  by (auto simp: tar_append_def on_failure_Inr andthen_Inr_iff split: option.splits)

lemma seal_stream_Inr:
  assumes run: "seal_stream A T R directory key h w = (Inr u, w')"
    and "random_fills R" "file_live h w" "file_content h w = []"
  shows "sealed_bytes A T directory key (file_content h w')"
proof -
  let ?fin = "\<lambda>file (v, w). case andthen (action_err Io (op_flush file_ops file))
      (\<lambda>_. action_err Io (file_sync_all file)) w of (r, w') \<Rightarrow> (r, (v, w'))"
  obtain v w1 where new: "vault_writer_new A file_ops (os_random R) h key w = (Inr v, w1)"
    and rest: "(case tar_pack T directory w1 of (buffers, failure, ticks) \<Rightarrow>
            (case andthen (seal_entries A T buffers failure) ?fin (v, w1\<lparr>w_tick := w_tick w1 + ticks\<rparr>) of
               (r, (_, w')) \<Rightarrow> (r, w'))) = (Inr u, w')"
    using run by (auto simp: seal_stream_def andthen_Inr_iff)
  obtain bufs f n where p: "tar_pack T directory w1 = (bufs, f, n)" by (rule prod_cases3)
  obtain v' where run2: "andthen (seal_entries A T bufs f) ?fin (v, w1\<lparr>w_tick := w_tick w1 + n\<rparr>) = (Inr u, (v', w'))"
    using rest p by (auto split: prod.splits)
  from run2 obtain h' v2 w2 where ent: "seal_entries A T bufs f (v, w1\<lparr>w_tick := w_tick w1 + n\<rparr>) = (Inr h', (v2, w2))"
    and fin: "?fin h' (v2, w2) = (Inr u, (v', w'))"
    by (auto simp: andthen_Inr_iff)
  from ent obtain u1 st1 u2 st2 where
      app: "tar_append A T bufs f (v, w1\<lparr>w_tick := w_tick w1 + n\<rparr>) = (Inr u1, st1)"
    and trail: "vw_write_list A file_ops (tar_trailer T) st1 = (Inr u2, st2)"
    and finish: "vw_finish A file_ops st2 = (Inr h', (v2, w2))"
    by (auto simp: seal_entries_def andthen_Inr_iff)
  obtain va wa vb wb where st: "st1 = (va, wa)" "st2 = (vb, wb)" by fastforce
  from tar_append_Inr [OF app] obtain u3 where f: "f = None"
    and list: "vw_write_list A file_ops bufs (v, w1\<lparr>w_tick := w_tick w1 + n\<rparr>) = (Inr u3, (va, wa))"
    using st by auto
  from disk_file.writer_new_Inr [OF new os_random_fills [OF assms(2)] os_random_quiet [OF assms(3)]]
  obtain seed where seed: "length seed = 12" and rep: "disk_file.writer_rep A key seed h [] [] v w1"
    and pend: "vw_pending v = []" using assms(4) by metis
  have rep0: "disk_file.writer_rep A key seed h [] [] v (w1\<lparr>w_tick := w_tick w1 + n\<rparr>)"
    using rep by (simp add: writer_rep_tick)
  from disk_file.write_list_Inr [OF list rep0] obtain cs1 where
    rep1: "disk_file.writer_rep A key seed h [] cs1 va wa" and eq1: "concat cs1 @ vw_pending va = concat bufs"
    using pend by auto
  from disk_file.write_list_Inr [OF trail [unfolded st] rep1] obtain cs2 where
    rep2: "disk_file.writer_rep A key seed h [] cs2 vb wb"
    and eq2: "concat cs2 @ vw_pending vb = concat (bufs @ tar_trailer T)"
    using eq1 by auto
  from disk_file.finish_Inr [OF finish [unfolded st] rep2] obtain bs where
    bs: "encode_vault A key seed (chunks chunk_size (concat (bufs @ tar_trailer T))) = Some bs"
      "file_content h w2 = bs" "h' = h"
    using eq2 by auto
  have "file_content h w' = file_content h w2"
    using fin by (auto simp: file_ops_def file_sync_all_def sys_def andthen_def action_err_def Let_def
        split: prod.splits sum.splits option.splits)
  then show ?thesis using bs seed p f by (auto simp: sealed_bytes_def)
qed

section \<open>Sealing is atomic\<close>

lemma open_create_new_triple:
  assumes "q = locate (w_cwd w0) p"
  shows "triple (within (names_only {q}) w0) (open_create_new private_file_mode p)
    (\<lambda>h w. writing_temp w0 q h w \<and> file_content h w = []) (\<lambda>_. within (names_only {q}) w0)"
  unfolding open_create_new_def
proof (rule triple_sys [OF triple_fun])
  fix w assume w: "within (names_only {q}) w0 w"
  define w1 where "w1 = fresh_inode (RegularFile []) private_file_mode q w"
  obtain h w2 where o: "open_fd (w_next w) w1 = (h, w2)" by fastforce
  have w1: "within (names_only {q}) w0 w1" unfolding w1_def by (rule within_fresh [OF w]) simp
  have node: "w_inodes w1 (w_next w) = Some \<lparr>in_kind = RegularFile [], in_uid = w_euid w0,
      in_mode = and private_file_mode (not (w_umask w))\<rparr>" "lookup w1 q = Some (w_next w)"
      "w_next w1 = Suc (w_next w)"
    using withinD(4) [OF w] by (simp_all add: w1_def fresh_inode_def Let_def)
  have "writing_temp w0 q h w2 \<and> file_content h w2 = []"
    using within_open_fd [OF w1 o] o node withinD(2) [OF w]
    by (auto simp: writing_temp_def open_fd_def file_live_def file_bytes_def file_content_def private_inode_def
        private_file_mode_masked)
  then show "case (let q = locate (w_cwd w) p in
     if lookup w q \<noteq> None then (Inl already_exists, w)
     else if q = [] \<or> \<not> dir_at w (butlast q) then (Inl (missing_error w q), w)
     else (case open_fd (w_next w) (fresh_inode (RegularFile []) private_file_mode q w) of (h, w') \<Rightarrow> (Inr h, w'))) of
      (Inl e, w') \<Rightarrow> within (names_only {q}) w0 w'
    | (Inr h, w') \<Rightarrow> writing_temp w0 q h w' \<and> file_content h w' = []"
    using w o withinD(3) [OF w] by (simp add: Let_def assms w1_def)
qed auto

text \<open>The closed temporary file with its contents.\<close>

definition sealed_at :: "world \<Rightarrow> names \<Rightarrow> (bytes \<Rightarrow> bool) \<Rightarrow> world \<Rightarrow> bool" where
  "sealed_at w0 q B w \<longleftrightarrow>
     (\<exists>i n bs. w_next w0 \<le> i \<and> lookup w q = Some i \<and> w_inodes w i = Some n \<and> private_inode (w_euid w0) n \<and>
        file_bytes w i = Some bs \<and> B bs)"

definition temp_written :: "world \<Rightarrow> names \<Rightarrow> (bytes \<Rightarrow> bool) \<Rightarrow> world \<Rightarrow> bool" where
  "temp_written w0 q B w \<longleftrightarrow> within (names_only {q}) w0 w \<and> sealed_at w0 q B w"

lemma drop_temp_triple:
  "triple (\<lambda>w. writing_temp w0 q h w \<and> B (file_content h w)) (drop_file h)
     (\<lambda>_. temp_written w0 q B) E"
proof (rule tripleI)
  fix w x w' assume w: "writing_temp w0 q h w \<and> B (file_content h w)" "drop_file h w = (Inr x, w')"
  then have w': "w' = close_file h w" by (simp add: drop_file_def)
  have "within (names_only {q}) w0 w'"
    using w unfolding w' by (auto simp: writing_temp_def intro: within_close)
  then show "temp_written w0 q B w'"
    using w by (auto simp: w' temp_written_def sealed_at_def writing_temp_def close_file_def file_live_def file_content_def)
qed (simp add: drop_file_def)

lemma rename_temp_triple:
  assumes "qt = locate (w_cwd w0) a" "qd = locate (w_cwd w0) b" "\<not> prefix qt qd" "\<not> prefix qd qt"
  shows "triple (temp_written w0 qt B) (rename a b)
     (\<lambda>_ w. within (names_only (below qt \<union> below qd)) w0 w \<and> lookup w qt = None \<and> sealed_at w0 qd B w)
     (\<lambda>_. within (names_only {qt}) w0)"
proof -
  let ?S = "names_only (below qt \<union> below qd)"
  have ne: "qt \<noteq> qd" using assms(3) by auto
  have post: "case (let a = locate (w_cwd w) a; b = locate (w_cwd w) b in
     if inode_at w a = None then (Inl (missing_error w a), w)
     else if \<not> dir_at w (butlast b) then (Inl (missing_error w b), w)
     else if a = b then (Inr (), w)
     else if prefix a b \<or> prefix b a then (Inl (os_error InvalidInput ''Invalid argument (os error 22)''), w)
     else if inode_at w b \<noteq> None \<and> dir_at w a \<and> \<not> dir_at w b then (Inl not_a_directory, w)
     else if inode_at w b \<noteq> None \<and> \<not> dir_at w a \<and> dir_at w b then (Inl is_a_directory, w)
     else if \<not> dir_empty w b then (Inl (os_error OtherKind ''Directory not empty (os error 39)''), w)
     else (Inr (), move_tree a b w)) of
       (Inl e, w') \<Rightarrow> within (names_only {qt}) w0 w'
     | (Inr x, w') \<Rightarrow> within ?S w0 w' \<and> lookup w' qt = None \<and> sealed_at w0 qd B w'"
    if t: "temp_written w0 qt B w" for w
  proof -
    have w: "within (names_only {qt}) w0 w" using t by (simp add: temp_written_def)
    then have "within ?S w0 w" by (rule within_mono) auto
    then have "within ?S w0 (move_tree qt qd w)"
      using assms(3,4) by (intro within_move_tree) auto
    moreover have "lookup (move_tree qt qd w) qt = None" "lookup (move_tree qt qd w) qd = lookup w qt"
      using assms(3,4) by (auto simp: lookup_move_tree)
    ultimately show ?thesis
      using t w ne withinD(3) [OF w] assms(1,2)
      by (auto simp: Let_def temp_written_def sealed_at_def)
  qed
  show ?thesis
    unfolding rename_def
    by (rule triple_sys [OF triple_fun [OF post]])
       (auto simp: tick_closed_def temp_written_def sealed_at_def within_tick)
qed

text \<open>
  The names involved: the destination \<open>d/state.cvlt\<close> and the temporary file beside it.
\<close>

definition state_name :: string where "state_name = ''state.cvlt''"

definition temp_name :: "string \<Rightarrow> string" where
  "temp_name uuid = ''state.tmp-'' @ uuid"

lemma state_name_simple: "simple_name state_name"
  by (simp add: simple_name_def state_name_def)

lemma file_stem_state: "file_stem state_name = ''state''"
  by code_simp

lemma seal_temporary: "with_extension (path_join d state_name) (''tmp-'' @ uuid) = d @ [Normal (temp_name uuid)]"
  by (simp add: with_extension_join [OF state_name_simple] file_stem_state temp_name_def)

lemma temp_names_differ: "temp_name uuid \<noteq> state_name"
  by (simp add: temp_name_def state_name_def)

lemma same_length_prefix: "length a = length b \<Longrightarrow> prefix a b \<longleftrightarrow> a = b"
  by (auto simp: prefix_def)

text \<open>
  The triple of \<open>seal_directory\<close>: a failure leaves everything but the temporary name as it was, a
  success puts a new private file with the sealed bytes in place.
\<close>

lemma seal_directory_run:
  assumes "wf_world w0" "random_fills R"
    and "seal_directory A T R U directory (path_join d state_name) key w0 = (r, w')"
  defines "qt \<equiv> locate (w_cwd w0) d @ [temp_name (uuid_to_string U (uuid_new_v4 U (w_tick w0)))]"
    and "qd \<equiv> locate (w_cwd w0) d @ [state_name]"
  shows "case r of
      Inl e \<Rightarrow> within (names_only {qt}) w0 w'
    | Inr _ \<Rightarrow> within (names_only (below qt \<union> below qd)) w0 w' \<and> lookup w' qt = None \<and>
        sealed_at w0 qd (sealed_bytes A T directory key) w'"
proof -
  define uuid where "uuid = uuid_to_string U (uuid_new_v4 U (w_tick w0))"
  define temp where "temp = d @ [Normal (temp_name uuid)]"
  define w1 where "w1 = w0\<lparr>w_tick := Suc (w_tick w0)\<rparr>"
  let ?W = "within (names_only {qt}) w0"
  let ?B = "sealed_bytes A T directory key"
  let ?Q = "\<lambda>_ w. within (names_only (below qt \<union> below qd)) w0 w \<and> lookup w qt = None \<and> sealed_at w0 qd ?B w"
  let ?body = "andthen (action_err Io (open_create_new private_file_mode temp))
      (\<lambda>file. andthen (attempt (seal_stream A T R directory key file))
        (\<lambda>r. andthen (drop_file file)
          (\<lambda>_. andthen (lift_result r) (\<lambda>_. action_err Io (rename temp (path_join d state_name))))))"
  have fresh: "fresh_uuid U w0 = (Inr uuid, w1)" by (simp add: fresh_uuid_def uuid_def w1_def)
  have run: "on_failure ?body (remove_file temp) w1 = (r, w')"
    using assms(3) unfolding seal_directory_def andthen_ok [where m = "fresh_uuid U" and s = w0, OF fresh] Let_def seal_temporary temp_def .
  have qt: "qt = locate (w_cwd w0) temp" by (simp add: qt_def temp_def uuid_def locate_append)
  have qd: "qd = locate (w_cwd w0) (path_join d state_name)"
    by (simp add: qd_def locate_join [OF state_name_simple])
  have apart: "\<not> prefix qt qd" "\<not> prefix qd qt"
    by (simp_all add: qt_def qd_def same_length_prefix temp_names_differ temp_names_differ [symmetric])
  have stream: "triple (\<lambda>w. writing_temp w0 qt h w \<and> file_content h w = [])
      (attempt (seal_stream A T R directory key h))
      (\<lambda>r w. writing_temp w0 qt h w \<and> (is_ok r \<longrightarrow> ?B (file_content h w))) E" for h E
  proof (rule triple_attempt, rule tripleI)
    fix w x w' assume w: "writing_temp w0 qt h w \<and> file_content h w = []"
      and go: "seal_stream A T R directory key h w = (Inr x, w')"
    have "writing_temp w0 qt h w'"
      by (rule triple_result [OF seal_stream_keeps [OF writing_temp_sink writing_temp_tick] _ go]) (use w in simp)
    moreover have "?B (file_content h w')"
      by (rule seal_stream_Inr [OF go assms(2)]) (use w in \<open>auto simp: writing_temp_def\<close>)
    ultimately show "writing_temp w0 qt h w' \<and> (is_ok (Inr x) \<longrightarrow> ?B (file_content h w'))" by simp
  next
    fix w e w' assume w: "writing_temp w0 qt h w \<and> file_content h w = []"
      and go: "seal_stream A T R directory key h w = (Inl e, w')"
    have "writing_temp w0 qt h w'"
      by (rule triple_result [OF seal_stream_keeps [OF writing_temp_sink writing_temp_tick] _ go]) (use w in simp)
    then show "writing_temp w0 qt h w' \<and> (is_ok (Inl e) \<longrightarrow> ?B (file_content h w'))" by simp
  qed
  have close: "triple (\<lambda>w. writing_temp w0 qt h w \<and> (is_ok x \<longrightarrow> ?B (file_content h w))) (drop_file h)
      (\<lambda>_ w. ?W w \<and> (is_ok x \<longrightarrow> temp_written w0 qt ?B w)) E" for h x E
  proof (cases "is_ok x")
    case True
    then show ?thesis
      by (intro triple_weaken [OF drop_temp_triple]) (auto simp: temp_written_def)
  next
    case False
    then show ?thesis
      by (intro triple_weaken [OF drop_temp_triple [where B = "\<lambda>_. True"]]) (auto simp: temp_written_def)
  qed
  have place: "triple (\<lambda>w. ?W w \<and> (is_ok x \<longrightarrow> temp_written w0 qt ?B w))
      (andthen (lift_result x) (\<lambda>_. action_err Io (rename temp (path_join d state_name)))) ?Q (\<lambda>_. ?W)" for x
    by (rule triple_andthen [where R = "\<lambda>_. temp_written w0 qt ?B"])
       (auto intro!: triple_lift_result triple_action_err rename_temp_triple qt qd apart)
  have body: "triple ?W ?body ?Q (\<lambda>_. ?W)"
    by (rule triple_andthen [OF triple_action_err], rule open_create_new_triple [OF qt],
        rule triple_andthen [OF stream], rule triple_andthen [OF close], rule place)
  have all: "triple ?W (on_failure ?body (remove_file temp)) ?Q (\<lambda>_. ?W)"
    by (rule triple_on_failure [OF body], rule remove_file_triple) (simp add: qt [symmetric])
  have "?W w1" unfolding w1_def by (rule within_tick) (rule within_refl [OF assms(1)])
  then show ?thesis
    using run by (cases r) (auto dest: triple_Inr [OF all] triple_Inl [OF all])
qed

section \<open>What unsealing changes and proves\<close>

text \<open>The fuel of the loop is enough: more does not change the result.\<close>

lemma unseal_loop_enough:
  assumes "tar_advances T" "tar_left T t < n"
  shows "unseal_loop (n + k) A T destination t w = unseal_loop n A T destination t w"
  using assms(2)
proof (induction n arbitrary: t w)
  case (Suc n)
  obtain x t1 where nx: "tar_next T A t = (x, t1)" by fastforce
  show ?case
  proof (cases "\<exists>e. x = Inr (Some e)")
    case True
    then obtain e where x: "x = Inr (Some e)" by blast
    have t1: "tar_left T t1 < n" using assms(1) nx x Suc.prems by (fastforce simp: tar_advances_def)
    obtain y t2 w2 where un: "tar_unpack_in T A e destination (t1, w) = (y, t2, w2)" by (rule prod_cases3)
    have "tar_left T t2 \<le> tar_left T t1" using assms(1) un by (fastforce simp: tar_advances_def)
    then have "tar_left T t2 < n" using t1 by simp
    then show ?thesis using Suc.IH [OF t1] Suc.IH [of t2] nx x un by (auto split: sum.split)
  next
    case False
    then show ?thesis using nx by (auto split: sum.split option.split)
  qed
qed simp

text \<open>So the loop is the one of the code, without fuel.\<close>

lemma unseal_entries_step:
  assumes "tar_advances T"
  shows "unseal_entries A T destination t w =
    (case tar_next T A t of
       (Inl e, t1) \<Rightarrow> (Inl (map_read_error e), w)
     | (Inr None, t1) \<Rightarrow> (Inr t1, w)
     | (Inr (Some entry), t1) \<Rightarrow>
         if te_type entry \<notin> {RegularEntry, DirectoryEntry} then unseal_entries A T destination t1 w
         else (case tar_unpack_in T A entry destination (t1, w) of
                 (Inl e, t2, w2) \<Rightarrow> (Inl (map_read_error e), w2)
               | (Inr inside, t2, w2) \<Rightarrow>
                   if \<not> inside then (Inl (Integrity ''archive entry escaped the runtime directory''), w2)
                   else unseal_entries A T destination t2 w2))"
proof -
  have enough: "unseal_loop (tar_left T t) A T destination t' v = unseal_loop (Suc (tar_left T t')) A T destination t' v"
    if "tar_left T t' < tar_left T t" for t' v
    using unseal_loop_enough [OF assms, of t' "Suc (tar_left T t')" "tar_left T t - Suc (tar_left T t')"] that by simp
  obtain x t1 where nx: "tar_next T A t = (x, t1)" by fastforce
  show ?thesis
  proof (cases "\<exists>e. x = Inr (Some e)")
    case True
    then obtain e where x: "x = Inr (Some e)" by blast
    have t1: "tar_left T t1 < tar_left T t" using assms nx x by (fastforce simp: tar_advances_def)
    obtain y t2 w2 where un: "tar_unpack_in T A e destination (t1, w) = (y, t2, w2)" by (rule prod_cases3)
    have "tar_left T t2 \<le> tar_left T t1" using assms un by (fastforce simp: tar_advances_def)
    then have "tar_left T t2 < tar_left T t" using t1 by simp
    then show ?thesis
      using enough [OF t1, of w] enough [of t2 w2] nx x un by (cases "te_type e") (auto simp: unseal_entries_def split: sum.split)
  next
    case False
    then show ?thesis using nx by (auto simp: unseal_entries_def split: sum.split option.split)
  qed
qed

lemma unseal_loop_within:
  assumes "tar_confined T" "below (locate (w_cwd w0) destination) \<subseteq> sc_names S"
  shows "within S w0 w \<Longrightarrow> unseal_loop n A T destination t w = (r, w') \<Longrightarrow> within S w0 w'"
proof (induction n arbitrary: t w)
  case (Suc n)
  obtain x t1 where nx: "tar_next T A t = (x, t1)" by fastforce
  show ?case
  proof (cases "\<exists>e. x = Inr (Some e)")
    case True
    then obtain e where x: "x = Inr (Some e)" by blast
    obtain y t2 w2 where un: "tar_unpack_in T A e destination (t1, w) = (y, t2, w2)" by (rule prod_cases3)
    have "within S w0 w2" using assms Suc.prems(1) un unfolding tar_confined_def by blast
    then show ?thesis
      using Suc.prems Suc.IH [of w t1] Suc.IH [of w2 t2] nx x un by (auto split: sum.splits if_splits)
  next
    case False
    then show ?thesis using Suc.prems nx by (auto split: sum.splits option.splits)
  qed
qed simp

lemma unseal_loop_reads:
  assumes "tar_reads_only T"
  shows "unseal_loop n A T destination t w = (Inr t', w') \<Longrightarrow>
    reads_to A (tar_into_inner T t) (tar_into_inner T t')"
proof (induction n arbitrary: t w)
  case (Suc n)
  obtain x t1 where nx: "tar_next T A t = (Inr x, t1)"
    using Suc.prems by (auto split: sum.splits prod.splits)
  have 1: "reads_to A (tar_into_inner T t) (tar_into_inner T t1)"
    using assms nx unfolding tar_reads_only_def by blast
  show ?case
  proof (cases x)
    case None
    then show ?thesis using Suc.prems nx 1 by simp
  next
    case (Some e)
    obtain y t2 w2 where un: "tar_unpack_in T A e destination (t1, w) = (y, t2, w2)" by (rule prod_cases3)
    have 2: "y = Inr b \<Longrightarrow> reads_to A (tar_into_inner T t1) (tar_into_inner T t2)" for b
      using assms un unfolding tar_reads_only_def by blast
    show ?thesis
      using Suc.prems Suc.IH [of t1 w] Suc.IH [of t2 w2] nx Some un 1 2
      by (auto split: sum.splits if_splits intro: reads_to_trans)
  qed
qed simp

lemma unseal_archive_triple:
  assumes "tar_confined T" "below (locate (w_cwd w0) destination) \<subseteq> sc_names S"
  shows "triple (within S w0) (unseal_archive A T destination reader) (\<lambda>_. within S w0) (\<lambda>_. within S w0)"
proof -
  obtain x t where e: "tar_entries T A (tar_open T reader) = (x, t)" by fastforce
  have "triple (within S w0) (unseal_loop n A T destination t) (\<lambda>_. within S w0) (\<lambda>_. within S w0)" for n
    by (rule triple_fun') (rule unseal_loop_within [OF assms])
  then show ?thesis
    by (cases x) (auto simp: unseal_archive_def unseal_entries_def e simp del: unseal_loop.simps
        intro!: triple_err triple_andthen [where R = "\<lambda>_. within S w0"] triple_lift_result)
qed

lemma unseal_directory_triple:
  assumes "tar_confined T" "below (locate (w_cwd w0) destination) \<subseteq> sc_names S"
  shows "triple (within S w0) (unseal_directory A T src destination key) (\<lambda>_. within S w0) (\<lambda>_. within S w0)"
proof -
  let ?W = "within S w0"
  have val: "triple ?W (action_err f (validate_private_file src)) (\<lambda>_. ?W) (\<lambda>_. ?W)" for f
    by (rule triple_action_err, rule triple_post [OF validate_file_triple]) auto
  have opn: "triple ?W (action_err Io (open_read True src)) (\<lambda>h w. ?W w \<and> w_next w0 \<le> fh_fd h) (\<lambda>_. ?W)"
    by (rule triple_action_err, rule triple_post [OF open_read_triple]) auto
  have body: "triple ?W (attempt (andthen (file_source h) (\<lambda>input. andthen (lift_result (vault_reader_new A input key))
         (\<lambda>reader. unseal_archive A T destination reader)))) (\<lambda>_. ?W) (\<lambda>_. ?W)" for h
    by (rule triple_attempt, rule triple_andthen [OF file_source_triple])
       (auto intro!: triple_andthen [where R = "\<lambda>_. ?W"] triple_lift_result unseal_archive_triple assms)
  have close: "triple (\<lambda>w. ?W w \<and> w_next w0 \<le> fh_fd h) (drop_file h) (\<lambda>_. ?W) (\<lambda>_. ?W)" for h
    by (rule triple_fun) (auto simp: drop_file_def within_close)
  show ?thesis
    unfolding unseal_directory_def
  proof (rule triple_andthen [OF val], rule triple_andthen [OF opn])
    fix h
    show "triple (\<lambda>w. ?W w \<and> w_next w0 \<le> fh_fd h)
      (andthen (attempt (andthen (file_source h) (\<lambda>input. andthen (lift_result (vault_reader_new A input key))
         (\<lambda>reader. unseal_archive A T destination reader)))) (\<lambda>r. andthen (drop_file h) (\<lambda>_. lift_result r)))
      (\<lambda>_. ?W) (\<lambda>_. ?W)"
    proof (cases "w_next w0 \<le> fh_fd h")
      case True
      then show ?thesis
        by (auto intro!: triple_andthen [OF triple_pre [OF body]] triple_andthen [OF triple_pre [OF close]]
            triple_lift_result)
    qed (simp add: triple_def)
  qed
qed

text \<open>No fault of the host is an interrupted call.\<close>

definition no_interrupts :: "world \<Rightarrow> bool" where
  "no_interrupts w \<longleftrightarrow> (\<forall>t ft. w_faults w t = Some ft \<longrightarrow> io_kind (ft_error ft) \<noteq> Interrupted)"

lemma file_source_tame:
  assumes "file_source h w = (Inr es, w')" "no_interrupts w"
  shows "tame_source es" "source_fails es = [] \<Longrightarrow> file_bytes w (fh_ino h) = Some (source_data es)"
proof -
  have "tame_source (bytes_source b)" "source_fails (bytes_source b) = []" for b
    by (simp_all add: bytes_source_def)
  moreover have "tame_source (bytes_source b @ [Fail e]) \<longleftrightarrow> io_kind e \<noteq> Interrupted"
    "source_fails (bytes_source b @ [Fail e]) = [e]" for b e
    by (simp_all add: bytes_source_def)
  ultimately show "tame_source es" "source_fails es = [] \<Longrightarrow> file_bytes w (fh_ino h) = Some (source_data es)"
    using assms by (auto simp: file_source_def no_interrupts_def Let_def is_a_directory_def split: option.splits)
qed

lemma unseal_archive_Inr:
  assumes "tar_reads_only T" "unseal_archive A T destination reader w = (Inr u, w')"
  obtains r' where "reads_to A reader r'" "vr_verify_finished A r' = Inr ()"
proof -
  obtain x t where e: "tar_entries T A (tar_open T reader) = (Inr x, t)"
    using assms(2) by (auto simp: unseal_archive_def split: sum.splits prod.splits)
  obtain t' where loop: "unseal_loop (Suc (tar_left T t)) A T destination t w = (Inr t', w')"
    and v: "vr_verify_finished A (tar_into_inner T t') = Inr ()"
    using assms(2) e by (auto simp: unseal_archive_def unseal_entries_def andthen_Inr_iff simp del: unseal_loop.simps)
  have "reads_to A reader (tar_into_inner T t)"
    using assms(1) e unfolding tar_reads_only_def by metis
  then have "reads_to A reader (tar_into_inner T t')"
    using unseal_loop_reads [OF assms(1) loop] by (rule reads_to_trans)
  then show thesis using that v by blast
qed

lemma unseal_directory_Inr:
  assumes "wf_world w" "no_interrupts w" "tar_reads_only T"
    and "unseal_directory A T src destination key w = (Inr u, w')"
  shows "private_file w (locate (w_cwd w) src) \<and>
    (\<exists>i bs ps. lookup w (locate (w_cwd w) src) = Some i \<and> file_bytes w i = Some bs \<and> accepts_vault A key ps bs)"
proof -
  let ?W = "within (names_only {}) w"
  let ?q = "locate (w_cwd w) src"
  from assms(4) obtain m w1 h w2 input w3 reader w4 u2 where
      v: "validate_private_file src w = (Inr m, w1)" and o: "open_read True src w1 = (Inr h, w2)"
    and f: "file_source h w2 = (Inr input :: source vault_result, w3)" and n: "vault_reader_new A input key = Inr reader"
    and a: "unseal_archive A T destination reader w3 = (Inr u2, w4)"
    by (auto simp: unseal_directory_def andthen_Inr_iff attempt_iff)
  note val = triple_Inr [OF validate_file_triple [OF tick_closed_within [of "names_only {}" w]]
      within_refl [OF assms(1)] v]
  then have w1: "?W w1" by blast
  have priv: "private_file w1 ?q" using val withinD(3) [OF w1] by simp
  have w2: "?W w2" and ino: "lookup w2 ?q = Some (fh_ino h)"
    using triple_Inr [OF open_read_triple w1 o] by auto
  have same: "inode_at w1 ?q = inode_at w ?q" "inode_at w2 ?q = inode_at w ?q" "lookup w2 ?q = lookup w ?q"
    using within_inode_at [OF w1, of ?q] within_inode_at [OF w2, of ?q] withinD(10) [OF w2, of ?q] by simp_all
  have "no_interrupts w2" using assms(2) withinD(5) [OF w2] by (simp add: no_interrupts_def)
  note src = file_source_tame [OF f this]
  obtain r' where "reads_to A reader r'" "vr_verify_finished A r' = Inr ()"
    by (rule unseal_archive_Inr [OF assms(3) a])
  from verified_stream [OF n src(1) this] obtain ps where
    "source_fails input = []" "accepts_vault A key ps (source_data input)" by blast
  moreover have "file_bytes w2 (fh_ino h) = file_bytes w (fh_ino h)"
    using withinD(11) [OF w2, of "fh_ino h"] assms(1) same(3) ino
    by (simp add: file_bytes_def wf_world_def)
  moreover have "private_file w ?q"
    using priv same(1) withinD(4) [OF w1] by (simp add: private_file_def)
  ultimately show ?thesis
    using src(2) ino same(3)
    by (intro conjI exI [of _ "fh_ino h"] exI [of _ "source_data input"] exI [of _ ps]) simp_all
qed

end
