(* ===== verification/Store.thy ===== *)
theory Store
  imports Archive "HOL-Library.List_Lexorder" "HOL-Library.Char_ord"
begin

text \<open>
  \<open>src/store.rs\<close>: the vault store, its profiles, and the unlocked vault.  Here are the operations, in
  the order of the code; what they keep and what they establish is in the theories that import this.
\<close>

section \<open>State\<close>

text \<open>The crates a store works with.\<close>

record 't crates =
  cr_aead :: aead
  cr_tar :: "'t tar_lib"
  cr_random :: random_source
  cr_uuid :: uuid_lib
  cr_tempdir :: tempdir_lib
  cr_locks :: lock_lib
  cr_json :: manifest_json
  cr_base64 :: base64_lib
  cr_argon2 :: argon2_lib

record vault_store =
  vs_root :: path
  vs_runtime_root :: "path option"

record unlocked_vault =
  uv_username :: string
  uv_codex_home :: path
  uv_runtime :: path
  uv_state_path :: path
  uv_data_key :: bytes
  uv_lock :: file_handle

definition manifest_size_limit :: nat where "manifest_size_limit = 64 * 1024"

definition manifest_name :: string where "manifest_name = ''manifest.json''"
definition lock_name :: string where "lock_name = ''active.lock''"
definition codex_home_name :: string where "codex_home_name = ''codex-home''"

section \<open>Paths and checks\<close>

definition store_new :: "path \<Rightarrow> vault_store" where
  "store_new root = \<lparr>vs_root = root, vs_runtime_root = None\<rparr>"

definition from_environment :: "vault_store vault_os" where
  "from_environment = andthen default_vault_root (\<lambda>root. ok (store_new root))"

definition with_runtime_root :: "vault_store \<Rightarrow> path \<Rightarrow> vault_store" where
  "with_runtime_root store runtime_root = store\<lparr>vs_runtime_root := Some runtime_root\<rparr>"

definition users_root :: "vault_store \<Rightarrow> path" where
  "users_root store = path_join (vs_root store) ''users''"

definition user_root :: "vault_store \<Rightarrow> string \<Rightarrow> path" where
  "user_root store username = path_join (users_root store) (to_ascii_lowercase username)"

definition validate_username :: "string \<Rightarrow> unit vault_result" where
  "validate_username username =
     (if \<not> is_valid_username username
      then Inl (InvalidConfiguration ''username must be 1-64 ASCII letters, numbers, dot, underscore, or hyphen'')
      else Inr ())"

definition validate_password :: "bytes \<Rightarrow> unit vault_result" where
  "validate_password password =
     (if length password < 12 then Inl (InvalidConfiguration ''password must contain at least 12 bytes'')
      else Inr ())"

section \<open>Files of a profile\<close>

abbreviation close_handle :: "file_handle \<Rightarrow> unit vault_os" where
  "close_handle \<equiv> drop_file"

fun write_buffers :: "file_handle \<Rightarrow> bytes list \<Rightarrow> unit os" where
  "write_buffers h [] = ok ()"
| "write_buffers h (b # bs) = andthen (file_write_all h b) (\<lambda>_. write_buffers h bs)"

definition write_json :: "manifest_json \<Rightarrow> file_handle \<Rightarrow> user_manifest \<Rightarrow> unit vault_os" where
  "write_json M file m =
     (case mj_pretty M m of
        Inl e \<Rightarrow> err (Serialization e)
      | Inr buffers \<Rightarrow>
          andthen (action_err (\<lambda>e. Serialization (io_message e)) (write_buffers file buffers))
            (\<lambda>_. andthen (action_err Io (file_write_all file (as_bytes [CHR 0x0A])))
              (\<lambda>_. action_err Io (file_sync_all file))))"

definition write_private_json :: "manifest_json \<Rightarrow> path \<Rightarrow> user_manifest \<Rightarrow> unit vault_os" where
  "write_private_json M p m =
     andthen (action_err Io (open_create_new private_file_mode p))
       (\<lambda>file. ensuring (write_json M file m) (close_handle file))"

definition sync_directory :: "path \<Rightarrow> unit vault_os" where
  "sync_directory p =
     andthen (action_err Io (open_read False p))
       (\<lambda>file. ensuring (action_err Io (file_sync_all file)) (close_handle file))"

definition replace_private_json :: "manifest_json \<Rightarrow> uuid_lib \<Rightarrow> path \<Rightarrow> user_manifest \<Rightarrow> unit vault_os" where
  "replace_private_json M U p m =
     (case path_parent p of
        None \<Rightarrow> err (InvalidConfiguration ''manifest path has no parent directory'')
      | Some parent \<Rightarrow>
          andthen (fresh_uuid U)
            (\<lambda>uuid. let temporary = path_join parent (''.manifest-'' @ uuid @ ''.tmp'') in
               on_failure
                 (andthen (write_private_json M temporary m)
                   (\<lambda>_. andthen (action_err Io (rename temporary p)) (\<lambda>_. sync_directory parent)))
                 (remove_file temporary)))"

definition read_manifest :: "manifest_json \<Rightarrow> uuid_lib \<Rightarrow> path \<Rightarrow> user_manifest vault_os" where
  "read_manifest M U profile =
     (let p = path_join profile manifest_name in
      andthen (validate_private_file p)
        (\<lambda>metadata.
           if md_len metadata > manifest_size_limit
           then err (InvalidConfiguration ''invalid user manifest file'')
           else andthen (action_err Io (open_read True p))
             (\<lambda>file. andthen (ensuring (action_err Io (file_take (manifest_size_limit + 1) file)) (close_handle file))
               (\<lambda>contents.
                  if length contents > manifest_size_limit
                  then err (InvalidConfiguration ''user manifest exceeds size limit'')
                  else (case mj_from_slice M contents of
                          Inl e \<Rightarrow> err (Serialization e)
                        | Inr m \<Rightarrow> andthen (lift_result (validate_manifest U m)) (\<lambda>_. ok m))))))"

text \<open>The line \<open>writeln!\<close> writes, in the pieces the formatter hands to the file.\<close>

definition pid_record :: "u32 \<Rightarrow> bytes list" where
  "pid_record pid = [as_bytes ''{\"pid\":'', as_bytes (show_nat (unat pid)), as_bytes (''}'' @ [CHR 0x0A])]"

definition acquire_lock :: "lock_lib \<Rightarrow> path \<Rightarrow> file_handle vault_os" where
  "acquire_lock L p =
     andthen (action_err Io (open_or_create private_file_mode p))
       (\<lambda>file. on_failure
          (andthen (action_err Io (file_set_permissions file private_file_mode))
            (\<lambda>_. andthen
              (action_err (\<lambda>e. if io_kind e = WouldBlock then Locked else Io e) (try_lock_exclusive L file))
              (\<lambda>_. andthen (action_err Io (file_set_len file 0))
                (\<lambda>_. andthen (action_err Io (file_seek_start file 0))
                  (\<lambda>_. andthen (\<lambda>w. action_err Io (write_buffers file (pid_record (w_pid w))) w)
                    (\<lambda>_. ok file))))))
          (close_handle file))"

section \<open>Operations of the store\<close>

definition initialize :: "vault_store \<Rightarrow> unit vault_os" where
  "initialize store =
     andthen (ensure_private_directory (vs_root store)) (\<lambda>_. ensure_private_directory (users_root store))"

definition manifest_header :: "uuid_lib \<Rightarrow> string \<Rightarrow> kdf_parameters \<Rightarrow> user_manifest vault_os" where
  "manifest_header U username kdf = (\<lambda>w.
     if w_clock w = None then (new_header None [] username kdf, w)
     else andthen (fresh_uuid U) (\<lambda>fresh. lift_result (new_header (w_clock w) fresh username kdf)) w)"

definition fill_profile :: "'t crates \<Rightarrow> path \<Rightarrow> path \<Rightarrow> user_manifest \<Rightarrow> bytes \<Rightarrow> unit vault_os" where
  "fill_profile K staging profile m data_key =
     andthen (write_private_json (cr_json K) (path_join staging manifest_name) m)
       (\<lambda>_. andthen (action_err Io (td_tempdir (cr_tempdir K)))
         (\<lambda>empty. ensuring
            (andthen (seal_directory (cr_aead K) (cr_tar K) (cr_random K) (cr_uuid K) empty
                       (path_join staging state_name) data_key)
              (\<lambda>_. action_err Io (rename staging profile)))
            (action_err Io (td_close (cr_tempdir K) empty))))"

text \<open>The first half of that closure: the data key and the manifest that wraps it.\<close>

definition new_profile :: "'t crates \<Rightarrow> string \<Rightarrow> bytes \<Rightarrow> (user_manifest \<times> bytes) vault_os" where
  "new_profile K username password =
     andthen (default_kdf_parameters (cr_base64 K) (os_random (cr_random K)))
       (\<lambda>kdf. andthen (lift_result (derive_key (cr_base64 K) (cr_argon2 K) password kdf))
         (\<lambda>wrapping_key. andthen (action_err (\<lambda>_. random_failed) (os_random (cr_random K) 32))
           (\<lambda>data_key. andthen (manifest_header (cr_uuid K) username kdf)
             (\<lambda>m. andthen (lift_result (associated_data m))
               (\<lambda>associated. andthen
                  (wrap_data_key (cr_aead K) (cr_base64 K) (os_random (cr_random K)) data_key wrapping_key associated)
                 (\<lambda>wrapped. ok (m\<lparr>um_wrapped_data_key := wrapped\<rparr>, data_key)))))))"

definition create_profile :: "'t crates \<Rightarrow> string \<Rightarrow> bytes \<Rightarrow> path \<Rightarrow> path \<Rightarrow> unit vault_os" where
  "create_profile K username password staging profile =
     andthen (new_profile K username password)
       (\<lambda>made. fill_profile K staging profile (fst made) (snd made))"

definition add_user :: "'t crates \<Rightarrow> vault_store \<Rightarrow> string \<Rightarrow> bytes \<Rightarrow> unit vault_os" where
  "add_user K store username password =
     andthen (lift_result (validate_username username))
       (\<lambda>_. andthen (lift_result (validate_password password))
         (\<lambda>_. andthen (initialize store)
           (\<lambda>_. andthen (attempt (symlink_metadata (user_root store username)))
             (\<lambda>existing. if is_ok existing then err (UserExists username)
                else andthen (fresh_uuid (cr_uuid K))
                  (\<lambda>uuid. let staging = path_join (users_root store) (''.creating-'' @ uuid) in
                     andthen (ensure_private_directory staging)
                       (\<lambda>_. on_failure
                          (create_profile K username password staging (user_root store username))
                          (remove_dir_all staging)))))))"

fun list_entries :: "'t crates \<Rightarrow> path \<Rightarrow> string list \<Rightarrow> string list vault_os" where
  "list_entries K root [] = ok []"
| "list_entries K root (name # names) =
     andthen (action_err Io (symlink_metadata (path_join root name)))
       (\<lambda>metadata.
          if md_type metadata \<noteq> IsDir \<or> prefix ''.'' name then list_entries K root names
          else andthen (attempt (read_manifest (cr_json K) (cr_uuid K) (path_join root name)))
            (\<lambda>r. andthen (list_entries K root names)
              (\<lambda>users. ok (case r of Inl _ \<Rightarrow> users | Inr m \<Rightarrow> um_username m # users))))"

definition list_users :: "'t crates \<Rightarrow> vault_store \<Rightarrow> string list vault_os" where
  "list_users K store =
     andthen (initialize store)
       (\<lambda>_. andthen (action_err Io (read_dir (users_root store)))
         (\<lambda>entries. andthen (list_entries K (users_root store) entries) (\<lambda>users. ok (sort users))))"

text \<open>The checks that \<open>unlock\<close> and \<open>rotate_password\<close> share: the name, then the password.\<close>

definition check_password :: "'t crates \<Rightarrow> string \<Rightarrow> bytes \<Rightarrow> user_manifest \<Rightarrow> bytes vault_result" where
  "check_password K username password m =
     (if \<not> eq_ignore_ascii_case (um_username m) username then Inl Authentication
      else (case map_err (\<lambda>_. Authentication) (derive_key (cr_base64 K) (cr_argon2 K) password (um_kdf m)) of
              Inl e \<Rightarrow> Inl e
            | Inr wrapping_key \<Rightarrow>
                (case associated_data m of
                   Inl e \<Rightarrow> Inl e
                 | Inr associated \<Rightarrow>
                     unwrap_data_key (cr_aead K) (cr_base64 K) (um_wrapped_data_key m) wrapping_key associated)))"

definition rewrap_manifest :: "'t crates \<Rightarrow> bytes \<Rightarrow> user_manifest \<Rightarrow> bytes \<Rightarrow> user_manifest vault_os" where
  "rewrap_manifest K new_password m data_key =
     andthen (default_kdf_parameters (cr_base64 K) (os_random (cr_random K)))
       (\<lambda>kdf. andthen (lift_result (derive_key (cr_base64 K) (cr_argon2 K) new_password kdf))
         (\<lambda>wrapping_key. andthen (lift_result (associated_data (m\<lparr>um_kdf := kdf\<rparr>)))
           (\<lambda>associated. andthen
              (wrap_data_key (cr_aead K) (cr_base64 K) (os_random (cr_random K)) data_key wrapping_key associated)
             (\<lambda>wrapped. ok (m\<lparr>um_kdf := kdf, um_wrapped_data_key := wrapped\<rparr>)))))"

definition rotated_manifest :: "'t crates \<Rightarrow> path \<Rightarrow> string \<Rightarrow> bytes \<Rightarrow> bytes \<Rightarrow> user_manifest vault_os" where
  "rotated_manifest K profile username current_password new_password =
     andthen (read_manifest (cr_json K) (cr_uuid K) profile)
       (\<lambda>m. andthen (lift_result (check_password K username current_password m))
         (rewrap_manifest K new_password m))"

definition rotate_manifest :: "'t crates \<Rightarrow> path \<Rightarrow> string \<Rightarrow> bytes \<Rightarrow> bytes \<Rightarrow> unit vault_os" where
  "rotate_manifest K profile username current_password new_password =
     andthen (rotated_manifest K profile username current_password new_password)
       (replace_private_json (cr_json K) (cr_uuid K) (path_join profile manifest_name))"

definition rotate_password :: "'t crates \<Rightarrow> vault_store \<Rightarrow> string \<Rightarrow> bytes \<Rightarrow> bytes \<Rightarrow> unit vault_os" where
  "rotate_password K store username current_password new_password =
     andthen (lift_result (validate_username username))
       (\<lambda>_. andthen (lift_result (validate_password new_password))
         (\<lambda>_. andthen (action_err (\<lambda>_. Authentication) (validate_private_directory (user_root store username)))
           (\<lambda>_. andthen (acquire_lock (cr_locks K) (path_join (user_root store username) lock_name))
             (\<lambda>lock. andthen
                (attempt (rotate_manifest K (user_root store username) username current_password new_password))
               (\<lambda>result. andthen (attempt (action_err Io (unlock_file (cr_locks K) lock)))
                 (\<lambda>unlocked. andthen (close_handle lock)
                   (\<lambda>_. andthen (lift_result result) (\<lambda>_. lift_result unlocked))))))))"

definition choose_runtime_root :: "vault_store \<Rightarrow> path vault_os" where
  "choose_runtime_root store =
     (case vs_runtime_root store of
        Some p \<Rightarrow> prepare_runtime_root p
      | None \<Rightarrow> select_runtime_root)"

definition open_runtime ::
  "'t crates \<Rightarrow> vault_store \<Rightarrow> path \<Rightarrow> user_manifest \<Rightarrow> bytes \<Rightarrow> file_handle \<Rightarrow> unlocked_vault vault_os" where
  "open_runtime K store profile m data_key lock =
     andthen (choose_runtime_root store)
       (\<lambda>runtime_root. case uuid_parse (cr_uuid K) (um_id m) of
          None \<Rightarrow> err (InvalidConfiguration ''invalid profile UUID'')
        | Some profile_id \<Rightarrow>
            andthen (action_err Io (td_create_in (cr_tempdir K) runtime_root (uuid_to_string (cr_uuid K) profile_id)))
              (\<lambda>runtime. let codex_home = path_join runtime codex_home_name in
                 on_failure
                   (andthen (ensure_private_directory codex_home)
                     (\<lambda>_. andthen
                        (unseal_directory (cr_aead K) (cr_tar K) (path_join profile state_name) codex_home data_key)
                        (\<lambda>_. ok \<lparr>uv_username = um_username m, uv_codex_home = codex_home, uv_runtime = runtime,
                                 uv_state_path = path_join profile state_name, uv_data_key = data_key,
                                 uv_lock = lock\<rparr>)))
                   (td_close (cr_tempdir K) runtime)))"

definition unlock_profile ::
  "'t crates \<Rightarrow> vault_store \<Rightarrow> string \<Rightarrow> bytes \<Rightarrow> file_handle \<Rightarrow> unlocked_vault vault_os" where
  "unlock_profile K store username password lock =
     andthen (read_manifest (cr_json K) (cr_uuid K) (user_root store username))
       (\<lambda>m. andthen (lift_result (validate_manifest (cr_uuid K) m))
         (\<lambda>_. andthen (lift_result (check_password K username password m))
           (\<lambda>data_key. open_runtime K store (user_root store username) m data_key lock)))"

definition unlock :: "'t crates \<Rightarrow> vault_store \<Rightarrow> string \<Rightarrow> bytes \<Rightarrow> unlocked_vault vault_os" where
  "unlock K store username password =
     andthen (lift_result (validate_username username))
       (\<lambda>_. andthen (action_err (\<lambda>_. Authentication) (validate_private_directory (user_root store username)))
         (\<lambda>_. andthen (acquire_lock (cr_locks K) (path_join (user_root store username) lock_name))
           (\<lambda>lock. on_failure
              (unlock_profile K store username password lock)
              (andthen (ignore_result (unlock_file (cr_locks K) lock)) (\<lambda>_. close_handle lock)))))"

section \<open>The unlocked vault\<close>

definition vault_close :: "'t crates \<Rightarrow> unlocked_vault \<Rightarrow> unit vault_os" where
  "vault_close K v =
     andthen (attempt (seal_directory (cr_aead K) (cr_tar K) (cr_random K) (cr_uuid K)
                (uv_codex_home v) (uv_state_path v) (uv_data_key v)))
       (\<lambda>sealed. andthen (attempt (action_err Io (td_close (cr_tempdir K) (uv_runtime v))))
         (\<lambda>cleaned. andthen (attempt (action_err Io (unlock_file (cr_locks K) (uv_lock v))))
           (\<lambda>unlocked. andthen (close_handle (uv_lock v))
             (\<lambda>_. andthen (lift_result sealed)
               (\<lambda>_. andthen (lift_result cleaned) (\<lambda>_. lift_result unlocked))))))"

end
