(* ===== verification/Store_Frame.thy ===== *)
theory Store_Frame
  imports Store
begin

text \<open>
  What the parts of the store's operations keep: the files they hold open, the manifests they read and
  write, the lock they take.  Everything is stated relative to a world and a scope, so that the
  operations of the store compose the frames of their parts.
\<close>

section \<open>Files held open\<close>

text \<open>
  A handle opened since \<open>w0\<close>, for a file that is new or in the scope; writing through it stays within.
\<close>

definition holds_file :: "scope \<Rightarrow> world \<Rightarrow> file_handle \<Rightarrow> world \<Rightarrow> bool" where
  "holds_file S w0 h w \<longleftrightarrow>
     within S w0 w \<and> w_next w0 \<le> fh_fd h \<and> (w_next w0 \<le> fh_ino h \<or> fh_ino h \<in> sc_inodes S) \<and>
     (\<exists>pos. w_fds w (fh_fd h) = Some (fh_ino h, pos))"

lemma holds_file_within: "holds_file S w0 h w \<Longrightarrow> within S w0 w"
  by (simp add: holds_file_def)

lemma holds_file_tick [simp, intro]: "tick_closed (holds_file S w0 h)"
  by (auto simp: tick_closed_def holds_file_def within_tick)

lemma keeps_sys: "tick_closed P \<Longrightarrow> keeps P f \<Longrightarrow> keeps P (sys f)"
  unfolding keeps_def by (rule triple_sys)

lemma holds_file_put: "holds_file S w0 h w \<Longrightarrow> holds_file S w0 h (put_bytes (fh_ino h) b w)"
  by (auto simp: holds_file_def within_put_bytes)

lemma holds_file_pos:
  assumes "holds_file S w0 h w"
  shows "holds_file S w0 h (w\<lparr>w_fds := (w_fds w)(fh_fd h := Some (fh_ino h, pos))\<rparr>)"
proof -
  have "fh_fd h < w_next w" using assms by (auto simp: holds_file_def within_def wf_world_def)
  then show ?thesis using assms within_fds by (auto simp: holds_file_def)
qed

lemma holds_file_write_at: "holds_file S w0 h w \<Longrightarrow> write_at h b w = Some w' \<Longrightarrow> holds_file S w0 h w'"
  using holds_file_pos [OF holds_file_put]
  by (auto simp: write_at_def holds_file_def split: option.splits)

lemma file_write_keeps [keeps_rules]: "keeps (holds_file S w0 h) (file_write_all h b)"
proof (rule keeps_fun)
  fix w r w' assume w: "holds_file S w0 h w" and run: "file_write_all h b w = (r, w')"
  have tick: "holds_file S w0 h (w\<lparr>w_tick := Suc (w_tick w)\<rparr>)"
    using w holds_file_tick unfolding tick_closed_def by blast
  then show "holds_file S w0 h w'"
    using run w holds_file_write_at [OF tick]
    by (auto simp: file_write_all_def Let_def split: if_splits option.splits)
qed

lemma file_calls_keep [keeps_rules]:
  "keeps (holds_file S w0 h) (file_sync_all h)" "keeps (holds_file S w0 h) (file_set_len h n)"
  "keeps (holds_file S w0 h) (file_seek_start h n)" "keeps (holds_file S w0 h) (file_take n h)"
proof -
  show "keeps (holds_file S w0 h) (file_sync_all h)" "keeps (holds_file S w0 h) (file_take n h)"
    by (auto intro!: keepsI file_sync_all_triple file_take_triple)
  show "keeps (holds_file S w0 h) (file_set_len h n)"
    unfolding file_set_len_def
    by (rule keeps_sys [OF holds_file_tick keeps_fun]) (auto simp: holds_file_put split: option.splits)
  show "keeps (holds_file S w0 h) (file_seek_start h n)"
    unfolding file_seek_start_def
  proof (rule keeps_sys [OF holds_file_tick keeps_fun])
    fix w r w' assume w: "holds_file S w0 h w"
      and run: "(case w_fds w (fh_fd h) of None \<Rightarrow> (Inl bad_descriptor, w)
        | Some (i, pos) \<Rightarrow> (Inr (), w\<lparr>w_fds := (w_fds w)(fh_fd h := Some (i, n))\<rparr>)) = (r, w')"
    have "\<exists>pos. w_fds w (fh_fd h) = Some (fh_ino h, pos)" using w by (simp add: holds_file_def)
    then show "holds_file S w0 h w'" using run holds_file_pos [OF w] by auto
  qed
qed

lemma set_permissions_keeps [keeps_rules]: "keeps (holds_file S w0 h) (file_set_permissions h mode)"
  unfolding file_set_permissions_def
  by (rule keeps_sys [OF holds_file_tick keeps_fun])
     (auto simp: chmod_inode_def holds_file_def within_set_inode split: option.splits if_splits)

lemma write_buffers_keeps [keeps_rules]: "keeps (holds_file S w0 h) (write_buffers h bs)"
  by (induction bs) (simp_all only: write_buffers.simps keeps_rules)

lemma close_handle_triple: "triple (holds_file S w0 h) (drop_file h) (\<lambda>_. within S w0) E"
  by (rule tripleI) (auto simp: drop_file_def holds_file_def within_close)

lemma open_create_new_held:
  assumes "locate (w_cwd w0) p \<in> sc_names S"
  shows "triple (within S w0) (open_create_new mode p)
    (\<lambda>h w. holds_file S w0 h w \<and> lookup w (locate (w_cwd w0) p) = Some (fh_ino h)) (\<lambda>_. within S w0)"
  unfolding open_create_new_def
proof (rule triple_sys [OF triple_fun])
  fix w assume w: "within S w0 w"
  let ?q = "locate (w_cwd w0) p"
  define w1 where "w1 = fresh_inode (RegularFile []) mode ?q w"
  obtain h w2 where o: "open_fd (w_next w) w1 = (h, w2)" by fastforce
  have w1: "within S w0 w1" unfolding w1_def by (rule within_fresh [OF w assms])
  have "lookup w1 ?q = Some (w_next w)" "w_next w1 = Suc (w_next w)"
    by (simp_all add: w1_def fresh_inode_def Let_def)
  then have "holds_file S w0 h w2 \<and> lookup w2 ?q = Some (fh_ino h)"
    using within_open_fd [OF w1 o] o withinD(2) [OF w] by (auto simp: holds_file_def open_fd_def)
  then show "case (let q = locate (w_cwd w) p in
     if lookup w q \<noteq> None then (Inl already_exists, w)
     else if q = [] \<or> \<not> dir_at w (butlast q) then (Inl (missing_error w q), w)
     else (case open_fd (w_next w) (fresh_inode (RegularFile []) mode q w) of (h, w') \<Rightarrow> (Inr h, w'))) of
      (Inl e, w') \<Rightarrow> within S w0 w'
    | (Inr h, w') \<Rightarrow> holds_file S w0 h w' \<and> lookup w' (locate (w_cwd w0) p) = Some (fh_ino h)"
    using w o withinD(3) [OF w] by (simp add: Let_def w1_def)
qed auto

section \<open>Manifests\<close>

lemma write_private_json_keeps:
  assumes "locate (w_cwd w0) p \<in> sc_names S"
  shows "keeps (within S w0) (write_private_json M p m)"
  unfolding write_private_json_def
proof (rule keeps_scope [where J = "holds_file S w0"])
  show "triple (within S w0) (action_err Io (open_create_new private_file_mode p)) (\<lambda>h. holds_file S w0 h)
      (\<lambda>_. within S w0)"
    by (rule triple_action_err, rule triple_post [OF open_create_new_held [OF assms]]) auto
qed (auto simp: write_json_def intro!: keeps_rules close_handle_triple)

lemma read_opened_triple:
  "triple (within S w0) (open_read nf p) (\<lambda>h w. within S w0 w \<and> w_next w0 \<le> fh_fd h) (\<lambda>_. within S w0)"
  by (rule triple_post [OF open_read_triple]) auto

lemma drop_fresh_triple: "triple (\<lambda>w. within S w0 w \<and> w_next w0 \<le> fh_fd h) (drop_file h) (\<lambda>_. within S w0) E"
  by (rule tripleI) (auto simp: drop_file_def within_close)

lemma sync_directory_keeps: "keeps (within S w0) (sync_directory p)"
  unfolding sync_directory_def
proof (rule keeps_scope [OF triple_action_err [OF read_opened_triple]])
  fix h show "keeps (\<lambda>w. within S w0 w \<and> w_next w0 \<le> fh_fd h) (action_err Io (file_sync_all h))"
    by (intro keeps_rules keepsI file_sync_all_triple) (auto simp: tick_closed_def within_tick)
qed (rule drop_fresh_triple)

lemma validate_keeps [keeps_rules]:
  "keeps (within S w0) (validate_private_file p)" "keeps (within S w0) (validate_private_directory p)"
  by (rule keepsI, rule triple_post [OF validate_file_triple], auto)
     (rule keepsI, rule triple_post [OF validate_directory_triple], auto)

lemma read_manifest_keeps [keeps_rules]: "keeps (within S w0) (read_manifest M U profile)"
proof -
  have take: "keeps (\<lambda>w. within S w0 w \<and> w_next w0 \<le> fh_fd h) (action_err Io (file_take n h))" for n h
    by (intro keeps_rules keepsI file_take_triple) (auto simp: tick_closed_def within_tick)
  show ?thesis
    unfolding read_manifest_def Let_def
    by (intro keeps_andthen [OF validate_keeps(1)] keeps_if keeps_basic
        keeps_scope_then [OF triple_action_err [OF read_opened_triple] take drop_fresh_triple])
       (intro keeps_rules)
qed

section \<open>Missing names\<close>

text \<open>The scope of an operation that only adds names: the names that are missing.\<close>

abbreviation additions :: "world \<Rightarrow> scope" where
  "additions w \<equiv> names_only {q. lookup w q = None}"

lemma unused_below: "unused w q \<longleftrightarrow> below q \<subseteq> {p. lookup w p = None}"
  by (auto simp: unused_def)

text \<open>What is missing later was missing before, when existing names are kept.\<close>

lemma within_missing:
  assumes "within S w0 w" "\<forall>q. lookup w0 q = None \<longrightarrow> q \<in> sc_names S" "lookup w p = None" "p \<notin> sc_names S"
  shows False
  using assms withinD(10) [OF assms(1), of p] by metis

lemma unused_in_scope:
  assumes "within S w0 w" "\<forall>q. lookup w0 q = None \<longrightarrow> q \<in> sc_names S" "unused w q"
  shows "below q \<subseteq> sc_names S"
  by (metis assms(3) in_below subsetI unused_def within_missing [OF assms(1,2)])

text \<open>A rename onto a name replaces at most an empty directory.\<close>

lemma rename_onto_keeps [keeps_rules]:
  assumes "below (locate (w_cwd w0) a) \<subseteq> sc_names S" "\<forall>q. lookup w0 q = None \<longrightarrow> q \<in> sc_names S"
    and "dir_empty w0 (locate (w_cwd w0) b) \<Longrightarrow> locate (w_cwd w0) b \<in> sc_names S"
    and "\<forall>p. strict_prefix (locate (w_cwd w0) b) p \<longrightarrow> lookup w0 p \<noteq> None \<longrightarrow> p \<notin> sc_names S"
  shows "keeps (within S w0) (rename a b)"
  unfolding rename_def
proof (rule keeps_sys [OF tick_closed_within keeps_fun], goal_cases)
  case (1 w r w')
  let ?a = "locate (w_cwd w0) a" let ?b = "locate (w_cwd w0) b"
  have cwd: "w_cwd w = w_cwd w0" using withinD(3) [OF 1(1)] .
  have "within S w0 (move_tree ?a ?b w)" if empty: "dir_empty w ?b" and apart: "\<not> prefix ?a ?b" "\<not> prefix ?b ?a"
  proof -
    have none: "lookup w p = None" if "strict_prefix ?b p" for p
      using empty that by (auto simp: dir_empty_def list_all_iff lookup_def map_of_eq_None_iff)
    have strict: "p \<in> sc_names S" if "strict_prefix ?b p" for p
      using within_missing [OF 1(1) assms(2)] none [OF that] by blast
    have "lookup w0 p = None" if "strict_prefix ?b p" for p
      using none [OF that] withinD(10) [OF 1(1), of p] assms(4) that by metis
    then have "dir_empty w0 ?b" by (auto simp: dir_empty_def list_all_iff lookup_def map_of_eq_None_iff)
    then have "below ?b \<subseteq> sc_names S" using strict assms(3) by (metis in_below strict_prefix_def subsetI)
    then show ?thesis by (rule within_move_tree [OF 1(1) assms(1) _ apart])
  qed
  then show ?case using 1 by (auto simp: Let_def cwd split: if_splits)
qed

section \<open>Calls of the crates\<close>

lemma tick_calls_keep [keeps_rules]:
  "tick_closed P \<Longrightarrow> keeps P (os_random R n)" "tick_closed P \<Longrightarrow> keeps P (fresh_uuid U)"
  "tick_closed P \<Longrightarrow> keeps P (symlink_metadata p)" "tick_closed P \<Longrightarrow> keeps P (read_dir p)"
proof -
  show "tick_closed P \<Longrightarrow> keeps P (os_random R n)" "tick_closed P \<Longrightarrow> keeps P (fresh_uuid U)"
    "tick_closed P \<Longrightarrow> keeps P (read_dir p)"
    by (auto intro: keepsI os_random_triple fresh_uuid_triple read_dir_triple)
  assume "tick_closed P"
  then show "keeps P (symlink_metadata p)"
    by (intro keeps_weaken [OF triple_post [OF symlink_metadata_triple]]) auto
qed

lemma default_kdf_keeps [keeps_rules]: "tick_closed P \<Longrightarrow> keeps P (default_kdf_parameters B (os_random R))"
  unfolding default_kdf_parameters_def by (intro keeps_rules)

lemma wrap_data_key_keeps [keeps_rules]: "tick_closed P \<Longrightarrow> keeps P (wrap_data_key A B (os_random R) k key ad)"
  unfolding wrap_data_key_def by (intro keeps_rules)

lemma manifest_header_keeps [keeps_rules]: "tick_closed P \<Longrightarrow> keeps P (manifest_header U username kdf)"
proof (rule keeps_fun)
  fix w r w' assume P: "tick_closed P" "P w" and run: "manifest_header U username kdf w = (r, w')"
  then have "w' = w \<or> w' = w\<lparr>w_tick := Suc (w_tick w)\<rparr>"
    by (auto simp: manifest_header_def fresh_uuid_def andthen_def split: if_splits)
  then show "P w'" using P unfolding tick_closed_def by blast
qed

lemma tempdir_keeps:
  assumes "tempdir_fresh D" "\<forall>q. lookup w0 q = None \<longrightarrow> q \<in> sc_names S"
  shows "triple (within S w0) (td_tempdir D)
    (\<lambda>p w. within S w0 w \<and> below (locate (w_cwd w0) p) \<subseteq> sc_names S) (\<lambda>_. within S w0)"
proof (rule triple_fun)
  fix w assume w: "within S w0 w"
  obtain r w' where run: "td_tempdir D w = (r, w')" by fastforce
  have "within S w0 w' \<and> (\<forall>p. r = Inr p \<longrightarrow> unused w (locate (w_cwd w0) p))"
    using assms w run unfolding tempdir_fresh_def by blast
  then show "case td_tempdir D w of (Inl e, w') \<Rightarrow> within S w0 w'
      | (Inr p, w') \<Rightarrow> within S w0 w' \<and> below (locate (w_cwd w0) p) \<subseteq> sc_names S"
    using unused_in_scope [OF w assms(2)] run by (cases r) auto
qed

lemma td_close_keeps [keeps_rules]:
  "tempdir_documented D \<Longrightarrow> below (locate (w_cwd w0) p) \<subseteq> sc_names S \<Longrightarrow> keeps (within S w0) (td_close D p)"
  by (rule keeps_fun) (auto simp: tempdir_documented_def)

lemma seal_directory_keeps:
  assumes "random_fills R" "below (locate (w_cwd w0) d) \<subseteq> sc_names S"
  shows "keeps (within S w0) (seal_directory A T R U directory (path_join d state_name) key)"
proof (rule keeps_fun)
  fix w r w' assume w: "within S w0 w"
    and run: "seal_directory A T R U directory (path_join d state_name) key w = (r, w')"
  let ?q = "locate (w_cwd w) d"
  let ?qt = "?q @ [temp_name (uuid_to_string U (uuid_new_v4 U (w_tick w)))]"
  have "within (names_only (below ?q)) w w'"
    using seal_directory_run [OF withinD(1) [OF w] assms(1) run]
    by (cases r) (auto elim!: within_mono dest: append_prefixD)
  then have "within S w w'" using assms(2) withinD(3) [OF w] by (elim within_mono) auto
  then show "within S w0 w'" by (rule within_trans [OF w])
qed

lemma ensure_directory_keeps [keeps_rules]:
  "missing_on w0 (locate (w_cwd w0) p) \<subseteq> sc_names S \<Longrightarrow> keeps (within S w0) (ensure_private_directory p)"
  by (rule keeps_weaken [OF ensure_directory_triple])

lemma remove_keeps [keeps_rules]:
  "below (locate (w_cwd w0) p) \<subseteq> sc_names S \<Longrightarrow> keeps (within S w0) (remove_dir_all p)"
  "locate (w_cwd w0) p \<in> sc_names S \<Longrightarrow> keeps (within S w0) (remove_file p)"
  by (auto intro: keepsI remove_dir_all_triple remove_file_triple)

section \<open>Creating a profile\<close>

definition staging_name :: "string \<Rightarrow> string" where
  "staging_name uuid = ''.creating-'' @ uuid"

lemma uuid_names_simple:
  assumes "uuid_prints U"
  shows "simple_name (''.creating-'' @ uuid_to_string U (uuid_new_v4 U t))"
    "simple_name (''.manifest-'' @ uuid_to_string U (uuid_new_v4 U t) @ ''.tmp'')"
proof -
  have "length (uuid_new_v4 U t) = 16" using assms by (simp add: uuid_prints_def)
  then have "simple_name (uuid_to_string U (uuid_new_v4 U t))" by (rule uuid_simple_name [OF assms])
  then show "simple_name (''.creating-'' @ uuid_to_string U (uuid_new_v4 U t))"
    "simple_name (''.manifest-'' @ uuid_to_string U (uuid_new_v4 U t) @ ''.tmp'')"
    by (auto simp: simple_name_def)
qed

lemma fresh_uuid_drawn:
  "tick_closed P \<Longrightarrow> triple P (fresh_uuid U) (\<lambda>u s. P s \<and> (\<exists>t. u = uuid_to_string U (uuid_new_v4 U t))) E"
  by (rule tripleI) (auto simp: fresh_uuid_def tick_closed_def)

lemma fixed_names_simple:
  "simple_name manifest_name" "simple_name lock_name" "simple_name codex_home_name" "simple_name ''users''"
  by (simp_all add: simple_name_def manifest_name_def lock_name_def codex_home_name_def)

lemma create_profile_keeps:
  assumes "random_fills (cr_random K)" "tempdir_fresh (cr_tempdir K)" "tempdir_documented (cr_tempdir K)"
    and missing: "\<forall>q. lookup w0 q = None \<longrightarrow> q \<in> sc_names S"
    and stage: "below (locate (w_cwd w0) staging) \<subseteq> sc_names S"
    and put: "keeps (within S w0) (rename staging profile)"
  shows "keeps (within S w0) (create_profile K username password staging profile)"
proof -
  have tick: "tick_closed (within S w0)" by simp
  have named: "locate (w_cwd w0) (path_join staging manifest_name) \<in> sc_names S"
    using stage by (auto simp: locate_join fixed_names_simple)
  have temp: "triple (within S w0) (action_err Io (td_tempdir (cr_tempdir K)))
      (\<lambda>p w. within S w0 w \<and> below (locate (w_cwd w0) p) \<subseteq> sc_names S) (\<lambda>_. within S w0)"
    by (rule triple_action_err, rule tempdir_keeps [OF assms(2) missing])
  have fill: "keeps (within S w0) (fill_profile K staging profile m data_key)" for m data_key
    unfolding fill_profile_def
  proof (intro keeps_andthen [OF write_private_json_keeps [OF named]]
      keeps_andthen_known [OF temp])
    fix empty assume "below (locate (w_cwd w0) empty) \<subseteq> sc_names S"
    then show "keeps (within S w0) (ensuring
        (andthen (seal_directory (cr_aead K) (cr_tar K) (cr_random K) (cr_uuid K) empty
           (path_join staging state_name) data_key) (\<lambda>_. action_err Io (rename staging profile)))
        (action_err Io (td_close (cr_tempdir K) empty)))"
      by (intro keeps_ensuring keeps_andthen keeps_wrap(1) put td_close_keeps seal_directory_keeps assms)
         (use stage in auto)
  qed
  show ?thesis
    unfolding create_profile_def new_profile_def by (intro keeps_rules tick fill)
qed

text \<open>Adding a user keeps every scope with the missing names in it that the last rename keeps too.\<close>

lemma add_user_in_scope:
  fixes username :: string
  assumes "random_fills (cr_random K)" "tempdir_fresh (cr_tempdir K)" "tempdir_documented (cr_tempdir K)"
    and "uuid_prints (cr_uuid K)" "\<forall>q. lookup w0 q = None \<longrightarrow> q \<in> sc_names S"
    and stage: "\<And>t. below (locate (w_cwd w0) (users_root store) @
           [staging_name (uuid_to_string (cr_uuid K) (uuid_new_v4 (cr_uuid K) t))]) \<subseteq> sc_names S"
    and put: "\<And>t. keeps (within S w0) (rename (path_join (users_root store)
           (staging_name (uuid_to_string (cr_uuid K) (uuid_new_v4 (cr_uuid K) t)))) (user_root store username))"
  shows "keeps (within S w0) (add_user K store username password)"
proof -
  have tick: "tick_closed (within S w0)" by simp
  have missing: "missing_on w0 p \<subseteq> sc_names S" for p using assms(5) by (auto simp: missing_on_def)
  have create: "keeps (within S w0) (on_failure
      (create_profile K username password (path_join (users_root store) (staging_name uuid)) (user_root store username))
      (remove_dir_all (path_join (users_root store) (staging_name uuid))))"
    if drawn: "\<exists>t. uuid = uuid_to_string (cr_uuid K) (uuid_new_v4 (cr_uuid K) t)" for uuid
  proof -
    have "simple_name (staging_name uuid)"
      using drawn uuid_names_simple(1) [OF assms(4)] by (auto simp: staging_name_def)
    then have "below (locate (w_cwd w0) (path_join (users_root store) (staging_name uuid))) \<subseteq> sc_names S"
      using drawn stage by (auto simp: locate_join)
    moreover have "keeps (within S w0) (rename (path_join (users_root store) (staging_name uuid)) (user_root store username))"
      using drawn put by blast
    ultimately show ?thesis
      by (intro keeps_on_failure create_profile_keeps remove_keeps(1) assms(1-3,5))
  qed
  have stage: "keeps (within S w0) (andthen (fresh_uuid (cr_uuid K))
      (\<lambda>uuid. let staging = path_join (users_root store) (''.creating-'' @ uuid) in
         andthen (ensure_private_directory staging)
           (\<lambda>_. on_failure (create_profile K username password staging (user_root store username))
              (remove_dir_all staging))))"
    unfolding Let_def
    by (rule keeps_andthen_known [OF fresh_uuid_drawn [OF tick]], rule keeps_andthen,
        rule ensure_directory_keeps [OF missing], rule create [unfolded staging_name_def])
  show ?thesis
    unfolding add_user_def initialize_def by (intro keeps_andthen keeps_if keeps_rules tick missing stage)
qed

lemma add_user_keeps:
  fixes username :: string
  assumes "random_fills (cr_random K)" "tempdir_fresh (cr_tempdir K)" "tempdir_documented (cr_tempdir K)"
    and "uuid_prints (cr_uuid K)"
    and "\<forall>t. unused w0 (locate (w_cwd w0) (users_root store) @
           [staging_name (uuid_to_string (cr_uuid K) (uuid_new_v4 (cr_uuid K) t))])"
  defines "q \<equiv> locate (w_cwd w0) (user_root store username)"
  defines "S \<equiv> names_only {p. lookup w0 p = None \<or> p = q \<and> dir_empty w0 q}"
  shows "keeps (within S w0) (add_user K store username password)"
proof (rule add_user_in_scope [OF assms(1-4)])
  show missing: "\<forall>q. lookup w0 q = None \<longrightarrow> q \<in> sc_names S" by (simp add: S_def)
  fix t
  let ?name = "staging_name (uuid_to_string (cr_uuid K) (uuid_new_v4 (cr_uuid K) t))"
  show below: "below (locate (w_cwd w0) (users_root store) @ [?name]) \<subseteq> sc_names S"
    using assms(5) by (auto simp: S_def unused_def)
  have "simple_name ?name" using uuid_names_simple(1) [OF assms(4)] by (simp add: staging_name_def)
  then show "keeps (within S w0) (rename (path_join (users_root store) ?name) (user_root store username))"
    using below by (intro rename_onto_keeps missing) (auto simp: locate_join S_def q_def)
qed

text \<open>In particular everything but the locks may be in the scope.\<close>

lemma add_user_locks:
  assumes "random_fills (cr_random K)" "tempdir_fresh (cr_tempdir K)" "tempdir_documented (cr_tempdir K)"
    and "uuid_prints (cr_uuid K)"
  shows "keeps (within \<lparr>sc_names = UNIV, sc_inodes = UNIV, sc_locks = {}\<rparr> w0) (add_user K store username password)"
  by (rule add_user_in_scope [OF assms]) (auto intro!: keepsI rename_triple)

end
