(* ===== verification/Store_Locks.thy ===== *)
theory Store_Locks
  imports Store_Frame
begin

text \<open>
  The lock of a profile: what taking it changes, that it is taken only when nobody has it, and that it
  is given up again when an operation fails.
\<close>

section \<open>Taking the lock\<close>

text \<open>What the calls on the lock file leave alone: the names and the locks.\<close>

definition same_names_locks :: "world \<Rightarrow> world \<Rightarrow> bool" where
  "same_names_locks w0 w \<longleftrightarrow> (\<forall>q. lookup w q = lookup w0 q) \<and> w_locks w = w_locks w0"

lemma same_names_locks_tick [simp, intro]: "tick_closed (same_names_locks w0)"
  by (simp add: tick_closed_def same_names_locks_def)

lemma same_names_locks_put [simp]:
  "same_names_locks w0 (put_bytes i b w) = same_names_locks w0 w"
  "same_names_locks w0 (set_inode i n w) = same_names_locks w0 w"
  "same_names_locks w0 (w\<lparr>w_fds := f\<rparr>) = same_names_locks w0 w"
  "same_names_locks w0 (w\<lparr>w_tick := t\<rparr>) = same_names_locks w0 w"
  by (simp_all add: same_names_locks_def)

lemma lock_calls_keep [keeps_rules]:
  "keeps (same_names_locks w0) (file_write_all h b)" "keeps (same_names_locks w0) (file_set_len h n)"
  "keeps (same_names_locks w0) (file_seek_start h n)" "keeps (same_names_locks w0) (file_set_permissions h mode)"
proof -
  show "keeps (same_names_locks w0) (file_write_all h b)"
    by (rule keeps_fun) (auto simp: file_write_all_def write_at_def Let_def split: if_splits option.splits)
  show "keeps (same_names_locks w0) (file_set_len h n)"
    unfolding file_set_len_def by (rule keeps_sys [OF _ keeps_fun]) (auto split: option.splits)
  show "keeps (same_names_locks w0) (file_seek_start h n)"
    unfolding file_seek_start_def by (rule keeps_sys [OF _ keeps_fun]) (auto split: option.splits)
  show "keeps (same_names_locks w0) (file_set_permissions h mode)"
    unfolding file_set_permissions_def
    by (rule keeps_sys [OF _ keeps_fun]) (auto simp: chmod_inode_def split: option.splits if_splits)
qed

lemma write_buffers_same [keeps_rules]: "keeps (same_names_locks w0) (write_buffers h bs)"
  by (induction bs) (simp_all only: write_buffers.simps keeps_rules)

text \<open>The scope of taking a lock: the lock file, new or old, and the locks \<open>l\<close>.\<close>

definition lock_scope :: "world \<Rightarrow> names \<Rightarrow> nat set \<Rightarrow> scope" where
  "lock_scope w q l =
     \<lparr>sc_names = {p. p = q \<and> lookup w q = None}, sc_inodes = {i. lookup w q = Some i}, sc_locks = l\<rparr>"

lemma lock_scope_simps [simp]:
  "sc_names (lock_scope w q l) = {p. p = q \<and> lookup w q = None}"
  "sc_inodes (lock_scope w q l) = {i. lookup w q = Some i}" "sc_locks (lock_scope w q l) = l"
  by (simp_all add: lock_scope_def)

text \<open>The lock file is open, not yet locked; then it is locked.\<close>

definition lock_opened :: "world \<Rightarrow> names \<Rightarrow> file_handle \<Rightarrow> world \<Rightarrow> bool" where
  "lock_opened w0 q h w \<longleftrightarrow> holds_file (lock_scope w0 q {}) w0 h w \<and> lookup w q = Some (fh_ino h)"

definition lock_held :: "world \<Rightarrow> names \<Rightarrow> file_handle \<Rightarrow> world \<Rightarrow> bool" where
  "lock_held w0 q h w \<longleftrightarrow>
     holds_file (lock_scope w0 q {fh_ino h}) w0 h w \<and> lookup w q = Some (fh_ino h) \<and>
     w_locks w (fh_ino h) = Some (fh_fd h) \<and> w_locks w0 (fh_ino h) = None"

lemma same_names_locks_refl [simp]: "same_names_locks w w"
  by (simp add: same_names_locks_def)

lemma lock_opened_keeps:
  assumes "\<And>S. keeps (holds_file S w0 h) m" "\<And>v. keeps (same_names_locks v) m"
  shows "keeps (lock_opened w0 q h) m" "keeps (lock_held w0 q h) m"
proof -
  have "lock_opened w0 q h w'" if "lock_opened w0 q h w" "m w = (r, w')" for w r w'
    using that keepsD [OF assms(1) _ that(2)] keepsD [OF assms(2) _ that(2), of w]
    by (auto simp: lock_opened_def same_names_locks_def)
  then show "keeps (lock_opened w0 q h) m" by (rule keeps_fun)
  have "lock_held w0 q h w'" if "lock_held w0 q h w" "m w = (r, w')" for w r w'
    using that keepsD [OF assms(1) _ that(2)] keepsD [OF assms(2) _ that(2), of w]
    by (auto simp: lock_held_def same_names_locks_def)
  then show "keeps (lock_held w0 q h) m" by (rule keeps_fun)
qed

lemma open_lock_triple:
  assumes "q = locate (w_cwd w0) p"
  shows "triple (\<lambda>w. within (lock_scope w0 q {}) w0 w \<and> lookup w q = lookup w0 q) (open_or_create mode p)
     (\<lambda>h. lock_opened w0 q h) (\<lambda>_. within (lock_scope w0 q {}) w0)"
  unfolding open_or_create_def
proof (rule triple_sys [OF triple_fun])
  let ?S = "lock_scope w0 q {}"
  fix w assume w: "within ?S w0 w \<and> lookup w q = lookup w0 q"
  define w1 where "w1 = fresh_inode (RegularFile []) mode q w"
  obtain h w2 where o: "open_fd (w_next w) w1 = (h, w2)" by fastforce
  have new: "lock_opened w0 q h w2" if "lookup w q = None"
  proof -
    have w1: "within ?S w0 w1" unfolding w1_def by (rule within_fresh) (use w that in auto)
    have "lookup w1 q = Some (w_next w)" "w_next w1 = Suc (w_next w)"
      by (simp_all add: w1_def fresh_inode_def Let_def)
    then show ?thesis
      using within_open_fd [OF w1 o] o withinD(2) [of ?S w0 w] w
      by (auto simp: lock_opened_def holds_file_def open_fd_def)
  qed
  have old: "lock_opened w0 q h' w'" if "lookup w q = Some i" "open_inode w i n = (Inr h', w')" for i n h' w'
  proof -
    have "open_fd i w = (h', w')" using that(2) by (auto simp: open_inode_def split: if_splits prod.splits)
    then show ?thesis
      using within_open_fd [of ?S w0 w i h' w'] withinD(2) [of ?S w0 w] w that(1)
      by (auto simp: lock_opened_def holds_file_def open_fd_def)
  qed
  show "case (let q = locate (w_cwd w) p in
     case lookup w q of
       None \<Rightarrow>
         if q = [] \<or> \<not> dir_at w (butlast q) then (Inl (missing_error w q), w)
         else (case open_fd (w_next w) (fresh_inode (RegularFile []) mode q w) of (h, w') \<Rightarrow> (Inr h, w'))
     | Some i \<Rightarrow>
         (case w_inodes w i of
            None \<Rightarrow> (Inl (missing_error w q), w)
          | Some n \<Rightarrow>
              (case in_kind n of
                 Symlink t \<Rightarrow> (Inl too_many_links, w)
               | Directory \<Rightarrow> (Inl is_a_directory, w)
               | _ \<Rightarrow> open_inode w i n))) of
      (Inl e, w') \<Rightarrow> within ?S w0 w' | (Inr h, w') \<Rightarrow> lock_opened w0 q h w'"
    using w withinD(3) [of ?S w0 w] o new old
    by (auto simp: Let_def assms [symmetric] w1_def split: option.split inode_kind.split prod.split sum.split
        dest: open_inode_Inl)
qed (auto simp: tick_closed_def within_tick)

lemma try_lock_triple:
  assumes "locks_documented L"
  shows "triple (lock_opened w0 q h) (try_lock_exclusive L h) (\<lambda>_. lock_held w0 q h) (\<lambda>_. lock_opened w0 q h)"
proof (rule triple_fun)
  fix w assume w: "lock_opened w0 q h w"
  obtain r w' where run: "try_lock_exclusive L h w = (r, w')" by fastforce
  have in0: "within (lock_scope w0 q {}) w0 w" "w_next w0 \<le> fh_fd h" using w by (auto simp: lock_opened_def holds_file_def)
  have locks: "w_locks w = w_locks w0" using withinD(12) [OF in0(1)] by auto
  have not_own: "w_locks w0 i \<noteq> Some (fh_fd h)" for i
    using withinD(9) [OF in0(1)] in0(2) by (force simp: wf_world_def)
  have fd: "fh_fd h < w_next w" using w in0(1) by (auto simp: lock_opened_def holds_file_def within_def wf_world_def)
  show "case try_lock_exclusive L h w of
      (Inl e, w') \<Rightarrow> lock_opened w0 q h w' | (Inr u, w') \<Rightarrow> lock_held w0 q h w'"
    using assms run
  proof (cases rule: try_lock_cases)
    case (refused t e)
    then have "lock_opened w0 q h w'"
      using w by (auto simp: lock_opened_def holds_file_def within_def wf_world_def same_process_def)
    then show ?thesis using refused(1) run by simp
  next
    case (taken t u)
    then have free: "w_locks w0 (fh_ino h) = None" using locks not_own by auto
    have "within (lock_scope w0 q {fh_ino h}) w0 w'"
      using in0(1) taken(2) fd by (auto simp: taken(4) within_def wf_world_def same_process_def)
    then have "lock_held w0 q h w'"
      using w free by (auto simp: lock_held_def lock_opened_def holds_file_def taken(4))
    then show ?thesis using taken(1) run by simp
  qed
qed

lemma lock_opened_close: "lock_opened w0 q h w \<Longrightarrow> within (lock_scope w0 q {}) w0 (close_file h w)"
  by (auto simp: lock_opened_def holds_file_def intro: within_close)

text \<open>Closing the locked file gives back the locks as they were.\<close>

lemma close_gives_back:
  assumes "within S w0 w" "sc_locks S = {fh_ino h}" "w_next w0 \<le> fh_fd h" "w_locks w0 (fh_ino h) = None"
    and "w_locks w (fh_ino h) = Some (fh_fd h) \<or> w_locks w (fh_ino h) = None"
  shows "within (S\<lparr>sc_locks := {}\<rparr>) w0 (close_file h w)"
proof -
  have "within S w0 (close_file h w)"
    by (rule within_close [OF assms(1,3)])
  moreover have "w_locks (close_file h w) (fh_ino h) = None"
    using assms(5) by (auto simp: close_file_def)
  ultimately show ?thesis using assms(2,4) by (simp add: within_def) metis
qed

lemma lock_scope_unlocked [simp]: "lock_scope w q l\<lparr>sc_locks := {}\<rparr> = lock_scope w q {}"
  by (simp add: lock_scope_def)

lemma acquire_lock_run:
  assumes "wf_world w" "locks_documented L" "acquire_lock L p w = (r, w')" "q = locate (w_cwd w) p"
  shows "case r of Inl e \<Rightarrow> within (lock_scope w q {}) w w' | Inr h \<Rightarrow> lock_held w q h w'"
proof -
  let ?S = "lock_scope w q {}"
  let ?closing = "\<lambda>h v. lock_opened w q h v \<or> lock_held w q h v"
  have step: "triple (lock_held w q h) (action_err Io m) (\<lambda>_. lock_held w q h) (\<lambda>_. ?closing h)"
    if "\<And>S. keeps (holds_file S w h) m" "\<And>v. keeps (same_names_locks v) m" for h and m :: "unit os"
    by (rule triple_action_err, rule triple_weaken [OF keeps_triple [OF lock_opened_keeps(2) [OF that]]]) auto
  have pid: "triple (lock_held w q h) (\<lambda>v. action_err Io (write_buffers h (pid_record (w_pid v))) v)
      (\<lambda>_. lock_held w q h) (\<lambda>_. ?closing h)" for h
    using step [of h "write_buffers h (pid_record pid)" for pid] keeps_rules
    by (simp add: triple_def write_buffers_keeps write_buffers_same)
  have chmod: "triple (lock_opened w q h) (action_err Io (file_set_permissions h m)) (\<lambda>_. lock_opened w q h)
      (\<lambda>_. ?closing h)" for h m
    by (rule triple_action_err, rule triple_weaken [OF keeps_triple [OF lock_opened_keeps(1)]])
       (auto intro: keeps_rules)
  have lock: "triple (lock_opened w q h) (action_err g (try_lock_exclusive L h)) (\<lambda>_. lock_held w q h)
      (\<lambda>_. ?closing h)" for h g
    by (rule triple_action_err, rule triple_weaken [OF try_lock_triple [OF assms(2)]]) auto
  have close: "triple (?closing h) (drop_file h) (\<lambda>_. within ?S w) (\<lambda>_. within ?S w)" for h
    by (rule triple_fun') 
       (use close_gives_back [where S = "lock_scope w q {fh_ino h}"] in
         \<open>fastforce simp: drop_file_def lock_opened_close lock_held_def holds_file_def\<close>)
  have body: "triple (lock_opened w q h)
      (andthen (action_err Io (file_set_permissions h private_file_mode))
            (\<lambda>_. andthen (action_err g (try_lock_exclusive L h))
              (\<lambda>_. andthen (action_err Io (file_set_len h 0))
                (\<lambda>_. andthen (action_err Io (file_seek_start h 0))
                  (\<lambda>_. andthen (\<lambda>w. action_err Io (write_buffers h (pid_record (w_pid w))) w)
                    (\<lambda>_. ok h))))))
      (lock_held w q) (\<lambda>_. ?closing h)" for h g
    by (rule triple_andthen [OF chmod], rule triple_andthen [OF lock], rule triple_andthen [OF step],
        (rule keeps_rules)+, rule triple_andthen [OF step], (rule keeps_rules)+, rule triple_andthen [OF pid],
        rule triple_ok)
  have opn: "triple (\<lambda>v. within ?S w v \<and> lookup v q = lookup w q) (action_err Io (open_or_create m p))
      (\<lambda>h. lock_opened w q h) (\<lambda>_. within ?S w)" for m
    by (rule triple_action_err, rule open_lock_triple [OF assms(4)])
  have start: "triple (\<lambda>v. within ?S w v \<and> lookup v q = lookup w q) (acquire_lock L p)
      (\<lambda>h. lock_held w q h) (\<lambda>_. within ?S w)"
    unfolding acquire_lock_def
    by (rule triple_andthen [OF opn],
        rule triple_on_failure [OF body close])
  show ?thesis
    using triple_Inr [OF start _ , of w] triple_Inl [OF start _, of w] assms(1,3) by (cases r) auto
qed

end
