(* ===== verification/Store_Session.thy ===== *)
theory Store_Session
  imports Store_Locks
begin

text \<open>
  Unlocking a profile, rotating its password and closing it: the steps under the lock, relative to the
  world in which the lock was taken.
\<close>

section \<open>Reading a manifest\<close>

text \<open>The manifest of a profile in a world: a private file of bounded size that parses and is valid.\<close>

definition manifest_at :: "'t crates \<Rightarrow> world \<Rightarrow> names \<Rightarrow> user_manifest \<Rightarrow> bool" where
  "manifest_at K w profile m \<longleftrightarrow>
     private_file w (profile @ [manifest_name]) \<and>
     (\<exists>i bs. lookup w (profile @ [manifest_name]) = Some i \<and> file_bytes w i = Some bs \<and>
        length bs \<le> manifest_size_limit \<and> mj_from_slice (cr_json K) bs = Inr m) \<and>
     validate_manifest (cr_uuid K) m = Inr ()"

lemma read_manifest_Inr:
  assumes "wf_world w" "read_manifest (cr_json K) (cr_uuid K) d w = (Inr m, w')"
  shows "within (names_only {}) w w' \<and> manifest_at K w (locate (w_cwd w) d) m"
proof -
  let ?W = "within (names_only {}) w"
  let ?q = "locate (w_cwd w) (path_join d manifest_name)"
  have q: "?q = locate (w_cwd w) d @ [manifest_name]" by (simp add: locate_join fixed_names_simple)
  have "?W w'" by (rule keepsD [OF read_manifest_keeps within_refl [OF assms(1)] assms(2)])
  from assms(2) obtain md w1 h w2 bs w3 w4 where
      v: "validate_private_file (path_join d manifest_name) w = (Inr md, w1)"
    and o: "open_read True (path_join d manifest_name) w1 = (Inr h, w2)"
    and t: "file_take (manifest_size_limit + 1) h w2 = (Inr bs, w3)"
    and rest: "(if length bs > manifest_size_limit then err (InvalidConfiguration ''user manifest exceeds size limit'')
       else (case mj_from_slice (cr_json K) bs of Inl e \<Rightarrow> err (Serialization e)
          | Inr m \<Rightarrow> andthen (lift_result (validate_manifest (cr_uuid K) m)) (\<lambda>_. ok m))) w4 = (Inr m, w')"
    unfolding read_manifest_def Let_def
    by (auto simp: andthen_Inr_iff ensuring_iff simp del: if_split split: if_split_asm)
  have small: "length bs \<le> manifest_size_limit" using rest by (auto split: if_splits)
  have m: "mj_from_slice (cr_json K) bs = Inr m" and valid: "validate_manifest (cr_uuid K) m = Inr ()"
    using rest small by (cases "mj_from_slice (cr_json K) bs"; auto simp: andthen_Inr_iff)+
  note val = triple_Inr [OF validate_file_triple [OF tick_closed_within [of "names_only {}" w]]
      within_refl [OF assms(1)] v]
  then have w1: "?W w1" and priv: "private_file w1 ?q" using withinD(3) [of "names_only {}" w w1] by auto
  have w2: "?W w2" and ino: "lookup w2 ?q = Some (fh_ino h)"
    using triple_Inr [OF open_read_triple w1 o] by auto
  have look: "lookup w ?q = Some (fh_ino h)" using withinD(10) [OF w2, of ?q] ino by simp
  then have "fh_ino h < w_next w" using assms(1) by (auto simp: wf_world_def)
  then have same: "file_bytes w2 (fh_ino h) = file_bytes w (fh_ino h)"
    using withinD(11) [OF w2] by (simp add: file_bytes_def)
  have "file_bytes w2 (fh_ino h) = Some bs"
    using t small by (auto simp: file_take_def sys_def Let_def split: option.splits)
  with same have "file_bytes w (fh_ino h) = Some bs" by simp
  moreover have "private_file w ?q"
    using priv within_inode_at [OF w1, of ?q] withinD(4) [OF w1] by (simp add: private_file_def)
  ultimately show ?thesis using \<open>?W w'\<close> look small m valid by (auto simp: manifest_at_def q)
qed

text \<open>A manifest stays where it is while only names are added.\<close>

lemma private_file_kept:
  assumes "within S w w'" "lookup w q = Some i" "q \<notin> sc_names S" "i \<notin> sc_inodes S"
  shows "private_file w' q = private_file w q" "lookup w' q = Some i" "file_bytes w' i = file_bytes w i"
proof -
  have i: "i < w_next w" using withinD(9) [OF assms(1)] assms(2) by (auto simp: wf_world_def)
  have "inode_at w' q = inode_at w q" by (rule within_inode_at [OF assms(1,3)]) (use assms in auto)
  then show "private_file w' q = private_file w q" using withinD(4) [OF assms(1)] by (simp add: private_file_def)
  show "lookup w' q = Some i" using withinD(10) [OF assms(1,3)] assms(2) by simp
  show "file_bytes w' i = file_bytes w i" using withinD(11) [OF assms(1) i assms(4)] by (simp add: file_bytes_def)
qed

lemma manifest_at_kept:
  assumes "within S w w'" "profile @ [manifest_name] \<notin> sc_names S" "sc_inodes S = {}" "manifest_at K w profile m"
  shows "manifest_at K w' profile m"
  using private_file_kept [OF assms(1) _ assms(2)] assms(3,4) unfolding manifest_at_def by fastforce

section \<open>The runtime directory\<close>

lemma first_usable_keeps [keeps_rules]:
  "\<forall>p \<in> set ps. missing_on w0 (locate (w_cwd w0) p) \<subseteq> sc_names S \<Longrightarrow> keeps (within S w0) (first_usable ps)"
  by (rule keeps_weaken [OF first_usable_triple])

lemma prepare_root_keeps [keeps_rules]:
  "missing_on w0 (locate (w_cwd w0) p) \<subseteq> sc_names S \<Longrightarrow> keeps (within S w0) (prepare_runtime_root p)"
  by (rule keeps_weaken [OF prepare_root_triple])

lemma missing_additions: "missing_on w q \<subseteq> sc_names (additions w)"
  by (auto simp: missing_on_def)

lemma choose_runtime_root_keeps [keeps_rules]: "keeps (within (additions w0) w0) (choose_runtime_root store)"
proof -
  have "keeps (within (additions w0) w0) (select_runtime_root_from p ps)" for p ps
    unfolding select_runtime_root_from_def by (intro keeps_rules ballI missing_additions)
  then have "keeps (within (additions w0) w0) select_runtime_root"
    unfolding select_runtime_root_def by (rule keeps_state)
  then show ?thesis unfolding choose_runtime_root_def by (intro keeps_rules missing_additions)
qed

lemma td_create_triple:
  assumes "tempdir_documented D" "simple_name name"
  shows "triple (within (additions w0) w0) (td_create_in D root name)
     (\<lambda>p w. within (additions w0) w0 w \<and> (p = path_join root name \<and>
        below (locate (w_cwd w0) root @ [name]) \<subseteq> sc_names (additions w0))) (\<lambda>_. within (additions w0) w0)"
proof (rule triple_fun)
  fix w assume w: "within (additions w0) w0 w"
  obtain r w' where run: "td_create_in D root name w = (r, w')" by fastforce
  have "within (additions w0) w0 w' \<and>
      (\<forall>p. r = Inr p \<longrightarrow> p = path_join root name \<and> unused w (locate (w_cwd w0) root @ [name]))"
    by (rule assms(1) [unfolded tempdir_documented_def, THEN conjunct1, rule_format, OF assms(2) _ w run]) simp
  then show "case td_create_in D root name w of (Inl e, w') \<Rightarrow> within (additions w0) w0 w'
      | (Inr p, w') \<Rightarrow> within (additions w0) w0 w' \<and> (p = path_join root name \<and>
        below (locate (w_cwd w0) root @ [name]) \<subseteq> sc_names (additions w0))"
    using unused_in_scope [OF w] run by (cases r) auto
qed

section \<open>Unlocking\<close>

lemma unseal_directory_keeps [keeps_rules]:
  "tar_confined T \<Longrightarrow> below (locate (w_cwd w0) destination) \<subseteq> sc_names S \<Longrightarrow>
     keeps (within S w0) (unseal_directory A T src destination key)"
  by (rule keepsI, rule unseal_directory_triple)

lemma uuid_parse_simple:
  assumes "uuid_prints U" "uuid_parse U s = Some u"
  shows "simple_name (uuid_to_string U u)"
  using assms by (intro uuid_simple_name) (auto simp: uuid_prints_def)

lemma below_append: "below (q @ r) \<subseteq> below q"
  by (auto dest: append_prefixD)

lemma open_runtime_keeps:
  assumes "uuid_prints (cr_uuid K)" "tempdir_documented (cr_tempdir K)" "tar_confined (cr_tar K)"
  shows "keeps (within (additions w0) w0) (open_runtime K store profile m key lock)"
proof -
  let ?W = "within (additions w0) w0"
  have body: "keeps ?W (on_failure
      (andthen (ensure_private_directory (path_join p codex_home_name))
        (\<lambda>_. andthen (unseal_directory (cr_aead K) (cr_tar K) (path_join profile state_name)
               (path_join p codex_home_name) key) (\<lambda>_. ok x)))
      (td_close (cr_tempdir K) p))"
    if "p = path_join root name \<and> below (locate (w_cwd w0) root @ [name]) \<subseteq> sc_names (additions w0)"
      "simple_name name" for p root name x
  proof -
    have p: "locate (w_cwd w0) p = locate (w_cwd w0) root @ [name]" using that by (simp add: locate_join)
    have "below (locate (w_cwd w0) (path_join p codex_home_name)) \<subseteq> below (locate (w_cwd w0) root @ [name])"
      unfolding locate_join [OF fixed_names_simple(3)] p by (rule below_append)
    with that(1) have home: "below (locate (w_cwd w0) (path_join p codex_home_name)) \<subseteq> sc_names (additions w0)"
      by (elim conjE) (erule (1) order_trans)
    have dir: "below (locate (w_cwd w0) p) \<subseteq> sc_names (additions w0)" unfolding p using that(1) by blast
    show ?thesis by (intro keeps_rules missing_additions assms home dir)
  qed
  have create: "triple ?W (action_err Io (td_create_in (cr_tempdir K) root (uuid_to_string (cr_uuid K) u)))
      (\<lambda>p w. ?W w \<and> (p = path_join root (uuid_to_string (cr_uuid K) u) \<and>
         below (locate (w_cwd w0) root @ [uuid_to_string (cr_uuid K) u]) \<subseteq> sc_names (additions w0))) (\<lambda>_. ?W)"
    if "uuid_parse (cr_uuid K) s = Some u" for root u s
    by (rule triple_action_err, rule td_create_triple [OF assms(2) uuid_parse_simple [OF assms(1) that]])
  show ?thesis
    unfolding open_runtime_def Let_def
    by (rule keeps_andthen [OF choose_runtime_root_keeps], rule keeps_option, rule keeps_basic,
        rule keeps_andthen_known [OF create], assumption, rule body, assumption,
        erule uuid_parse_simple [OF assms(1)])
qed

lemma unlock_profile_keeps:
  assumes "uuid_prints (cr_uuid K)" "tempdir_documented (cr_tempdir K)" "tar_confined (cr_tar K)"
  shows "keeps (within (additions w0) w0) (unlock_profile K store username password lock)"
  unfolding unlock_profile_def by (intro keeps_rules open_runtime_keeps assms)

text \<open>The scope of a session: missing names, the lock file, and no lock once it is over.\<close>

definition session_scope :: "world \<Rightarrow> names \<Rightarrow> nat set \<Rightarrow> scope" where
  "session_scope w q l =
     \<lparr>sc_names = {p. lookup w p = None}, sc_inodes = {i. lookup w q = Some i}, sc_locks = l\<rparr>"

lemma session_scope_simps [simp]:
  "sc_names (session_scope w q l) = {p. lookup w p = None}"
  "sc_inodes (session_scope w q l) = {i. lookup w q = Some i}" "sc_locks (session_scope w q l) = l"
  "session_scope w q l\<lparr>sc_locks := l'\<rparr> = session_scope w q l'"
  by (simp_all add: session_scope_def)

text \<open>The world before the lock was taken may be an earlier one that differs only in its ticks.\<close>

lemma lock_held_earlier:
  assumes "within (names_only {}) w wa" "lock_held wa q h wb"
  shows "lock_held w q h wb"
proof -
  have look: "lookup wa q = lookup w q" "w_locks wa = w_locks w"
    using withinD(10) [OF assms(1), of q] withinD(12) [OF assms(1)] by auto
  then have scope: "lock_scope wa q l = lock_scope w q l" for l by (simp add: lock_scope_def)
  have "within (lock_scope w q {fh_ino h}) w wa" by (rule within_mono [OF assms(1)]) auto
  then have "within (lock_scope w q {fh_ino h}) w wb"
    using assms(2) scope by (auto simp: lock_held_def holds_file_def intro: within_trans)
  then show ?thesis
    using assms(2) look scope withinD(2) [OF assms(1)] by (auto simp: lock_held_def holds_file_def)
qed

lemma lock_scope_earlier:
  assumes "within (names_only {}) w wa" "within (lock_scope wa q {}) wa w'"
  shows "within (lock_scope w q {}) w w'"
proof -
  have "lookup wa q = lookup w q" using withinD(10) [OF assms(1), of q] by auto
  then have "lock_scope wa q {} = lock_scope w q {}" by (simp add: lock_scope_def)
  moreover have "within (lock_scope w q {}) w wa" by (rule within_mono [OF assms(1)]) auto
  ultimately show ?thesis using assms(2) by (auto intro: within_trans)
qed

text \<open>Up to the lock: an early failure, or the lock is held.\<close>

lemma locked_run:
  assumes "wf_world w" "locks_documented L" "q = locate (w_cwd w) d @ [lock_name]"
    and "andthen (action_err g (validate_private_directory d))
           (\<lambda>_. andthen (acquire_lock L (path_join d lock_name)) f) w = (r, w')"
  shows "(\<exists>e. r = Inl e \<and> within (lock_scope w q {}) w w') \<or> (\<exists>h wb. lock_held w q h wb \<and> f h wb = (r, w'))"
proof -
  obtain x wa where v: "validate_private_directory d w = (x, wa)" by fastforce
  have wa: "within (names_only {}) w wa"
    by (rule keepsD [OF validate_keeps(2) within_refl [OF assms(1)] v])
  show ?thesis
  proof (cases x)
    case (Inl e)
    then have "r = Inl (g e)" "w' = wa" using assms(4) v by (auto simp: andthen_def action_err_def)
    then show ?thesis using within_mono [OF wa, of "lock_scope w q {}"] by auto
  next
    case (Inr u)
    obtain y wb where a: "acquire_lock L (path_join d lock_name) wa = (y, wb)" by fastforce
    have q: "q = locate (w_cwd wa) (path_join d lock_name)"
      by (simp add: assms(3) withinD(3) [OF wa] locate_join fixed_names_simple)
    note run = acquire_lock_run [OF withinD(1) [OF wa] assms(2) a q]
    show ?thesis
    proof (cases y)
      case (Inl e)
      then show ?thesis
        using run lock_scope_earlier [OF wa] assms(4) v Inr a by (auto simp: andthen_def action_err_def)
    next
      case (Inr h)
      then show ?thesis
        using run lock_held_earlier [OF wa] assms(4) v \<open>x = Inr u\<close> a by (auto simp: andthen_def action_err_def)
    qed
  qed
qed

text \<open>What is done under the lock and adds names only, seen from before the lock.\<close>

lemma under_lock:
  assumes "lock_held w q h wb" "within (additions wb) wb wc"
  shows "within (session_scope w q {fh_ino h}) w wc" "w_locks wc (fh_ino h) = Some (fh_fd h)"
    "w_next w \<le> fh_fd h" "w_locks w (fh_ino h) = None"
proof -
  have b: "within (lock_scope w q {fh_ino h}) w wb" using assms(1) by (simp add: lock_held_def holds_file_def)
  have "{p. lookup wb p = None} \<subseteq> {p. lookup w p = None}"
    using withinD(10) [OF b] by (auto simp: lock_scope_def) (metis not_None_eq option.distinct(1))
  then have "within (session_scope w q {fh_ino h}) wb wc" by (intro within_mono [OF assms(2)]) auto
  moreover have "within (session_scope w q {fh_ino h}) w wb" by (rule within_mono [OF b]) auto
  ultimately show "within (session_scope w q {fh_ino h}) w wc" by (rule within_trans [rotated])
  show "w_locks wc (fh_ino h) = Some (fh_fd h)"
    using withinD(12) [OF assms(2), of "fh_ino h"] assms(1) by (simp add: lock_held_def)
  show "w_next w \<le> fh_fd h" "w_locks w (fh_ino h) = None"
    using assms(1) by (simp_all add: lock_held_def holds_file_def)
qed

text \<open>Unlocking the file and closing it, whether or not the unlocking fails.\<close>

lemma release_lock:
  assumes "locks_documented L" "within S w wc" "sc_locks S = {fh_ino h}" "w_next w \<le> fh_fd h"
    "w_locks w (fh_ino h) = None" "w_locks wc (fh_ino h) = Some (fh_fd h)"
    and "unlock_file L h wc = (x, wd)"
  shows "within (S\<lparr>sc_locks := {}\<rparr>) w (close_file h wd)" "w_names (close_file h wd) = w_names wc"
    "w_inodes (close_file h wd) = w_inodes wc"
proof -
  have "within S w wd \<and> (w_locks wd (fh_ino h) = Some (fh_fd h) \<or> w_locks wd (fh_ino h) = None) \<and>
      w_names wd = w_names wc \<and> w_inodes wd = w_inodes wc"
    using assms(1,7)
  proof (cases rule: unlock_file_cases)
    case (given_up t u)
    then show ?thesis
      using assms(2,3,6) by (auto simp: within_def wf_world_def same_process_def lookup_def split: if_splits)
  next
    case (refused t e)
    then show ?thesis
      using assms(2,6) by (auto simp: within_def wf_world_def same_process_def lookup_def)
  qed
  then show "within (S\<lparr>sc_locks := {}\<rparr>) w (close_file h wd)" "w_names (close_file h wd) = w_names wc"
    "w_inodes (close_file h wd) = w_inodes wc"
    using close_gives_back [OF _ assms(3-5)] by (auto simp: close_file_def)
qed

section \<open>What the crates promise\<close>

definition crates_documented :: "'t crates \<Rightarrow> bool" where
  "crates_documented K \<longleftrightarrow>
     aead_sizes (cr_aead K) \<and> aead_decrypts (cr_aead K) \<and> tar_confined (cr_tar K) \<and> tar_reads_only (cr_tar K) \<and>
     random_fills (cr_random K) \<and> uuid_prints (cr_uuid K) \<and> tempdir_documented (cr_tempdir K) \<and>
     tempdir_fresh (cr_tempdir K) \<and> locks_documented (cr_locks K) \<and> mj_round_trips (cr_json K) \<and>
     b64_round_trips (cr_base64 K)"

lemma crates_documentedD:
  assumes "crates_documented K"
  shows "aead_sizes (cr_aead K)" "aead_decrypts (cr_aead K)" "tar_confined (cr_tar K)" "tar_reads_only (cr_tar K)"
    "random_fills (cr_random K)" "uuid_prints (cr_uuid K)" "tempdir_documented (cr_tempdir K)"
    "tempdir_fresh (cr_tempdir K)" "locks_documented (cr_locks K)" "mj_round_trips (cr_json K)"
    "b64_round_trips (cr_base64 K)"
  using assms by (simp_all add: crates_documented_def)

section \<open>The outcome of unlocking\<close>

lemma unlock_run:
  assumes "wf_world w" "crates_documented K" "unlock K store username password w = (r, w')"
    and "q = locate (w_cwd w) (user_root store username) @ [lock_name]"
  shows "case r of
      Inl e \<Rightarrow> within (session_scope w q {}) w w'
    | Inr v \<Rightarrow> is_valid_username username \<and>
        (\<exists>h wb. lock_held w q h wb \<and> unlock_profile K store username password h wb = (Inr v, w'))"
proof -
  note K = crates_documentedD [OF assms(2)]
  let ?f = "\<lambda>lock. on_failure (unlock_profile K store username password lock)
              (andthen (ignore_result (unlock_file (cr_locks K) lock)) (\<lambda>_. close_handle lock))"
  show ?thesis
  proof (cases "validate_username username")
    case (Inl e)
    then show ?thesis using assms(1,3) by (auto simp: unlock_def andthen_def)
  next
    case (Inr u)
    then have name: "is_valid_username username" by (auto simp: validate_username_def split: if_splits)
    from Inr have run: "andthen (action_err (\<lambda>_. Authentication) (validate_private_directory (user_root store username)))
           (\<lambda>_. andthen (acquire_lock (cr_locks K) (path_join (user_root store username) lock_name)) ?f) w = (r, w')"
      using assms(3) by (simp add: unlock_def andthen_def)
    from locked_run [OF assms(1) K(9) assms(4) run] show ?thesis
    proof (elim disjE exE conjE)
      fix e assume "r = Inl e" "within (lock_scope w q {}) w w'"
      then show ?thesis using within_mono [of "lock_scope w q {}" w w' "session_scope w q {}"] by auto
    next
      fix h wb assume held: "lock_held w q h wb" and f: "?f h wb = (r, w')"
      show ?thesis
      proof (cases r)
        case (Inr v)
        then show ?thesis using held f name by (auto simp: on_failure_Inr)
      next
        case (Inl e)
        then obtain wc where prof: "unlock_profile K store username password h wb = (Inl e, wc)"
          and close: "w' = close_file h (snd (unlock_file (cr_locks K) h wc))"
          using f by (auto simp: on_failure_Inl ignore_result_def andthen_def attempt_apply drop_file_def)
        have "wf_world wb" using held by (auto simp: lock_held_def holds_file_def dest: withinD(1))
        then have wc: "within (additions wb) wb wc"
          using keepsD [OF unlock_profile_keeps [OF K(6,7,3)] within_refl prof] by blast
        note locked = under_lock [OF held wc]
        show ?thesis
          using release_lock(1) [OF K(9) locked(1) _ locked(3,4,2) prod.collapse [symmetric]] Inl close by simp
      qed
    qed
  qed
qed

lemma open_runtime_Inr:
  assumes "wf_world w" "crates_documented K" "no_interrupts w"
    and "open_runtime K store profile m key lock w = (Inr v, w')"
    and "lookup w (locate (w_cwd w) profile @ [state_name]) = Some i"
  shows "uv_username v = um_username m \<and> uv_data_key v = key \<and> uv_lock v = lock \<and>
    uv_state_path v = path_join profile state_name \<and> uv_codex_home v = path_join (uv_runtime v) codex_home_name \<and>
    (\<exists>bs ps. file_bytes w i = Some bs \<and> accepts_vault (cr_aead K) key ps bs)"
proof -
  note K = crates_documentedD [OF assms(2)]
  let ?W = "within (additions w) w"
  from assms(4) obtain root w1 u runtime w2 w3 w4 where
      c: "choose_runtime_root store w = (Inr root, w1)" and u: "uuid_parse (cr_uuid K) (um_id m) = Some u"
    and t: "td_create_in (cr_tempdir K) root (uuid_to_string (cr_uuid K) u) w1 = (Inr runtime, w2)"
    and e: "ensure_private_directory (path_join runtime codex_home_name) w2 = (Inr (), w3)"
    and s: "unseal_directory (cr_aead K) (cr_tar K) (path_join profile state_name)
              (path_join runtime codex_home_name) key w3 = (Inr (), w4)"
    and v: "v = \<lparr>uv_username = um_username m, uv_codex_home = path_join runtime codex_home_name, uv_runtime = runtime,
               uv_state_path = path_join profile state_name, uv_data_key = key, uv_lock = lock\<rparr>"
    by (auto simp: open_runtime_def Let_def andthen_Inr_iff on_failure_Inr split: option.splits)
  have w1: "?W w1" by (rule keepsD [OF choose_runtime_root_keeps within_refl [OF assms(1)] c])
  have w2: "?W w2"
    using triple_Inr [OF td_create_triple [OF K(7) uuid_parse_simple [OF K(6) u]] w1 t] by blast
  have w3: "?W w3" by (rule keepsD [OF ensure_directory_keeps [OF missing_additions] w2 e])
  have quiet: "no_interrupts w3" using assms(3) withinD(5) [OF w3] by (simp add: no_interrupts_def)
  have at: "locate (w_cwd w3) (path_join profile state_name) = locate (w_cwd w) profile @ [state_name]"
    by (simp add: withinD(3) [OF w3] locate_join [OF state_name_simple])
  have kept: "lookup w3 (locate (w_cwd w) profile @ [state_name]) = Some i" "file_bytes w3 i = file_bytes w i"
    using private_file_kept [OF w3 assms(5)] assms(5) by auto
  from unseal_directory_Inr [OF withinD(1) [OF w3] quiet K(4) s] kept at
  show ?thesis by (auto simp: v)
qed

text \<open>The runtime directory is a new one, named by the UUID of the profile.\<close>

lemma open_runtime_place:
  assumes "wf_world w" "crates_documented K" "open_runtime K store profile m key lock w = (Inr v, w')"
  shows "\<exists>d name. locate (w_cwd w) (uv_runtime v) = d @ [name] \<and> length name = 36 \<and> unused w (d @ [name])"
proof -
  note K = crates_documentedD [OF assms(2)]
  let ?W = "within (additions w) w"
  from assms(3) obtain root w1 u runtime w2 where
      c: "choose_runtime_root store w = (Inr root, w1)" and u: "uuid_parse (cr_uuid K) (um_id m) = Some u"
    and t: "td_create_in (cr_tempdir K) root (uuid_to_string (cr_uuid K) u) w1 = (Inr runtime, w2)"
    and v: "uv_runtime v = runtime"
    by (auto simp: open_runtime_def Let_def andthen_Inr_iff on_failure_Inr split: option.splits)
  have w1: "?W w1" by (rule keepsD [OF choose_runtime_root_keeps within_refl [OF assms(1)] c])
  note simple = uuid_parse_simple [OF K(6) u]
  have "runtime = path_join root (uuid_to_string (cr_uuid K) u)"
      "below (locate (w_cwd w) root @ [uuid_to_string (cr_uuid K) u]) \<subseteq> sc_names (additions w)"
    using triple_Inr [OF td_create_triple [OF K(7) simple] w1 t] by auto
  moreover have "length (uuid_to_string (cr_uuid K) u) = 36" using K(6) u by (auto simp: uuid_prints_def)
  ultimately show ?thesis using simple by (auto simp: v locate_join unused_def)
qed

lemma runtime_apart:
  assumes "unused w (e @ [name])" "length name = 36" "lookup w (d @ [manifest_name]) \<noteq> None"
  shows "\<not> prefix (e @ [name]) (d @ [state_name])"
proof
  assume "prefix (e @ [name]) (d @ [state_name])"
  moreover have "name \<noteq> state_name" using assms(2) by (auto simp: state_name_def)
  ultimately have "prefix (e @ [name]) (d @ [manifest_name])" by (auto simp: prefix_snoc)
  then show False using assms(1,3) by (auto simp: unused_def)
qed

lemma unlock_profile_Inr:
  assumes "wf_world w" "crates_documented K"
    and "unlock_profile K store username password lock w = (Inr v, w')"
  defines "d \<equiv> locate (w_cwd w) (user_root store username)"
  shows "\<exists>m. manifest_at K w d m \<and> check_password K username password m = Inr (uv_data_key v) \<and>
    uv_username v = um_username m \<and> uv_lock v = lock \<and>
    uv_state_path v = path_join (user_root store username) state_name \<and>
    uv_codex_home v = path_join (uv_runtime v) codex_home_name \<and>
    \<not> prefix (locate (w_cwd w) (uv_runtime v)) (d @ [state_name]) \<and>
    (\<forall>i. no_interrupts w \<longrightarrow> lookup w (d @ [state_name]) = Some i \<longrightarrow>
       (\<exists>bs ps. file_bytes w i = Some bs \<and> accepts_vault (cr_aead K) (uv_data_key v) ps bs))"
proof -
  from assms(3) obtain m w1 key where
      r: "read_manifest (cr_json K) (cr_uuid K) (user_root store username) w = (Inr m, w1)"
    and c: "check_password K username password m = Inr key"
    and o: "open_runtime K store (user_root store username) m key lock w1 = (Inr v, w')"
    by (auto simp: unlock_profile_def andthen_Inr_iff)
  note rd = read_manifest_Inr [OF assms(1) r]
  then have w1: "within (names_only {}) w w1" by blast
  have fields: "uv_username v = um_username m \<and> uv_data_key v = key \<and> uv_lock v = lock \<and>
    uv_state_path v = path_join (user_root store username) state_name \<and>
    uv_codex_home v = path_join (uv_runtime v) codex_home_name"
    using o by (auto simp: open_runtime_def Let_def andthen_Inr_iff on_failure_Inr split: option.splits)
  have "\<exists>bs ps. file_bytes w i = Some bs \<and> accepts_vault (cr_aead K) key ps bs"
    if quiet: "no_interrupts w" and i: "lookup w (d @ [state_name]) = Some i" for i
  proof -
    have "no_interrupts w1" using quiet withinD(5) [OF w1] by (simp add: no_interrupts_def)
    then show ?thesis
      using open_runtime_Inr [OF withinD(1) [OF w1] assms(2) _ o, of i] private_file_kept [OF w1 i] i
      by (simp add: d_def withinD(3) [OF w1])
  qed
  moreover have "\<not> prefix (locate (w_cwd w) (uv_runtime v)) (d @ [state_name])"
  proof -
    obtain e name where "locate (w_cwd w1) (uv_runtime v) = e @ [name]" "length name = 36" "unused w1 (e @ [name])"
      using open_runtime_place [OF withinD(1) [OF w1] assms(2) o] by blast
    moreover have "lookup w1 (d @ [manifest_name]) \<noteq> None"
      using rd withinD(10) [OF w1, of "d @ [manifest_name]"] by (auto simp: manifest_at_def d_def)
    ultimately show ?thesis using runtime_apart withinD(3) [OF w1] by metis
  qed
  ultimately show ?thesis using rd c fields by (auto simp: d_def)
qed

end
