(* ===== verification/Store_Writes.thy ===== *)
theory Store_Writes
  imports Store_Session
begin

text \<open>
  The manifests the store writes: a new one in a profile being created, and the replacement of one by
  a file written beside it and renamed into place.
\<close>

section \<open>Writing a manifest\<close>

text \<open>What a manifest file holds: the buffers of the printer and a newline.\<close>

definition manifest_text :: "manifest_json \<Rightarrow> user_manifest \<Rightarrow> bytes \<Rightarrow> bool" where
  "manifest_text M m bs \<longleftrightarrow> (\<exists>buffers. mj_pretty M m = Inr buffers \<and> bs = concat buffers @ as_bytes [CHR 0x0A])"

lemma manifest_text_parses: "mj_round_trips M \<Longrightarrow> manifest_text M m bs \<Longrightarrow> mj_from_slice M bs = Inr m"
  by (auto simp: manifest_text_def mj_round_trips_def)

lemma temp_write_triple:
  "triple (\<lambda>w. writing_temp w0 q h w \<and> file_content h w = c) (file_write_all h b)
     (\<lambda>_ w. writing_temp w0 q h w \<and> file_content h w = c @ b) (\<lambda>_. writing_temp w0 q h)"
proof (rule tripleI)
  fix w u w' assume w: "writing_temp w0 q h w \<and> file_content h w = c" and run: "file_write_all h b w = (Inr u, w')"
  have "file_live h w" using w by (simp add: writing_temp_def)
  from file_write_cases [OF this run] writing_temp_write [OF _ run] w
  show "writing_temp w0 q h w' \<and> file_content h w' = c @ b" by auto
next
  fix w e w' assume "writing_temp w0 q h w \<and> file_content h w = c" and run: "file_write_all h b w = (Inl e, w')"
  then show "writing_temp w0 q h w'" using writing_temp_write [OF _ run] by blast
qed

lemma temp_write_buffers:
  "triple (\<lambda>w. writing_temp w0 q h w \<and> file_content h w = c) (write_buffers h bs)
     (\<lambda>_ w. writing_temp w0 q h w \<and> file_content h w = c @ concat bs) (\<lambda>_. writing_temp w0 q h)"
proof (induction bs arbitrary: c)
  case (Cons b bs)
  have "triple (\<lambda>w. writing_temp w0 q h w \<and> file_content h w = c @ b) (write_buffers h bs)
     (\<lambda>_ w. writing_temp w0 q h w \<and> file_content h w = c @ concat (b # bs)) (\<lambda>_. writing_temp w0 q h)"
    using Cons [of "c @ b"] by simp
  then show ?case unfolding write_buffers.simps by (rule triple_andthen [OF temp_write_triple])
qed (auto intro: triple_ok)

lemma write_json_triple:
  "triple (\<lambda>w. writing_temp w0 q h w \<and> file_content h w = []) (write_json M h m)
     (\<lambda>_ w. writing_temp w0 q h w \<and> manifest_text M m (file_content h w)) (\<lambda>_. writing_temp w0 q h)"
proof (cases "mj_pretty M m")
  case (Inl e)
  then show ?thesis by (auto simp: write_json_def intro!: triple_err)
next
  case (Inr bs)
  let ?J = "\<lambda>c w. writing_temp w0 q h w \<and> file_content h w = c"
  have bufs: "triple (?J []) (action_err g (write_buffers h bs)) (\<lambda>_. ?J (concat bs)) (\<lambda>_. writing_temp w0 q h)" for g
    by (rule triple_action_err, rule triple_post [OF temp_write_buffers]) simp
  have newline: "triple (?J c) (action_err g (file_write_all h b)) (\<lambda>_. ?J (c @ b)) (\<lambda>_. writing_temp w0 q h)" for g c b
    by (rule triple_action_err, rule temp_write_triple)
  have sync: "triple (?J c) (action_err g (file_sync_all h)) (\<lambda>_. ?J c) (\<lambda>_. writing_temp w0 q h)" for g c
    by (rule triple_action_err, rule triple_weaken [OF file_sync_all_triple [of "?J c"]])
       (use writing_temp_tick in \<open>auto simp: tick_closed_def\<close>)
  have "triple (?J []) (write_json M h m) (\<lambda>_. ?J (concat bs @ as_bytes [CHR 0x0A])) (\<lambda>_. writing_temp w0 q h)"
    unfolding write_json_def Inr sum.case
    by (rule triple_andthen [OF bufs], rule triple_andthen [OF newline], rule sync)
  then show ?thesis by (rule triple_post) (use Inr in \<open>auto simp: manifest_text_def\<close>)
qed

lemma write_private_json_triple:
  assumes "q = locate (w_cwd w0) p"
  shows "triple (within (names_only {q}) w0) (write_private_json M p m)
     (\<lambda>_. temp_written w0 q (manifest_text M m)) (\<lambda>_. within (names_only {q}) w0)"
proof -
  have opn: "triple (within (names_only {q}) w0) (action_err Io (open_create_new private_file_mode p))
      (\<lambda>h w. writing_temp w0 q h w \<and> file_content h w = []) (\<lambda>_. within (names_only {q}) w0)"
    by (rule triple_action_err, rule open_create_new_triple [OF assms])
  have close: "triple (\<lambda>w. writing_temp w0 q h w \<and> manifest_text M m (file_content h w)) (drop_file h)
      (\<lambda>_. temp_written w0 q (manifest_text M m)) (\<lambda>_. temp_written w0 q (manifest_text M m))" for h
    by (rule drop_temp_triple)
  have abandon: "triple (writing_temp w0 q h) (drop_file h) (\<lambda>_. within (names_only {q}) w0)
      (\<lambda>_. within (names_only {q}) w0)" for h
    by (rule tripleI) (auto simp: drop_file_def writing_temp_def within_close)
  show ?thesis
    unfolding write_private_json_def
    by (rule triple_andthen [OF opn], rule triple_ensuring [OF write_json_triple close abandon])
qed

text \<open>A file put in place stays there while other names change.\<close>

lemma sealed_at_kept:
  assumes "sealed_at w0 q B w" "within S w w'" "q \<notin> sc_names S" "sc_inodes S = {}"
  shows "sealed_at w0 q B w'"
proof -
  obtain i n bs where i: "w_next w0 \<le> i" "lookup w q = Some i" "w_inodes w i = Some n"
      "private_inode (w_euid w0) n" "file_bytes w i = Some bs" "B bs"
    using assms(1) by (auto simp: sealed_at_def)
  have "i < w_next w" using withinD(9) [OF assms(2)] i(2) by (auto simp: wf_world_def)
  then have "w_inodes w' i = w_inodes w i" using withinD(11) [OF assms(2)] assms(4) by simp
  moreover have "lookup w' q = Some i" using withinD(10) [OF assms(2,3)] i(2) by simp
  ultimately show ?thesis using i by (auto simp: sealed_at_def file_bytes_def)
qed

lemma sealed_at_earlier:
  "sealed_at w1 q B w \<Longrightarrow> within S w0 w1 \<Longrightarrow> sealed_at w0 q B w"
  by (auto simp: sealed_at_def withinD(4) dest: withinD(2))

section \<open>Replacing a manifest\<close>

definition manifest_temp :: "string \<Rightarrow> string" where
  "manifest_temp uuid = ''.manifest-'' @ uuid @ ''.tmp''"

lemma manifest_names_differ [simp]:
  "manifest_temp uuid \<noteq> manifest_name" "manifest_temp uuid \<noteq> state_name" "manifest_temp uuid \<noteq> lock_name"
  "manifest_name \<noteq> state_name" "manifest_name \<noteq> lock_name" "state_name \<noteq> lock_name"
  "state_name \<noteq> manifest_name" "lock_name \<noteq> manifest_name" "lock_name \<noteq> state_name"
  by (simp_all add: manifest_temp_def manifest_name_def state_name_def lock_name_def)

text \<open>The names a replacement may change, and its outcomes.\<close>

definition replace_scope :: "names \<Rightarrow> scope" where
  "replace_scope d = names_only (below (d @ [manifest_name]) \<union> {q. \<exists>uuid. prefix (d @ [manifest_temp uuid]) q})"

lemma replace_private_json_run:
  assumes "wf_world w" "uuid_prints U" "q = locate (w_cwd w) d"
    and "replace_private_json M U (path_join d manifest_name) m w = (r, w')"
  shows "within (replace_scope q) w w' \<and>
    (r = Inr () \<longrightarrow> sealed_at w (q @ [manifest_name]) (manifest_text M m) w') \<and>
    (\<forall>e. r = Inl e \<longrightarrow> (\<forall>p. prefix (q @ [manifest_name]) p \<longrightarrow> lookup w' p = lookup w p) \<or>
       sealed_at w (q @ [manifest_name]) (manifest_text M m) w')"
proof -
  define uuid where "uuid = uuid_to_string U (uuid_new_v4 U (w_tick w))"
  define temp where "temp = path_join d (manifest_temp uuid)"
  define w1 where "w1 = w\<lparr>w_tick := Suc (w_tick w)\<rparr>"
  let ?qd = "q @ [manifest_name]" let ?qt = "q @ [manifest_temp uuid]"
  let ?B = "manifest_text M m"
  let ?S = "names_only (below ?qt \<union> below ?qd)"
  let ?body = "andthen (write_private_json M temp m)
      (\<lambda>_. andthen (action_err Io (rename temp (path_join d manifest_name))) (\<lambda>_. sync_directory d))"
  let ?done = "\<lambda>w'. within ?S w w' \<and> sealed_at w ?qd ?B w'"
  have fresh: "fresh_uuid U w = (Inr uuid, w1)" by (simp add: fresh_uuid_def uuid_def w1_def)
  have run: "on_failure ?body (remove_file temp) w1 = (r, w')"
    using assms(4) unfolding replace_private_json_def path_parent_join [OF fixed_names_simple(1)] option.case
      andthen_ok [where m = "fresh_uuid U" and s = w, OF fresh] Let_def temp_def manifest_temp_def .
  have simple: "simple_name (manifest_temp uuid)"
    using uuid_names_simple(2) [OF assms(2)] by (simp add: manifest_temp_def uuid_def)
  have qt: "?qt = locate (w_cwd w) temp" by (simp add: temp_def locate_join [OF simple] assms(3))
  have qd: "?qd = locate (w_cwd w) (path_join d manifest_name)"
    by (simp add: locate_join fixed_names_simple assms(3))
  have apart: "\<not> prefix ?qt ?qd" "\<not> prefix ?qd ?qt" by (simp_all add: same_length_prefix) (metis manifest_names_differ(1))
  have ren: "triple (temp_written w ?qt ?B) (action_err Io (rename temp (path_join d manifest_name)))
      (\<lambda>_. ?done) (\<lambda>_ v. within (names_only {?qt}) w v \<or> ?done v)"
    by (rule triple_action_err, rule triple_weaken [OF rename_temp_triple [OF qt qd apart, of ?B]]) auto
  have sync: "triple ?done (sync_directory d) (\<lambda>_. ?done) (\<lambda>_ v. within (names_only {?qt}) w v \<or> ?done v)"
  proof -
    have "keeps ?done (sync_directory d)"
    proof (rule keeps_fun)
      fix v x v' assume v: "?done v" and sy: "sync_directory d v = (x, v')"
      have "within (names_only {}) v v'"
        by (rule keepsD [OF sync_directory_keeps within_refl sy]) (use v in \<open>auto dest: withinD(1)\<close>)
      then show "?done v'"
        using v sealed_at_kept [of w ?qd ?B v "names_only {}" v'] within_mono [of "names_only {}" v v' ?S]
        by (auto intro: within_trans)
    qed
    then show ?thesis by (rule triple_weaken [OF keeps_triple]) auto
  qed
  have made: "triple (within (names_only {?qt}) w) (write_private_json M temp m)
      (\<lambda>_. temp_written w ?qt ?B) (\<lambda>_ v. within (names_only {?qt}) w v \<or> ?done v)"
    by (rule triple_weaken [OF write_private_json_triple [OF qt]]) auto
  have body: "triple (within (names_only {?qt}) w) ?body (\<lambda>_. ?done) (\<lambda>_ v. within (names_only {?qt}) w v \<or> ?done v)"
    by (rule triple_andthen [OF made], rule triple_andthen [OF ren], rule sync)
  have clean: "keeps (\<lambda>v. within (names_only {?qt}) w v \<or> ?done v) (remove_file temp)"
  proof (rule keeps_fun)
    fix v x v' assume v: "within (names_only {?qt}) w v \<or> ?done v" and rm: "remove_file temp v = (x, v')"
    have wf: "wf_world v" and cwd: "w_cwd v = w_cwd w" using v by (auto dest: withinD)
    have 1: "within (names_only {?qt}) v v'"
      by (rule keepsD [OF remove_keeps(2) within_refl [OF wf] rm]) (simp add: cwd qt)
    have "sealed_at w ?qd ?B v \<Longrightarrow> sealed_at w ?qd ?B v'"
      by (rule sealed_at_kept [OF _ 1]) (use apart in auto)
    then show "within (names_only {?qt}) w v' \<or> ?done v'"
      using v 1 within_mono [OF 1, of ?S] by (auto intro: within_trans)
  qed
  have all: "triple (within (names_only {?qt}) w) (on_failure ?body (remove_file temp)) (\<lambda>_. ?done)
      (\<lambda>_ v. within (names_only {?qt}) w v \<or> ?done v)"
    by (rule triple_on_failure [OF body]) (rule keeps_triple [OF clean])
  have w1: "within (names_only {?qt}) w w1" unfolding w1_def by (rule within_tick) (rule within_refl [OF assms(1)])
  have scope: "sc_names ?S \<subseteq> sc_names (replace_scope q)" "?qt \<in> sc_names (replace_scope q)"
    by (auto simp: replace_scope_def)
  have S: "within (replace_scope q) w w'" if "within (names_only {?qt}) w w' \<or> ?done w'"
    using that scope by (auto elim!: within_mono simp: replace_scope_def)
  show ?thesis
  proof (cases r)
    case (Inr u)
    then have "?done w'" using triple_Inr [OF all w1] run by blast
    then show ?thesis using S Inr by auto
  next
    case (Inl e)
    then have two: "within (names_only {?qt}) w w' \<or> ?done w'" using triple_Inl [OF all w1] run by blast
    have "lookup w' p = lookup w p" if "within (names_only {?qt}) w w'" "prefix ?qd p" for p
    proof -
      have "p \<noteq> ?qt" using that(2) apart(2) by blast
      then show ?thesis using withinD(10) [OF that(1), of p] by simp
    qed
    then show ?thesis using S [OF two] two Inl by auto
  qed
qed

section \<open>Rotating a password\<close>

lemma associated_data_wrapped: "associated_data (m\<lparr>um_wrapped_data_key := k\<rparr>) = associated_data m"
  by (simp add: associated_data_def cong: sum.case_cong)

lemma check_password_Inr:
  "check_password K username password m = Inr key \<longleftrightarrow>
     eq_ignore_ascii_case (um_username m) username \<and>
     (\<exists>k ad. derive_key (cr_base64 K) (cr_argon2 K) password (um_kdf m) = Inr k \<and> associated_data m = Inr ad \<and>
        unwrap_data_key (cr_aead K) (cr_base64 K) (um_wrapped_data_key m) k ad = Inr key)"
  by (auto simp: check_password_def split: sum.splits)

text \<open>The state under the lock when a rotation ends, relative to the world in which the lock was taken.\<close>

lemma rotate_manifest_run:
  assumes "wf_world w" "crates_documented K" "d = locate (w_cwd w) profile"
    and "rotate_manifest K profile username current_password new_password w = (r, w')"
  shows "within (replace_scope d) w w'"
    and "r = Inr () \<Longrightarrow> \<exists>m m' key. manifest_at K w d m \<and> check_password K username current_password m = Inr key \<and>
      check_password K username new_password m' = Inr key \<and>
      m' = m\<lparr>um_kdf := um_kdf m', um_wrapped_data_key := um_wrapped_data_key m'\<rparr> \<and>
      sealed_at w (d @ [manifest_name]) (manifest_text (cr_json K) m') w'"
    and "r = Inl e \<Longrightarrow> (\<forall>p. prefix (d @ [manifest_name]) p \<longrightarrow> lookup w' p = lookup w p) \<or>
      (\<exists>m' key. check_password K username new_password m' = Inr key \<and>
         sealed_at w (d @ [manifest_name]) (manifest_text (cr_json K) m') w')"
proof -
  note K = crates_documentedD [OF assms(2)]
  let ?W = "within (names_only {}) w"
  have tick: "tick_closed ?W" by simp
  let ?all = "rotated_manifest K profile username current_password new_password"
  obtain x w1 where all: "?all w = (x, w1)" by fastforce
  have keep: "keeps ?W ?all"
    unfolding rotated_manifest_def rewrap_manifest_def by (intro keeps_rules tick)
  have w1: "?W w1" by (rule keepsD [OF keep within_refl [OF assms(1)] all])
  have d: "d = locate (w_cwd w1) profile" by (simp add: assms(3) withinD(3) [OF w1])
  have same: "lookup w1 p = lookup w p" for p using withinD(10) [OF w1] by simp
  have prepared: "manifest_at K w d m \<and> check_password K username current_password m = Inr key \<and>
      check_password K username new_password m' = Inr key \<and>
      m' = m\<lparr>um_kdf := um_kdf m', um_wrapped_data_key := um_wrapped_data_key m'\<rparr>"
    if "read_manifest (cr_json K) (cr_uuid K) profile w = (Inr m, v)"
      "check_password K username current_password m = Inr key" "rewrap_manifest K new_password m key v = (Inr m', w1)" for m key m' v
  proof -
    from that(3) obtain kdf v2 wk ad wr where kdf: "derive_key (cr_base64 K) (cr_argon2 K) new_password kdf = Inr wk"
        "associated_data (m\<lparr>um_kdf := kdf\<rparr>) = Inr ad"
      and wrap: "wrap_data_key (cr_aead K) (cr_base64 K) (os_random (cr_random K)) key wk ad v2 = (Inr wr, w1)"
      and m': "m' = m\<lparr>um_kdf := kdf, um_wrapped_data_key := wr\<rparr>"
      by (auto simp: rewrap_manifest_def andthen_Inr_iff)
    from that(2) obtain k ad0 where old: "eq_ignore_ascii_case (um_username m) username"
        "unwrap_data_key (cr_aead K) (cr_base64 K) (um_wrapped_data_key m) k ad0 = Inr key"
      by (auto simp: check_password_Inr)
    have "unwrap_data_key (cr_aead K) (cr_base64 K) wr wk ad = Inr key"
      by (rule rewrap_same_key [OF K(1,2,11) old(2) wrap])
    then have "check_password K username new_password m' = Inr key"
      using kdf old(1) by (auto simp: check_password_Inr m' associated_data_wrapped)
    then show ?thesis using read_manifest_Inr [OF assms(1) that(1)] that(2) assms(3) by (simp add: m')
  qed
  have all_Inr: "\<exists>m key. manifest_at K w d m \<and> check_password K username current_password m = Inr key \<and>
      check_password K username new_password m' = Inr key \<and>
      m' = m\<lparr>um_kdf := um_kdf m', um_wrapped_data_key := um_wrapped_data_key m'\<rparr>" if "x = Inr m'" for m'
    using all prepared unfolding that rotated_manifest_def by (fastforce simp: andthen_Inr_iff)
  have final: "within (replace_scope d) w w' \<and>
      (r = Inr () \<longrightarrow> sealed_at w (d @ [manifest_name]) (manifest_text (cr_json K) m') w') \<and>
      (r = Inl e \<longrightarrow> (\<forall>p. prefix (d @ [manifest_name]) p \<longrightarrow> lookup w' p = lookup w p) \<or>
         sealed_at w (d @ [manifest_name]) (manifest_text (cr_json K) m') w')" if "x = Inr m'" for m'
  proof -
    have run: "replace_private_json (cr_json K) (cr_uuid K) (path_join profile manifest_name) m' w1 = (r, w')"
      using assms(4) all that by (simp add: rotate_manifest_def andthen_def)
    from replace_private_json_run [OF withinD(1) [OF w1] K(6) d run] same
    show ?thesis
      using within_mono [OF w1, of "replace_scope d"] sealed_at_earlier [OF _ w1]
      by (auto intro: within_trans simp: replace_scope_def)
  qed
  have early: "r = Inl e' \<and> w' = w1" if "x = Inl e'" for e'
    using assms(4) all that by (simp add: rotate_manifest_def andthen_def)
  show "within (replace_scope d) w w'"
    using final early within_mono [OF w1, of "replace_scope d"] by (cases x) (auto simp: replace_scope_def)
  { assume r: "r = Inr ()"
    then obtain m' where x: "x = Inr m'" using early by (cases x) auto
    show "\<exists>m m' key. manifest_at K w d m \<and> check_password K username current_password m = Inr key \<and>
      check_password K username new_password m' = Inr key \<and>
      m' = m\<lparr>um_kdf := um_kdf m', um_wrapped_data_key := um_wrapped_data_key m'\<rparr> \<and>
      sealed_at w (d @ [manifest_name]) (manifest_text (cr_json K) m') w'"
      using final [OF x] all_Inr [OF x] r by blast }
  assume r: "r = Inl e"
  show "(\<forall>p. prefix (d @ [manifest_name]) p \<longrightarrow> lookup w' p = lookup w p) \<or>
      (\<exists>m' key. check_password K username new_password m' = Inr key \<and>
         sealed_at w (d @ [manifest_name]) (manifest_text (cr_json K) m') w')"
  proof (cases x)
    case (Inl e')
    then show ?thesis using early same by simp
  next
    case (Inr m')
    then show ?thesis using final [OF Inr] all_Inr [OF Inr] r by blast
  qed
qed

end
