(* ===== verification/Store_Creation.thy ===== *)
theory Store_Creation
  imports Store_Writes
begin

text \<open>
  What a successful \<open>add_user\<close> has made: a profile directory with a manifest that the password opens
  and a sealed empty state under the data key in it.
\<close>

section \<open>Filling the staging directory\<close>

lemma rename_Inr:
  assumes "rename a b w = (Inr u, w')" "locate (w_cwd w) a = qa" "locate (w_cwd w) b = qb" "length qa = length qb" "qa \<noteq> qb"
  shows "w' = move_tree qa qb (w\<lparr>w_tick := Suc (w_tick w)\<rparr>)"
  using assms by (auto simp: rename_def sys_def Let_def same_length_prefix split: option.splits if_splits)

lemma sealed_at_moved:
  assumes "sealed_at w0 (qa @ r) B w" "length qa = length qb" "qa \<noteq> qb"
  shows "sealed_at w0 (qb @ r) B (move_tree qa qb (w\<lparr>w_tick := t\<rparr>))"
proof -
  have "\<not> prefix qa qb" "\<not> prefix qb qa" using assms(2,3) by (auto simp: same_length_prefix)
  then have "lookup (move_tree qa qb (w\<lparr>w_tick := t\<rparr>)) (qb @ r) = lookup w (qa @ r)"
    by (simp add: lookup_move_tree)
  then show ?thesis using assms(1) by (auto simp: sealed_at_def)
qed

lemma fresh_tempdir_run:
  assumes "tempdir_fresh D" "wf_world w" "td_tempdir D w = (Inr p, w')"
  shows "within (additions w) w w' \<and> unused w (locate (w_cwd w) p) \<and> (\<exists>d name. locate (w_cwd w) p = d @ [''.tmp'' @ name])"
  using assms(1) [unfolded tempdir_fresh_def, rule_format, OF _ within_refl [OF assms(2)] assms(3), of "additions w"]
  by auto

text \<open>A temporary directory made beside an existing name is apart from the profile.\<close>

lemma temp_apart:
  assumes "unused w (d @ [''.tmp'' @ name])" "lookup w (U @ r) \<noteq> None" "\<not> prefix ''.tmp'' x" "\<not> prefix ''.tmp'' y"
  shows "\<not> prefix (d @ [''.tmp'' @ name]) (U @ [x, y])"
proof
  assume pre: "prefix (d @ [''.tmp'' @ name]) (U @ [x, y])"
  have "\<not> prefix (d @ [''.tmp'' @ name]) U"
    using assms(1,2) by (auto simp: unused_def dest: prefix_prefix)
  then have "prefix (d @ [''.tmp'' @ name]) (U @ [x]) \<or> d @ [''.tmp'' @ name] = U @ [x, y]"
    using pre prefix_snoc [of "d @ [''.tmp'' @ name]" "U @ [x]" y] by auto
  then have "d @ [''.tmp'' @ name] = U @ [x] \<or> d @ [''.tmp'' @ name] = U @ [x, y]"
    using \<open>\<not> prefix (d @ [''.tmp'' @ name]) U\<close> by (auto simp: prefix_snoc)
  then have "''.tmp'' @ name \<in> {x, y}" by (auto simp: append_eq_append_conv2 append_eq_Cons_conv Cons_eq_append_conv)
  then show False using assms(3,4) by (auto simp: prefix_def)
qed

lemma fill_profile_Inr:
  assumes "wf_world w" "crates_documented K" "locate (w_cwd w) staging = U @ [s]" "locate (w_cwd w) profile = U @ [u]"
    and "s \<noteq> u" "\<not> prefix ''.tmp'' u" and "fill_profile K staging profile m key w = (Inr x, w')"
  shows "\<exists>empty. sealed_at w (U @ [u, manifest_name]) (manifest_text (cr_json K) m) w' \<and>
    sealed_at w (U @ [u, state_name]) (sealed_bytes (cr_aead K) (cr_tar K) empty key) w'"
proof -
  note K = crates_documentedD [OF assms(2)]
  let ?M = "manifest_text (cr_json K) m"
  from assms(7) obtain w1 empty w2 w3 w4 where
      wr: "write_private_json (cr_json K) (path_join staging manifest_name) m w = (Inr (), w1)"
    and tmp: "td_tempdir (cr_tempdir K) w1 = (Inr empty, w2)"
    and seal: "seal_directory (cr_aead K) (cr_tar K) (cr_random K) (cr_uuid K) empty
                 (path_join staging state_name) key w2 = (Inr (), w3)"
    and ren: "rename staging profile w3 = (Inr (), w4)"
    and close0: "w' = snd (action_err Io (td_close (cr_tempdir K) empty) w4)"
    by (auto simp: fill_profile_def andthen_Inr_iff ensuring_iff)
  have close: "w' = snd (td_close (cr_tempdir K) empty w4)"
    using close0 by (simp add: action_err_apply split_def split: sum.splits)
  let ?B = "sealed_bytes (cr_aead K) (cr_tar K) empty key"
  have qm: "U @ [s, manifest_name] = locate (w_cwd w) (path_join staging manifest_name)"
    by (simp add: locate_join fixed_names_simple assms(3))
  have 1: "within (names_only {U @ [s, manifest_name]}) w w1" "sealed_at w (U @ [s, manifest_name]) ?M w1"
    using triple_Inr [OF write_private_json_triple [OF qm] within_refl [OF assms(1)] wr] by (auto simp: temp_written_def)
  note cwd1 = withinD(3) [OF 1(1)]
  from fresh_tempdir_run [OF K(8) withinD(1) [OF 1(1)] tmp] obtain d name where
      2: "within (additions w1) w1 w2" and free: "unused w1 (locate (w_cwd w1) empty)"
    and e: "locate (w_cwd w1) empty = d @ [''.tmp'' @ name]" by blast
  have exists: "lookup w1 (U @ [s, manifest_name]) \<noteq> None" using 1(2) by (auto simp: sealed_at_def)
  have m2: "sealed_at w (U @ [s, manifest_name]) ?M w2" by (rule sealed_at_kept [OF 1(2) 2]) (use exists in auto)
  have cwd2: "w_cwd w2 = w_cwd w" using withinD(3) [OF 2] cwd1 by simp
  define qt where "qt = U @ [s] @ [temp_name (uuid_to_string (cr_uuid K) (uuid_new_v4 (cr_uuid K) (w_tick w2)))]"
  have apart: "temp_name t \<noteq> manifest_name" "temp_name t \<noteq> state_name" "state_name \<noteq> temp_name t" for t
    by (simp_all add: temp_name_def manifest_name_def state_name_def)
  from seal_directory_run [OF withinD(1) [OF 2] K(5) seal]
  have 3: "within (names_only (below qt \<union> below (U @ [s, state_name]))) w2 w3" "sealed_at w2 (U @ [s, state_name]) ?B w3"
    by (simp_all add: qt_def cwd2 assms(3))
  have m3: "sealed_at w (U @ [s, manifest_name]) ?M w3"
    by (rule sealed_at_kept [OF m2 3(1)]) (auto simp: qt_def same_length_prefix apart)
  have earlier: "sealed_at w q P v" if "sealed_at w2 q P v" for q P v
    using sealed_at_earlier [OF sealed_at_earlier [OF that 2] 1(1)] .
  have cwd3: "w_cwd w3 = w_cwd w" using withinD(3) [OF 3(1)] cwd2 by simp
  have w4: "w4 = move_tree (U @ [s]) (U @ [u]) (w3\<lparr>w_tick := Suc (w_tick w3)\<rparr>)"
    by (rule rename_Inr [OF ren]) (simp_all add: cwd3 assms(3-5))
  have 4: "sealed_at w (U @ [u, manifest_name]) ?M w4" "sealed_at w (U @ [u, state_name]) ?B w4"
    using sealed_at_moved [of w "U @ [s]" "[manifest_name]" ?M w3 "U @ [u]"] m3
      sealed_at_moved [of w "U @ [s]" "[state_name]" ?B w3 "U @ [u]"] earlier [OF 3(2)]
      assms(5) by (simp_all add: w4)
  have wf4: "wf_world w4"
  proof -
    have "within (names_only UNIV) w3 (w3\<lparr>w_tick := Suc (w_tick w3)\<rparr>)"
      by (rule within_tick [OF within_refl [OF withinD(1) [OF 3(1)]]])
    then have "within (names_only UNIV) w3 w4"
      unfolding w4 by (rule within_move_tree) (use assms(5) in \<open>auto simp: same_length_prefix\<close>)
    then show ?thesis by (rule withinD(1))
  qed
  have cwd4: "w_cwd w4 = w_cwd w" by (simp add: w4 move_tree_def cwd3)
  have 5: "within (names_only (below (d @ [''.tmp'' @ name]))) w4 w'"
    unfolding close
    by (rule keepsD [OF td_close_keeps [OF K(7)] within_refl [OF wf4] prod.collapse [symmetric]])
       (use e in \<open>simp add: cwd4 cwd1\<close>)
  have not_temp: "\<not> prefix ''.tmp'' manifest_name" "\<not> prefix ''.tmp'' state_name"
    by (simp_all add: manifest_name_def state_name_def)
  have out: "U @ [u, manifest_name] \<notin> below (d @ [''.tmp'' @ name])" "U @ [u, state_name] \<notin> below (d @ [''.tmp'' @ name])"
    using temp_apart [of w1 d name U "[s, manifest_name]" u] free e exists assms(6) not_temp by auto
  show ?thesis
    using sealed_at_kept [OF 4(1) 5] sealed_at_kept [OF 4(2) 5] out by auto
qed

section \<open>Creating a profile\<close>

lemma new_header_Inr:
  "new_header now fresh username kdf = Inr m \<longleftrightarrow>
     (\<exists>t. now = Some t \<and>
        m = \<lparr>um_version = manifest_version, um_id = fresh, um_username = username, um_created_at = t, um_kdf = kdf,
             um_wrapped_data_key = \<lparr>wk_algorithm = wrap_algorithm, wk_iv = [], wk_ciphertext = [],
                                    wk_authentication_tag = []\<rparr>,
             um_vault_format = vault_format\<rparr>)"
  by (auto simp: new_header_def split: option.splits)

lemma manifest_header_Inr:
  assumes "manifest_header U username kdf w = (Inr m, w')" "uuid_prints U"
  shows "um_username m = username" "um_kdf m = kdf"
    "is_valid_username username \<Longrightarrow> w_clock w \<noteq> Some 0 \<Longrightarrow> wk_algorithm k = wrap_algorithm \<Longrightarrow>
       validate_manifest U (m\<lparr>um_wrapped_data_key := k\<rparr>) = Inr ()"
proof -
  obtain t uuid where t: "w_clock w = Some t" "new_header (Some t) uuid username kdf = Inr m"
      "uuid = uuid_to_string U (uuid_new_v4 U (w_tick w))"
    using assms(1) by (auto simp: manifest_header_def andthen_Inr_iff new_header_Inr fresh_uuid_def split: if_splits)
  then show "um_username m = username" "um_kdf m = kdf"
    "is_valid_username username \<Longrightarrow> w_clock w \<noteq> Some 0 \<Longrightarrow> wk_algorithm k = wrap_algorithm \<Longrightarrow>
       validate_manifest U (m\<lparr>um_wrapped_data_key := k\<rparr>) = Inr ()"
    using assms(2) by (auto simp: new_header_Inr validate_manifest_def uuid_prints_def)
qed

text \<open>What a new profile holds: a valid manifest the password opens, and a sealed state under its key.\<close>

definition profile_made :: "'t crates \<Rightarrow> world \<Rightarrow> names \<Rightarrow> string \<Rightarrow> bytes \<Rightarrow> world \<Rightarrow> bool" where
  "profile_made K w d username password w' \<longleftrightarrow>
     (\<exists>m key empty. um_username m = username \<and> check_password K username password m = Inr key \<and>
        (w_clock w \<noteq> Some 0 \<longrightarrow> validate_manifest (cr_uuid K) m = Inr ()) \<and>
        sealed_at w (d @ [manifest_name]) (manifest_text (cr_json K) m) w' \<and>
        sealed_at w (d @ [state_name]) (sealed_bytes (cr_aead K) (cr_tar K) empty key) w')"

lemma create_profile_Inr:
  assumes "wf_world w" "crates_documented K" "locate (w_cwd w) staging = U @ [s]" "locate (w_cwd w) profile = U @ [u]"
    and "s \<noteq> u" "\<not> prefix ''.tmp'' u" "is_valid_username username"
    and "create_profile K username password staging profile w = (Inr x, w')"
  shows "profile_made K w (U @ [u]) username password w'"
proof -
  note K = crates_documentedD [OF assms(2)]
  let ?W = "within (names_only {}) w"
  have tick: "tick_closed ?W" by simp
  from assms(8) obtain kdf w1 wk key w2 m w3 ad wr w4 where
      a: "default_kdf_parameters (cr_base64 K) (os_random (cr_random K)) w = (Inr kdf, w1)"
    and wk: "derive_key (cr_base64 K) (cr_argon2 K) password kdf = Inr wk"
    and b: "os_random (cr_random K) 32 w1 = (Inr key, w2)"
    and c: "manifest_header (cr_uuid K) username kdf w2 = (Inr m, w3)"
    and ad: "associated_data m = Inr ad"
    and e: "wrap_data_key (cr_aead K) (cr_base64 K) (os_random (cr_random K)) key wk ad w3 = (Inr wr, w4)"
    and f: "fill_profile K staging profile (m\<lparr>um_wrapped_data_key := wr\<rparr>) key w4 = (Inr x, w')"
    by (auto simp: create_profile_def new_profile_def andthen_Inr_iff)
  have 1: "?W w1" by (rule keepsD [OF default_kdf_keeps [OF tick] within_refl [OF assms(1)] a])
  have 2: "?W w2" by (rule keepsD [OF tick_calls_keep(1) [OF tick] 1 b])
  have 3: "?W w3" by (rule keepsD [OF manifest_header_keeps [OF tick] 2 c])
  have 4: "?W w4" by (rule keepsD [OF wrap_data_key_keeps [OF tick] 3 e])
  have "length key = 32" using b K(5) by (auto simp: os_random_def random_fills_def split: option.splits)
  then have opens: "unwrap_data_key (cr_aead K) (cr_base64 K) wr wk ad = Inr key"
    by (rule unwrap_wrap [OF K(1,2,11) _ e])
  note header = manifest_header_Inr [OF c K(6)]
  have clock: "w_clock w2 = w_clock w" using 2 by (simp add: within_def same_process_def)
  from fill_profile_Inr [OF withinD(1) [OF 4] assms(2) _ _ assms(5,6) f] assms(3,4) withinD(3) [OF 4]
  obtain empty where made: "sealed_at w4 (U @ [u, manifest_name])
        (manifest_text (cr_json K) (m\<lparr>um_wrapped_data_key := wr\<rparr>)) w'"
      "sealed_at w4 (U @ [u, state_name]) (sealed_bytes (cr_aead K) (cr_tar K) empty key) w'"
    by auto
  have "check_password K username password (m\<lparr>um_wrapped_data_key := wr\<rparr>) = Inr key"
    using header(1,2) wk ad opens by (simp add: check_password_Inr associated_data_wrapped eq_ignore_ascii_case_def)
  then show ?thesis
    unfolding profile_made_def
    using made [THEN sealed_at_earlier, OF 4] header assms(7) clock wrap_algorithm_kept [OF e]
    by (intro exI [where x = "m\<lparr>um_wrapped_data_key := wr\<rparr>"] exI [where x = key] exI [where x = empty]) simp
qed

lemma user_name_parts:
  assumes "is_valid_username username"
  shows "simple_name (to_ascii_lowercase username)" "\<not> prefix (CHR ''.'' # s) (to_ascii_lowercase username)"
    "to_ascii_lowercase username \<noteq> CHR ''.'' # s"
proof -
  have v: "is_valid_username (to_ascii_lowercase username)" by (rule lower_username_valid [OF assms])
  then show "simple_name (to_ascii_lowercase username)"
    using username_char_safe username_not_dots [OF v] by (auto simp: is_valid_username_iff simple_name_def)
  show "\<not> prefix (CHR ''.'' # s) (to_ascii_lowercase username)" "to_ascii_lowercase username \<noteq> CHR ''.'' # s"
    using v
    by (auto simp: is_valid_username_iff prefix_def is_ascii_alphanumeric_def is_ascii_digit_def is_ascii_uppercase_def
        is_ascii_lowercase_def)
qed

lemma add_user_Inr:
  assumes "wf_world w" "crates_documented K" "add_user K store username password w = (Inr x, w')"
  shows "is_valid_username username \<and> 12 \<le> length password \<and>
    profile_made K w (locate (w_cwd w) (user_root store username)) username password w'"
proof -
  note K = crates_documentedD [OF assms(2)]
  let ?W = "within (additions w) w"
  have tick: "tick_closed ?W" by simp
  from assms(3) obtain w1 r w2 uuid w3 w4 where
      name: "validate_username username = Inr ()" and pw: "validate_password password = Inr ()"
    and i: "initialize store w = (Inr (), w1)"
    and m: "symlink_metadata (user_root store username) w1 = (r, w2)"
    and u: "fresh_uuid (cr_uuid K) w2 = (Inr uuid :: vault_error + string, w3)"
    and e: "ensure_private_directory (path_join (users_root store) (staging_name uuid)) w3 = (Inr (), w4)"
    and c: "create_profile K username password (path_join (users_root store) (staging_name uuid))
              (user_root store username) w4 = (Inr x, w')"
    unfolding add_user_def staging_name_def
    by (auto simp: andthen_Inr_iff Let_def on_failure_Inr attempt_iff split: if_splits)
  have valid: "is_valid_username username" using name by (auto simp: validate_username_def split: if_splits)
  have init: "keeps ?W (initialize store)"
    unfolding initialize_def by (intro keeps_rules) (auto simp: missing_on_def)
  have 1: "?W w1" by (rule keepsD [OF init within_refl [OF assms(1)] i])
  have 2: "?W w2" by (rule keepsD [OF tick_calls_keep(3) [OF tick] 1 m])
  have 3: "?W w3" by (rule keepsD [OF tick_calls_keep(2) [OF tick] 2 u])
  have 4: "?W w4"
    by (rule keepsD [OF ensure_directory_keeps 3 e]) (auto simp: missing_on_def)
  have clock: "w_clock w4 = w_clock w" using 4 by (simp add: within_def same_process_def)
  have simple: "simple_name (staging_name uuid)"
    using u uuid_names_simple(1) [OF K(6)] by (auto simp: fresh_uuid_def staging_name_def)
  note parts = user_name_parts [OF valid]
  have differ: "staging_name uuid \<noteq> to_ascii_lowercase username" "\<not> prefix ''.tmp'' (to_ascii_lowercase username)"
    using parts(3) [of "''creating-'' @ uuid"] parts(2) by (auto simp: staging_name_def)
  have at: "locate (w_cwd w4) (path_join (users_root store) (staging_name uuid)) =
      locate (w_cwd w) (users_root store) @ [staging_name uuid]"
    "locate (w_cwd w4) (user_root store username) =
      locate (w_cwd w) (users_root store) @ [to_ascii_lowercase username]"
    "locate (w_cwd w) (user_root store username) =
      locate (w_cwd w) (users_root store) @ [to_ascii_lowercase username]"
    using locate_join [OF simple] locate_join [OF parts(1)] withinD(3) [OF 4] by (simp_all add: user_root_def)
  have "profile_made K w4 (locate (w_cwd w) (user_root store username)) username password w'"
    unfolding at(3) by (rule create_profile_Inr [OF withinD(1) [OF 4] assms(2) at(1,2) differ valid c])
  then have "profile_made K w (locate (w_cwd w) (user_root store username)) username password w'"
    unfolding profile_made_def clock by (metis sealed_at_earlier [OF _ 4])
  then show ?thesis using valid pw by (auto simp: validate_password_def split: if_splits)
qed

end
