(* ===== verification/Store_Outcomes.thy ===== *)
theory Store_Outcomes
  imports Store_Creation
begin

text \<open>
  The outcomes of the operations that take the lock of a profile, of closing an unlocked vault, and of
  listing the profiles, relative to the world in which they start.
\<close>

section \<open>The lock of a session\<close>

lemma held_after:
  assumes "lock_held w q h wb" "within (additions wb) wb w'"
  shows "lookup w' q = Some (fh_ino h)" "w_locks w' (fh_ino h) = Some (fh_fd h)"
  using assms withinD(10) [OF assms(2), of q] withinD(12) [OF assms(2), of "fh_ino h"] by (auto simp: lock_held_def)

text \<open>A second attempt on a lock that is held comes to nothing.\<close>

lemma locked_out:
  assumes "wf_world w" "locks_documented L" "q = locate (w_cwd w) d @ [lock_name]"
    and "lookup w q = Some i" "w_locks w i \<noteq> None"
    and "andthen (action_err g (validate_private_directory d))
           (\<lambda>_. andthen (acquire_lock L (path_join d lock_name)) f) w = (r, w')"
  shows "\<exists>e. r = Inl e \<and> within (lock_scope w q {}) w w'"
proof -
  have "\<not> lock_held w q h wb" for h wb
  proof
    assume held: "lock_held w q h wb"
    then have "within (lock_scope w q {fh_ino h}) w wb" by (simp add: lock_held_def holds_file_def)
    from withinD(10) [OF this, of q] have "lookup wb q = Some i" using assms(4) by simp
    then show False using held assms(5) by (simp add: lock_held_def)
  qed
  then show ?thesis using locked_run [OF assms(1-3,6)] by blast
qed

lemma andthen_lift: "andthen (lift_result x) f s = (case x of Inl e \<Rightarrow> (Inl e, s) | Inr y \<Rightarrow> f y s)"
  by (auto simp: andthen_def lift_result_def split: sum.split)

lemma unlock_locked_out:
  assumes "wf_world w" "locks_documented (cr_locks K)"
    and "lookup w (locate (w_cwd w) (user_root store username) @ [lock_name]) = Some i" "w_locks w i \<noteq> None"
  shows "\<exists>e. fst (unlock K store username password w) = Inl e"
    "\<exists>e. fst (rotate_password K store username current_password new_password w) = Inl e"
proof -
  note out = locked_out [OF assms(1,2) refl assms(3,4) prod.collapse [symmetric]]
  show "\<exists>e. fst (unlock K store username password w) = Inl e"
    using out by (auto simp: unlock_def andthen_lift split: sum.split)
  show "\<exists>e. fst (rotate_password K store username current_password new_password w) = Inl e"
    using out by (auto simp: rotate_password_def andthen_lift split: sum.split)
qed

section \<open>What an unlocked vault stands for\<close>

lemma unlock_session:
  assumes "wf_world w" "crates_documented K" "unlock K store username password w = (Inr v, w')"
    and "d = locate (w_cwd w) (user_root store username)"
  shows "is_valid_username username" "wf_world w'" "w_cwd w' = w_cwd w"
    "within (session_scope w (d @ [lock_name]) {fh_ino (uv_lock v)}) w w'"
    "lookup w' (d @ [lock_name]) = Some (fh_ino (uv_lock v))"
    "w_locks w' (fh_ino (uv_lock v)) = Some (fh_fd (uv_lock v))" "w_locks w (fh_ino (uv_lock v)) = None"
    "uv_state_path v = path_join (user_root store username) state_name"
    "uv_codex_home v = path_join (uv_runtime v) codex_home_name"
    "\<exists>m. manifest_at K w' d m \<and> check_password K username password m = Inr (uv_data_key v) \<and>
       uv_username v = um_username m"
    "\<not> prefix (locate (w_cwd w) (uv_runtime v)) (d @ [state_name])"
    "w_next w \<le> fh_fd (uv_lock v)"
    "no_interrupts w \<Longrightarrow> lookup w (d @ [state_name]) = Some i \<Longrightarrow>
       lookup w' (d @ [state_name]) = Some i \<and>
       (\<exists>bs ps. file_bytes w' i = Some bs \<and> accepts_vault (cr_aead K) (uv_data_key v) ps bs)"
proof -
  let ?q = "d @ [lock_name]"
  note K = crates_documentedD [OF assms(2)]
  from unlock_run [OF assms(1-3) refl] obtain h wb where valid: "is_valid_username username"
    and held: "lock_held w ?q h wb" and run: "unlock_profile K store username password h wb = (Inr v, w')"
    using assms(4) by auto
  have b: "within (lock_scope w ?q {fh_ino h}) w wb" using held by (simp add: lock_held_def holds_file_def)
  have c: "within (additions wb) wb w'"
    by (rule keepsD [OF unlock_profile_keeps [OF K(6,7,3)] within_refl [OF withinD(1) [OF b]] run])
  from unlock_profile_Inr [OF withinD(1) [OF b] assms(2) run]
  obtain m where m: "manifest_at K wb d m" "check_password K username password m = Inr (uv_data_key v)"
      "uv_username v = um_username m" "uv_lock v = h"
      "uv_state_path v = path_join (user_root store username) state_name"
      "uv_codex_home v = path_join (uv_runtime v) codex_home_name"
      "\<not> prefix (locate (w_cwd w) (uv_runtime v)) (d @ [state_name])"
    and state: "\<And>i. no_interrupts wb \<Longrightarrow> lookup wb (d @ [state_name]) = Some i \<Longrightarrow>
       (\<exists>bs ps. file_bytes wb i = Some bs \<and> accepts_vault (cr_aead K) (uv_data_key v) ps bs)"
    using withinD(3) [OF b] assms(4) by auto
  note locked = under_lock [OF held c] and after = held_after [OF held c]
  have "lookup wb (d @ [manifest_name]) \<noteq> None" using m(1) by (auto simp: manifest_at_def)
  then have "manifest_at K w' d m" by (intro manifest_at_kept [OF c _ _ m(1)]) auto
  then show "is_valid_username username" "wf_world w'" "w_cwd w' = w_cwd w"
    "within (session_scope w ?q {fh_ino (uv_lock v)}) w w'"
    "lookup w' ?q = Some (fh_ino (uv_lock v))"
    "w_locks w' (fh_ino (uv_lock v)) = Some (fh_fd (uv_lock v))" "w_locks w (fh_ino (uv_lock v)) = None"
    "uv_state_path v = path_join (user_root store username) state_name"
    "uv_codex_home v = path_join (uv_runtime v) codex_home_name"
    "\<exists>m. manifest_at K w' d m \<and> check_password K username password m = Inr (uv_data_key v) \<and>
       uv_username v = um_username m"
    "\<not> prefix (locate (w_cwd w) (uv_runtime v)) (d @ [state_name])" "w_next w \<le> fh_fd (uv_lock v)"
    using m locked after valid withinD(1,3) [OF c] withinD(3) [OF b] by auto
  assume quiet: "no_interrupts w" and i: "lookup w (d @ [state_name]) = Some i"
  have wb: "lookup wb (d @ [state_name]) = Some i" using withinD(10) [OF b, of "d @ [state_name]"] i by simp
  have "no_interrupts wb" using quiet withinD(5) [OF b] by (simp add: no_interrupts_def)
  then show "lookup w' (d @ [state_name]) = Some i \<and>
       (\<exists>bs ps. file_bytes w' i = Some bs \<and> accepts_vault (cr_aead K) (uv_data_key v) ps bs)"
    using state [OF _ wb] private_file_kept [OF c wb] wb by auto
qed

section \<open>Rotating a password\<close>

definition rotation_scope :: "world \<Rightarrow> names \<Rightarrow> nat set \<Rightarrow> scope" where
  "rotation_scope w d l =
     \<lparr>sc_names = sc_names (replace_scope d) \<union> {p. p = d @ [lock_name] \<and> lookup w p = None},
      sc_inodes = {i. lookup w (d @ [lock_name]) = Some i}, sc_locks = l\<rparr>"

lemma rotation_scope_simps [simp]:
  "sc_names (rotation_scope w d l) = sc_names (replace_scope d) \<union> {p. p = d @ [lock_name] \<and> lookup w p = None}"
  "sc_inodes (rotation_scope w d l) = {i. lookup w (d @ [lock_name]) = Some i}"
  "sc_locks (rotation_scope w d l) = l" "rotation_scope w d l\<lparr>sc_locks := l'\<rparr> = rotation_scope w d l'"
  by (simp_all add: rotation_scope_def)

lemma replace_scope_simps [simp]:
  "sc_names (replace_scope d) = below (d @ [manifest_name]) \<union> {q. \<exists>uuid. prefix (d @ [manifest_temp uuid]) q}"
  "sc_inodes (replace_scope d) = {}" "sc_locks (replace_scope d) = {}"
  by (simp_all add: replace_scope_def)

lemma same_files:
  assumes "w_names w' = w_names w" "w_inodes w' = w_inodes w"
  shows "lookup w' q = lookup w q" "sealed_at w0 q B w' = sealed_at w0 q B w"
  using assms by (simp_all add: sealed_at_def lookup_def file_bytes_def)

text \<open>A manifest seen under the lock was there before, when it is not the lock file itself.\<close>

lemma manifest_before_lock:
  assumes "lock_held w (d @ [lock_name]) h wb" "manifest_at K wb d m"
    and "\<And>i. lookup w (d @ [manifest_name]) = Some i \<Longrightarrow> lookup w (d @ [lock_name]) \<noteq> Some i"
  shows "manifest_at K w d m"
proof -
  have b: "within (lock_scope w (d @ [lock_name]) {fh_ino h}) w wb"
    using assms(1) by (simp add: lock_held_def holds_file_def)
  have "lookup wb (d @ [manifest_name]) = lookup w (d @ [manifest_name])" using withinD(10) [OF b] by simp
  then obtain i where i: "lookup w (d @ [manifest_name]) = Some i" using assms(2) by (auto simp: manifest_at_def)
  note kept = private_file_kept [OF b i]
  show ?thesis using assms(2) kept assms(3) [OF i] i by (simp add: manifest_at_def)
qed

text \<open>What a rotation that has ended with the result \<open>r\<close> leaves of the profile.\<close>

definition rotated :: "'t crates \<Rightarrow> world \<Rightarrow> names \<Rightarrow> user_manifest \<Rightarrow> world \<Rightarrow> bool" where
  "rotated K w d m w' \<longleftrightarrow> sealed_at w (d @ [manifest_name]) (manifest_text (cr_json K) m) w'"

lemma apart_from_lock: "prefix (d @ [manifest_name]) p \<Longrightarrow> p \<noteq> d @ [lock_name]"
  by (auto simp: prefix_snoc)

lemma rotation_released:
  assumes "crates_documented K" "lock_held w (d @ [lock_name]) h wb" "d = locate (w_cwd w) profile"
    and "rotate_manifest K profile username current_password new_password wb = (x, wc)"
    and "unlock_file (cr_locks K) h wc = (y, wd)" "w' = close_file h wd"
  shows "within (rotation_scope w d {}) w w'"
    and "x = Inr u \<Longrightarrow> \<exists>m m' key. manifest_at K wb d m \<and>
      check_password K username current_password m = Inr key \<and> check_password K username new_password m' = Inr key \<and>
      m' = m\<lparr>um_kdf := um_kdf m', um_wrapped_data_key := um_wrapped_data_key m'\<rparr> \<and> rotated K w d m' w'"
    and "x = Inl e \<Longrightarrow> (\<forall>p. prefix (d @ [manifest_name]) p \<longrightarrow> lookup w' p = lookup w p) \<or>
      (\<exists>m' key. check_password K username new_password m' = Inr key \<and> rotated K w d m' w')"
proof -
  note K = crates_documentedD [OF assms(1)]
  let ?q = "d @ [lock_name]"
  have b: "within (lock_scope w ?q {fh_ino h}) w wb" and fd: "w_next w \<le> fh_fd h"
    and locks: "w_locks wb (fh_ino h) = Some (fh_fd h)" "w_locks w (fh_ino h) = None"
    using assms(2) by (auto simp: lock_held_def holds_file_def)
  have d: "d = locate (w_cwd wb) profile" using assms(3) withinD(3) [OF b] by simp
  note run = rotate_manifest_run [OF withinD(1) [OF b] assms(1) d assms(4)]
  let ?S = "rotation_scope w d {fh_ino h}"
  have "within ?S w wb" by (rule within_mono [OF b]) auto
  moreover have "within ?S wb wc" by (rule within_mono [OF run(1)]) auto
  ultimately have c: "within ?S w wc" by (rule within_trans)
  have held: "w_locks wc (fh_ino h) = Some (fh_fd h)" using withinD(12) [OF run(1), of "fh_ino h"] locks(1) by simp
  note rel = release_lock [OF K(9) c _ fd locks(2) held assms(5), simplified, folded assms(6)]
  show "within (rotation_scope w d {}) w w'" by (rule rel(1))
  have put: "rotated K w d m w'" if "sealed_at wb (d @ [manifest_name]) (manifest_text (cr_json K) m) wc" for m
    using sealed_at_earlier [OF that b] same_files(2) [OF rel(2,3)] by (simp add: rotated_def)
  show "\<exists>m m' key. manifest_at K wb d m \<and>
      check_password K username current_password m = Inr key \<and> check_password K username new_password m' = Inr key \<and>
      m' = m\<lparr>um_kdf := um_kdf m', um_wrapped_data_key := um_wrapped_data_key m'\<rparr> \<and> rotated K w d m' w'"
    if "x = Inr u"
    using run(2) that put by auto
  have old: "lookup w' p = lookup w p" if "lookup wc p = lookup wb p" "prefix (d @ [manifest_name]) p" for p
    using that(1) same_files(1) [OF rel(2,3)] withinD(10) [OF b, of p] apart_from_lock [OF that(2)] by simp
  show "(\<forall>p. prefix (d @ [manifest_name]) p \<longrightarrow> lookup w' p = lookup w p) \<or>
      (\<exists>m' key. check_password K username new_password m' = Inr key \<and> rotated K w d m' w')" if "x = Inl e"
    using run(3) [OF that] put old by blast
qed

lemma rotate_password_run:
  assumes "wf_world w" "crates_documented K" "d = locate (w_cwd w) (user_root store username)"
    and "rotate_password K store username current_password new_password w = (r, w')"
  shows "within (rotation_scope w d {}) w w'"
    and "r = Inr u \<Longrightarrow> \<exists>h wb m m' key. lock_held w (d @ [lock_name]) h wb \<and> manifest_at K wb d m \<and>
      check_password K username current_password m = Inr key \<and> check_password K username new_password m' = Inr key \<and>
      m' = m\<lparr>um_kdf := um_kdf m', um_wrapped_data_key := um_wrapped_data_key m'\<rparr> \<and> rotated K w d m' w'"
    and "r = Inl e \<Longrightarrow> (\<forall>p. prefix (d @ [manifest_name]) p \<longrightarrow> lookup w' p = lookup w p) \<or>
      (\<exists>m' key. check_password K username new_password m' = Inr key \<and> rotated K w d m' w')"
proof -
  note K = crates_documentedD [OF assms(2)]
  let ?rot = "rotate_manifest K (user_root store username) username current_password new_password"
  let ?f = "\<lambda>lock. andthen (attempt ?rot)
      (\<lambda>result. andthen (attempt (action_err Io (unlock_file (cr_locks K) lock)))
        (\<lambda>unlocked. andthen (close_handle lock)
          (\<lambda>_. andthen (lift_result result) (\<lambda>_. lift_result unlocked))))"
  let ?q = "d @ [lock_name]"
  have "(\<exists>e. r = Inl e \<and> within (lock_scope w ?q {}) w w') \<or> (\<exists>h wb. lock_held w ?q h wb \<and> ?f h wb = (r, w'))"
  proof (cases "validate_username username")
    case (Inl e)
    then have "r = Inl e" "w' = w" using assms(4) by (simp_all add: rotate_password_def andthen_lift)
    then show ?thesis using assms(1) by auto
  next
    case (Inr u)
    note name = this
    show ?thesis
    proof (cases "validate_password new_password")
      case (Inl e)
      then have "r = Inl e" "w' = w" using assms(4) name by (simp_all add: rotate_password_def andthen_lift)
      then show ?thesis using assms(1) by auto
    next
      case (Inr u)
      then have "andthen (action_err (\<lambda>_. Authentication) (validate_private_directory (user_root store username)))
          (\<lambda>_. andthen (acquire_lock (cr_locks K) (path_join (user_root store username) lock_name)) ?f) w = (r, w')"
        using assms(4) name by (simp add: rotate_password_def andthen_lift)
      then show ?thesis using locked_run [OF assms(1) K(9)] assms(3) by blast
    qed
  qed
  then consider (failed) e where "r = Inl e" "within (lock_scope w ?q {}) w w'"
    | (ran) h wb where "lock_held w ?q h wb" "?f h wb = (r, w')" by blast
  then have all: "within (rotation_scope w d {}) w w' \<and>
    (r = Inr u \<longrightarrow> (\<exists>h wb m m' key. lock_held w (d @ [lock_name]) h wb \<and> manifest_at K wb d m \<and>
      check_password K username current_password m = Inr key \<and> check_password K username new_password m' = Inr key \<and>
      m' = m\<lparr>um_kdf := um_kdf m', um_wrapped_data_key := um_wrapped_data_key m'\<rparr> \<and> rotated K w d m' w')) \<and>
    ((\<exists>e. r = Inl e) \<longrightarrow> (\<forall>p. prefix (d @ [manifest_name]) p \<longrightarrow> lookup w' p = lookup w p) \<or>
      (\<exists>m' key. check_password K username new_password m' = Inr key \<and> rotated K w d m' w'))"
  proof cases
    case failed
    have "lookup w' p = lookup w p" if "prefix (d @ [manifest_name]) p" for p
      using withinD(10) [OF failed(2), of p] apart_from_lock [OF that] by simp
    then show ?thesis using failed(1) within_mono [OF failed(2), of "rotation_scope w d {}"] by auto
  next
    case ran
    obtain x wc where x: "?rot wb = (x, wc)" by fastforce
    obtain y wd where y: "unlock_file (cr_locks K) h wc = (y, wd)" by fastforce
    have r: "w' = close_file h wd" "r = (case x of Inl e \<Rightarrow> Inl e | Inr _ \<Rightarrow> map_err Io y)"
      using ran(2) x y by (auto simp: andthen_def attempt_apply action_err_apply drop_file_def split: sum.splits)
    note rel = rotation_released [OF assms(2) ran(1) assms(3) x y r(1)]
    show ?thesis
    proof (cases x)
      case (Inl e)
      then show ?thesis using rel(1) rel(3) [OF Inl] r(2) by auto
    next
      case (Inr u)
      then show ?thesis using rel(1) rel(2) [OF Inr] ran(1) by blast
    qed
  qed
  then show "within (rotation_scope w d {}) w w'"
    "r = Inr u \<Longrightarrow> \<exists>h wb m m' key. lock_held w (d @ [lock_name]) h wb \<and> manifest_at K wb d m \<and>
      check_password K username current_password m = Inr key \<and> check_password K username new_password m' = Inr key \<and>
      m' = m\<lparr>um_kdf := um_kdf m', um_wrapped_data_key := um_wrapped_data_key m'\<rparr> \<and> rotated K w d m' w'"
    "r = Inl e \<Longrightarrow> (\<forall>p. prefix (d @ [manifest_name]) p \<longrightarrow> lookup w' p = lookup w p) \<or>
      (\<exists>m' key. check_password K username new_password m' = Inr key \<and> rotated K w d m' w')" by blast+
qed

section \<open>Closing an unlocked vault\<close>

text \<open>The names closing may change: the state file, its temporary, and the runtime directory.\<close>

definition closing_scope :: "names \<Rightarrow> names \<Rightarrow> nat set \<Rightarrow> scope" where
  "closing_scope d runtime l =
     \<lparr>sc_names = below (d @ [state_name]) \<union> {q. \<exists>uuid. prefix (d @ [temp_name uuid]) q} \<union> below runtime,
      sc_inodes = {}, sc_locks = l\<rparr>"

lemma closing_scope_simps [simp]:
  "sc_names (closing_scope d r l) = below (d @ [state_name]) \<union> {q. \<exists>uuid. prefix (d @ [temp_name uuid]) q} \<union> below r"
  "sc_inodes (closing_scope d r l) = {}" "sc_locks (closing_scope d r l) = l"
  by (simp_all add: closing_scope_def)

lemma state_apart_from_temp: "prefix (d @ [state_name]) q \<Longrightarrow> q \<noteq> d @ [temp_name uuid]"
  by (auto simp: prefix_snoc state_name_def temp_name_def)

lemma unlock_and_close:
  assumes "locks_documented L" "w_locks w (fh_ino h) = Some (fh_fd h)" "unlock_file L h w = (r, w')" "wf_world w"
  shows "within (names_only {}\<lparr>sc_locks := {i. w_locks w i = Some (fh_fd h)}\<rparr>) w (close_file h w')"
    "w_locks (close_file h w') (fh_ino h) = None" "w_names (close_file h w') = w_names w"
    "w_inodes (close_file h w') = w_inodes w"
  using assms(1,3)
  by (cases rule: unlock_file_cases;
      use assms(2,4) in \<open>auto simp: within_def wf_world_def same_process_def close_file_def lookup_def\<close>)+

text \<open>The stages of closing: sealing, cleaning up, unlocking, and the first of their errors.\<close>

lemma vault_close_stages:
  assumes "vault_close K v w = (r, w')"
  obtains x w1 y w2 z w3 where
    "seal_directory (cr_aead K) (cr_tar K) (cr_random K) (cr_uuid K) (uv_codex_home v) (uv_state_path v)
       (uv_data_key v) w = (x, w1)"
    "td_close (cr_tempdir K) (uv_runtime v) w1 = (y, w2)" "unlock_file (cr_locks K) (uv_lock v) w2 = (z, w3)"
    "w' = close_file (uv_lock v) w3" "r = Inr () \<longleftrightarrow> x = Inr () \<and> y = Inr () \<and> z = Inr ()"
proof -
  obtain x w1 where x: "seal_directory (cr_aead K) (cr_tar K) (cr_random K) (cr_uuid K) (uv_codex_home v)
      (uv_state_path v) (uv_data_key v) w = (x, w1)" by fastforce
  obtain y w2 where y: "td_close (cr_tempdir K) (uv_runtime v) w1 = (y, w2)" by fastforce
  obtain z w3 where z: "unlock_file (cr_locks K) (uv_lock v) w2 = (z, w3)" by fastforce
  have "w' = close_file (uv_lock v) w3 \<and> (r = Inr () \<longleftrightarrow> x = Inr () \<and> y = Inr () \<and> z = Inr ())"
    using assms x y z
    by (cases x; cases y; cases z)
       (auto simp: vault_close_def andthen_def attempt_apply action_err_apply drop_file_def map_err_def)
  then show thesis using that x y z by blast
qed

lemma vault_close_run:
  assumes "wf_world w" "crates_documented K" "vault_close K v w = (r, w')"
    and "uv_state_path v = path_join profile state_name" "d = locate (w_cwd w) profile"
    and "w_locks w (fh_ino (uv_lock v)) = Some (fh_fd (uv_lock v))"
    and "\<not> prefix (locate (w_cwd w) (uv_runtime v)) (d @ [state_name])"
  defines "rt \<equiv> locate (w_cwd w) (uv_runtime v)"
    and "new \<equiv> \<lambda>w'. sealed_at w (d @ [state_name])
           (sealed_bytes (cr_aead K) (cr_tar K) (uv_codex_home v) (uv_data_key v)) w'"
  shows "within (closing_scope d rt {i. w_locks w i = Some (fh_fd (uv_lock v))}) w w'"
    and "w_locks w' (fh_ino (uv_lock v)) = None"
    and "r = Inr () \<Longrightarrow> new w' \<and> unused w' rt"
    and "new w' \<or> (lookup w' (d @ [state_name]) = lookup w (d @ [state_name]))"
proof -
  note K = crates_documentedD [OF assms(2)]
  let ?B = "sealed_bytes (cr_aead K) (cr_tar K) (uv_codex_home v) (uv_data_key v)"
  let ?L = "{i. w_locks w i = Some (fh_fd (uv_lock v))}"
  let ?S = "closing_scope d rt ?L" and ?h = "uv_lock v"
  from assms(3) obtain x w1 y w2 z w3 where
      x: "seal_directory (cr_aead K) (cr_tar K) (cr_random K) (cr_uuid K) (uv_codex_home v)
            (path_join profile state_name) (uv_data_key v) w = (x, w1)"
    and y: "td_close (cr_tempdir K) (uv_runtime v) w1 = (y, w2)"
    and z: "unlock_file (cr_locks K) ?h w2 = (z, w3)" and w': "w' = close_file ?h w3"
    and r: "r = Inr () \<longleftrightarrow> x = Inr () \<and> y = Inr () \<and> z = Inr ()"
    by (rule vault_close_stages) (simp add: assms(4))
  let ?qt = "d @ [temp_name (uuid_to_string (cr_uuid K) (uuid_new_v4 (cr_uuid K) (w_tick w)))]"
  note seal = seal_directory_run [OF assms(1) K(5) x, folded assms(5)]
  have 1: "within (names_only (below ?qt \<union> below (d @ [state_name]))) w w1"
    using seal by (cases x) (auto elim!: within_mono)
  have cwd: "w_cwd w1 = w_cwd w" by (rule withinD(3) [OF 1])
  have below: "below (locate (w_cwd w1) (uv_runtime v)) \<subseteq> sc_names (names_only (below rt))" by (simp add: cwd rt_def)
  have td: "within (names_only (below rt)) w1 w2 \<and> (y = Inr () \<longrightarrow> unused w2 (locate (w_cwd w1) (uv_runtime v)))"
    using K(7) below within_refl [OF withinD(1) [OF 1]] y unfolding tempdir_documented_def by blast
  then have 2: "within (names_only (below rt)) w1 w2" and gone: "y = Inr () \<Longrightarrow> unused w2 rt"
    by (auto simp: rt_def cwd)
  have locks: "w_locks w2 i = w_locks w i" for i using withinD(12) [OF 1, of i] withinD(12) [OF 2, of i] by simp
  note 3 = unlock_and_close [OF K(9) _ z withinD(1) [OF 2], folded w', unfolded locks, OF assms(6)]
  have "within ?S w w1" by (rule within_mono [OF 1]) auto
  moreover have "within ?S w1 w2" by (rule within_mono [OF 2]) auto
  moreover have "within ?S w2 w'" by (rule within_mono [OF 3(1)]) auto
  ultimately show "within ?S w w'" by (blast intro: within_trans)
  show "w_locks w' (fh_ino ?h) = None" by (rule 3(2))
  have kept: "d @ [state_name] \<notin> below rt" using assms(7) by (simp add: rt_def)
  have put: "new w'" if "x = Inr u" for u
  proof -
    have "sealed_at w (d @ [state_name]) ?B w2" by (rule sealed_at_kept [OF _ 2]) (use seal that kept in auto)
    then show ?thesis using same_files(2) [OF 3(3,4)] by (simp add: new_def)
  qed
  show "r = Inr () \<Longrightarrow> new w' \<and> unused w' rt"
    using put gone r same_files(1) [OF 3(3,4)] by (auto simp: unused_def)
  have "lookup w' (d @ [state_name]) = lookup w (d @ [state_name])" if "x = Inl e" for e
  proof -
    have "within (names_only {?qt}) w w1" using seal that by simp
    then have "lookup w1 (d @ [state_name]) = lookup w (d @ [state_name])"
      by (rule withinD(10)) (use state_apart_from_temp [of d "d @ [state_name]"] in auto)
    then show ?thesis using withinD(10) [OF 2, of "d @ [state_name]"] kept same_files(1) [OF 3(3,4)] by simp
  qed
  then show "new w' \<or> lookup w' (d @ [state_name]) = lookup w (d @ [state_name])"
    using put by (cases x) auto
qed

section \<open>Listing the profiles\<close>

text \<open>What is listed for the names of the directory \<open>root\<close>: the user names of the manifests that can be read.\<close>

definition listed_user :: "'t crates \<Rightarrow> world \<Rightarrow> path \<Rightarrow> string set \<Rightarrow> string \<Rightarrow> bool" where
  "listed_user K w root names u \<longleftrightarrow>
     (\<exists>name \<in> names. \<exists>m. \<not> prefix ''.'' name \<and> manifest_at K w (locate (w_cwd w) (path_join root name)) m \<and>
        um_username m = u)"

lemma listed_user_earlier:
  assumes "within (names_only {}) w w1" "listed_user K w1 root names u" "names \<subseteq> names'"
  shows "listed_user K w root names' u"
proof -
  have before: "manifest_at K w d m" if m: "manifest_at K w1 d m" for d m
  proof -
    obtain i where i: "lookup w (d @ [manifest_name]) = Some i"
      using m withinD(10) [OF assms(1), of "d @ [manifest_name]"] by (auto simp: manifest_at_def)
    show ?thesis using private_file_kept [OF assms(1) i] m i by (simp add: manifest_at_def)
  qed
  show ?thesis
    using assms(2,3) before withinD(3) [OF assms(1)] unfolding listed_user_def by (metis subsetD)
qed

lemma list_entries_run:
  assumes "wf_world w" "list_entries K root names w = (r, w')"
  shows "within (names_only {}) w w' \<and> (\<forall>users. r = Inr users \<longrightarrow> (\<forall>u \<in> set users. listed_user K w root (set names) u))"
  using assms
proof (induction names arbitrary: w r w')
  case (Cons name names)
  let ?W = "within (names_only {})"
  have tick: "tick_closed (?W w)" by simp
  obtain x w1 where s: "symlink_metadata (path_join root name) w = (x, w1)" by fastforce
  have 1: "?W w w1" by (rule keepsD [OF tick_calls_keep(3) [OF tick] within_refl [OF Cons.prems(1)] s])
  have tail: ?case if "list_entries K root names v = (r', v')" "?W w v" "w' = v'"
      "\<And>users. r = Inr users \<Longrightarrow> \<exists>us. r' = Inr us \<and> (\<forall>u \<in> set users - set us. listed_user K w root (set (name # names)) u)"
    for v r' v'
  proof -
    note ih = Cons.IH [OF withinD(1) [OF that(2)] that(1)] and more = that(4) and scope = that(2)
    then have "?W v v'" by simp
    then have "?W w w'" using within_trans [OF scope] that(3) by simp
    moreover have "listed_user K w root (set (name # names)) u" if r: "r = Inr users" "u \<in> set users" for users u
    proof -
      obtain us where us: "r' = Inr us" "\<forall>u \<in> set users - set us. listed_user K w root (set (name # names)) u"
        using more [OF r(1)] by blast
      show ?thesis
      proof (cases "u \<in> set us")
        case True
        then have "listed_user K v root (set names) u" using ih us(1) by blast
        then show ?thesis by (rule listed_user_earlier [OF scope]) auto
      qed (use us(2) r(2) in blast)
    qed
    ultimately show ?thesis by blast
  qed
  show ?case
  proof (cases x)
    case (Inl e)
    then show ?thesis using Cons.prems(2) s 1 by (auto simp: andthen_def action_err_apply map_err_def)
  next
    case (Inr md)
    note md = this
    show ?thesis
    proof (cases "md_type md \<noteq> IsDir \<or> prefix ''.'' name")
      case True
      then have "list_entries K root names w1 = (r, w')"
        using Cons.prems(2) s Inr by (auto simp: andthen_def action_err_apply map_err_def)
      then show ?thesis by (rule tail [OF _ 1 refl]) auto
    next
      case False
      obtain y w2 where m: "read_manifest (cr_json K) (cr_uuid K) (path_join root name) w1 = (y, w2)" by fastforce
      have 2: "?W w1 w2" by (rule keepsD [OF read_manifest_keeps within_refl [OF withinD(1) [OF 1]] m])
      obtain z w3 where l: "list_entries K root names w2 = (z, w3)" by fastforce
      have rest: "w' = w3" "r = (case z of Inl e \<Rightarrow> Inl e
            | Inr us \<Rightarrow> Inr (case y of Inl _ \<Rightarrow> us | Inr m \<Rightarrow> um_username m # us))"
        using Cons.prems(2) s md m l False
        by (auto simp: andthen_def action_err_apply map_err_def attempt_apply split: sum.splits)
      have new: "listed_user K w root (set (name # names)) (um_username m)" if "y = Inr m" for m
      proof -
        have "manifest_at K w1 (locate (w_cwd w1) (path_join root name)) m"
          using read_manifest_Inr [OF withinD(1) [OF 1], of K "path_join root name" m w2] m that by blast
        then have "listed_user K w1 root {name} (um_username m)" using False by (auto simp: listed_user_def)
        then show ?thesis by (rule listed_user_earlier [OF 1]) auto
      qed
      show ?thesis
        by (rule tail [OF l within_trans [OF 1 2] rest(1)])
           (use rest(2) new in \<open>auto split: sum.splits\<close>)
    qed
  qed
qed auto

lemma list_users_run:
  assumes "wf_world w" "list_users K store w = (r, w')"
  shows "within (additions w) w w'"
    and "r = Inr users \<Longrightarrow> sorted users \<and>
      (\<forall>u \<in> set users. \<exists>name m. \<not> prefix ''.'' name \<and>
         manifest_at K w' (locate (w_cwd w) (path_join (users_root store) name)) m \<and> um_username m = u)"
proof -
  let ?W = "within (additions w) w"
  have tick: "tick_closed ?W" by simp
  have init: "keeps ?W (initialize store)"
    unfolding initialize_def by (intro keeps_rules missing_additions)
  obtain x w1 where i: "initialize store w = (x, w1)" by fastforce
  have 1: "?W w1" by (rule keepsD [OF init within_refl [OF assms(1)] i])
  obtain y w2 where d: "read_dir (users_root store) w1 = (y, w2)" by fastforce
  have 2: "?W w2" by (rule keepsD [OF tick_calls_keep(4) [OF tick] 1 d])
  have "?W w' \<and> (\<forall>users. r = Inr users \<longrightarrow> sorted users \<and>
      (\<forall>u \<in> set users. \<exists>name m. \<not> prefix ''.'' name \<and>
         manifest_at K w' (locate (w_cwd w) (path_join (users_root store) name)) m \<and> um_username m = u))"
  proof (cases x)
    case (Inl e)
    then show ?thesis using assms(2) i 1 by (auto simp: list_users_def andthen_def)
  next
    case (Inr u)
    note x = this
    show ?thesis
    proof (cases y)
      case (Inl e)
      then show ?thesis using assms(2) i d x 2 by (auto simp: list_users_def andthen_def action_err_apply map_err_def)
    next
      case (Inr names)
      obtain z w3 where l: "list_entries K (users_root store) names w2 = (z, w3)" by fastforce
      note run = list_entries_run [OF withinD(1) [OF 2] l]
      then have 3: "within (names_only {}) w2 w3" by blast
      have rest: "w' = w3" "\<And>users. r = Inr users \<Longrightarrow> \<exists>us. z = Inr us \<and> users = sort us"
        using assms(2) i d x Inr l
        by (auto simp: list_users_def andthen_def action_err_apply map_err_def split: sum.splits)
      have "?W w'" using within_trans [OF 2 within_mono [OF 3, of "additions w"]] rest(1) by auto
      moreover have "manifest_at K w3 q m" if "manifest_at K w2 q m" for q m
        by (rule manifest_at_kept [OF 3 _ _ that]) simp_all
      ultimately show ?thesis
        using run rest withinD(3) [OF 2] by (fastforce simp: listed_user_def)
    qed
  qed
  then show "within (additions w) w w'"
    "r = Inr users \<Longrightarrow> sorted users \<and>
      (\<forall>u \<in> set users. \<exists>name m. \<not> prefix ''.'' name \<and>
         manifest_at K w' (locate (w_cwd w) (path_join (users_root store) name)) m \<and> um_username m = u)" by blast+
qed

end
