(* ===== verification/Archive_Properties.thy ===== *)
theory Archive_Properties
  imports Archive Vault_Stream
begin

text \<open>
  The properties of sealing and unsealing: atomic under every schedule of faults, successful on a host
  without faults, read back exactly, confined to the runtime directory, and authenticated to the end.
\<close>

section \<open>Sealing succeeds on a sound host\<close>

text \<open>
  What success needs: a data key, room above every seed the random source gives, and a directory the
  builder can pack into at most \<open>n\<close> chunks.
\<close>

definition can_seal :: "aead \<Rightarrow> 't tar_lib \<Rightarrow> random_source \<Rightarrow> path \<Rightarrow> bytes \<Rightarrow> nat \<Rightarrow> bool" where
  "can_seal A T R directory key n \<longleftrightarrow>
     aead_sizes A \<and> aead_decrypts A \<and> length key = 32 \<and>
     (\<forall>t. \<exists>seed. R t nonce_seed_length = Some seed \<and> frame_room seed n) \<and>
     (\<forall>w. \<exists>buffers ticks. tar_pack T directory w = (buffers, None, ticks) \<and>
        length (concat (buffers @ tar_trailer T)) \<le> n * chunk_size)"

lemma quiet_tick: "quiet_from_now w \<Longrightarrow> quiet_from_now (w\<lparr>w_tick := w_tick w + n\<rparr>)"
  by (simp add: quiet_from_now_def)

lemma quiet_random:
  "file_live h w \<and> quiet_from_now w \<Longrightarrow> quiet_file.fill_quiet (os_random R) h w"
  unfolding quiet_file.fill_quiet_def by (auto simp: os_random_def quiet_from_now_def)

lemma quiet_rep_tick:
  "quiet_file.writer_rep A key seed h base cs v w \<Longrightarrow>
     quiet_file.writer_rep A key seed h base cs v (w\<lparr>w_tick := w_tick w + n\<rparr>)"
  using quiet_tick [of w n] by (auto simp: quiet_file.writer_rep_def)

lemma seal_stream_ok:
  assumes "can_seal A T R directory key n" "random_fills R"
    and "file_live h w" "quiet_from_now w" "file_content h w = []"
  shows "\<exists>w'. seal_stream A T R directory key h w = (Inr (), w') \<and> quiet_from_now w'"
proof -
  note can = assms(1) [unfolded can_seal_def]
  have crypto: "aead_sizes A" "aead_decrypts A" "length key = 32" using can by auto
  obtain seed where seed: "R (w_tick w) nonce_seed_length = Some seed" and room: "frame_room seed n" using can by blast
  let ?w1 = "w\<lparr>w_tick := Suc (w_tick w)\<rparr>"
  have fill: "os_random R nonce_seed_length w = (Inr seed, ?w1)" by (simp add: os_random_def seed)
  have lq: "file_live h w \<and> quiet_from_now w" using assms by simp
  have lq1: "file_live h ?w1 \<and> quiet_from_now ?w1" using assms by (simp add: quiet_from_now_def)
  obtain w2 where wr: "file_write_all h (magic @ seed) ?w1 = (Inr (), w2)"
    using file_write_quiet lq1 by blast
  obtain v where new: "vault_writer_new A file_ops (os_random R) h key w = (Inr v, w2)"
    using fill wr crypto(3) aead_sizesD(1) [OF crypto(1)]
    by (simp add: vault_writer_new_def andthen_def action_err_def file_ops_def)
  from quiet_file.writer_new_Inr [OF new os_random_fills [OF assms(2)] quiet_random [OF lq]] fill
  have rep: "quiet_file.writer_rep A key seed h [] [] v w2" and pend: "vw_pending v = []"
    using assms(5) by auto
  obtain bufs k where p: "tar_pack T directory w2 = (bufs, None, k)"
    and small: "length (concat (bufs @ tar_trailer T)) \<le> n * chunk_size" using can by blast
  note rep0 = quiet_rep_tick [OF rep, of k]
  obtain v3 w3 where list: "vw_write_list A file_ops bufs (v, w2\<lparr>w_tick := w_tick w2 + k\<rparr>) = (Inr (), (v3, w3))"
    using quiet_file.write_list_ok [OF crypto room rep0, of bufs] pend small by auto
  from quiet_file.write_list_Inr [OF list rep0] obtain cs3 where
    rep3: "quiet_file.writer_rep A key seed h [] cs3 v3 w3" and eq3: "concat cs3 @ vw_pending v3 = concat bufs"
    using pend by auto
  have "length (concat cs3 @ vw_pending v3 @ concat (tar_trailer T)) \<le> n * chunk_size"
    using small arg_cong [OF eq3, of length] by simp
  from quiet_file.write_list_ok [OF crypto room rep3 this]
  obtain v4 w4 where trail: "vw_write_list A file_ops (tar_trailer T) (v3, w3) = (Inr (), (v4, w4))" by blast
  from quiet_file.write_list_Inr [OF trail rep3] obtain cs4 where
    rep4: "quiet_file.writer_rep A key seed h [] cs4 v4 w4"
    and eq4: "concat cs4 @ vw_pending v4 = concat (bufs @ tar_trailer T)" using eq3 by auto
  from quiet_file.finish_ok [OF crypto room rep4] small eq4
  obtain v5 w5 where fin: "vw_finish A file_ops (v4, w4) = (Inr h, (v5, w5))" by auto
  have quiet5: "quiet_from_now w5" using quiet_file.finish_Inr [OF fin rep4] by blast
  have sync: "file_sync_all h w5 = (Inr (), w5\<lparr>w_tick := Suc (w_tick w5)\<rparr>)"
    using quiet5 by (simp add: file_sync_all_def sys_def Let_def quiet_from_now_def)
  have "tar_append A T bufs None (v, w2\<lparr>w_tick := w_tick w2 + k\<rparr>) = (Inr (), (v3, w3))"
    using list by (simp add: tar_append_def on_failure_Inr andthen_Inr_iff)
  then have "seal_entries A T bufs None (v, w2\<lparr>w_tick := w_tick w2 + k\<rparr>) = (Inr h, (v5, w5))"
    using trail fin by (simp add: seal_entries_def andthen_def action_err_def)
  then have "seal_stream A T R directory key h w = (Inr (), w5\<lparr>w_tick := Suc (w_tick w5)\<rparr>)"
    using new p sync by (simp add: seal_stream_def andthen_def action_err_def file_ops_def)
  moreover have "quiet_from_now (w5\<lparr>w_tick := Suc (w_tick w5)\<rparr>)"
    using quiet_tick [OF quiet5, of 1] by simp
  ultimately show ?thesis by blast
qed

lemma dir_empty_iff: "dir_empty w q \<longleftrightarrow> (\<forall>p. strict_prefix q p \<longrightarrow> lookup w p = None)"
  by (auto simp: dir_empty_def list_all_iff lookup_def map_of_eq_None_iff)

lemma seal_directory_ok:
  assumes "wf_world w" "random_fills R" "quiet_from_now w" "can_seal A T R directory key n"
    and "dir_at w (locate (w_cwd w) d)"
    and "lookup w (locate (w_cwd w) d @ [temp_name (uuid_to_string U (uuid_new_v4 U (w_tick w)))]) = None"
    and "\<not> dir_at w (locate (w_cwd w) d @ [state_name])" "dir_empty w (locate (w_cwd w) d @ [state_name])"
  shows "\<exists>w'. seal_directory A T R U directory (path_join d state_name) key w = (Inr (), w')"
proof -
  define uuid where "uuid = uuid_to_string U (uuid_new_v4 U (w_tick w))"
  define temp where "temp = d @ [Normal (temp_name uuid)]"
  define w1 where "w1 = w\<lparr>w_tick := Suc (w_tick w)\<rparr>"
  let ?q = "locate (w_cwd w) d" let ?qt = "?q @ [temp_name uuid]" let ?qd = "?q @ [state_name]"
  have fresh: "fresh_uuid U w = (Inr uuid, w1)" by (simp add: fresh_uuid_def uuid_def w1_def)
  have qt: "locate (w_cwd w) temp = ?qt" by (simp add: temp_def locate_append)
  have wf1: "within (names_only {?qt}) w w1"
    unfolding w1_def by (rule within_tick) (rule within_refl [OF assms(1)])
  have quiet1: "quiet_from_now w1" using quiet_tick [OF assms(3), of 1] by (simp add: w1_def)
  have q_apart: "?q \<noteq> ?qt" by simp
  let ?w2 = "fresh_inode (RegularFile []) private_file_mode ?qt (w1\<lparr>w_tick := Suc (w_tick w1)\<rparr>)"
  obtain h w2 where o: "open_fd (w_next w1) ?w2 = (h, w2)" by fastforce
  have "inode_at w1 ?q = inode_at w ?q" by (simp add: w1_def inode_at_def)
  then have "dir_at w1 ?q" "lookup w1 ?qt = None" using assms(5,6) by (simp_all add: dir_at_def w1_def uuid_def)
  then have opn: "open_create_new private_file_mode temp w1 = (Inr h, w2)"
    using quiet1 o withinD(3) [OF wf1] qt
    by (simp add: open_create_new_def sys_def Let_def quiet_from_now_def dir_at_def inode_at_def)
  note opened = triple_Inr [OF open_create_new_triple [OF qt [symmetric]] wf1 opn]
  have quiet2: "quiet_from_now w2"
    using quiet1 o by (auto simp: quiet_from_now_def open_fd_def fresh_inode_def set_inode_def link_name_def Let_def)
  have live2: "file_live h w2" using opened by (simp add: writing_temp_def)
  obtain w3 where str: "seal_stream A T R directory key h w2 = (Inr (), w3)" and quiet3: "quiet_from_now w3"
    using seal_stream_ok [OF assms(4,2) live2 quiet2] opened by blast
  have writing3: "writing_temp w ?qt h w3"
    by (rule triple_result [OF seal_stream_keeps [OF writing_temp_sink writing_temp_tick] _ str]) (use opened in simp)
  define w4 where "w4 = close_file h w3"
  have written: "temp_written w ?qt (\<lambda>_. True) w4"
    using triple_Inr [OF drop_temp_triple [where B = "\<lambda>_. True"], of w ?qt h w3 "()" w4] writing3
    by (simp add: drop_file_def w4_def)
  have quiet4: "quiet_from_now w4" using quiet3 by (simp add: w4_def close_file_def quiet_from_now_def)
  have in4: "within (names_only {?qt}) w w4" using written by (simp add: temp_written_def)
  have "inode_at w4 ?q = inode_at w ?q" by (rule within_inode_at [OF in4]) simp_all
  then have dir4: "dir_at w4 ?q" using assms(5) by (simp add: dir_at_def)
  have apart: "\<not> prefix ?qt ?qd" "\<not> prefix ?qd ?qt" "?qt \<noteq> ?qd"
    by (simp_all add: same_length_prefix temp_names_differ temp_names_differ [symmetric])
  have "inode_at w4 ?qd = inode_at w ?qd" by (rule within_inode_at [OF in4]) (use apart(3) in auto)
  then have free4: "\<not> dir_at w4 ?qd" using assms(7) by (simp add: dir_at_def)
  have "lookup w4 p = None" if "strict_prefix ?qd p" for p
  proof -
    have "p \<noteq> ?qt" using that apart(2) by (auto simp: strict_prefix_def)
    then show ?thesis using withinD(10) [OF in4, of p] assms(8) that by (simp add: dir_empty_iff)
  qed
  then have empty4: "dir_empty w4 ?qd" by (simp add: dir_empty_iff)
  have "inode_at w4 ?qt \<noteq> None" "\<not> dir_at w4 ?qt"
    using written by (auto simp: temp_written_def sealed_at_def inode_at_def dir_at_def private_inode_def)
  then have "\<exists>w5. rename temp (path_join d state_name) w4 = (Inr (), w5)"
    using quiet4 dir4 free4 empty4 apart withinD(3) [OF in4] qt locate_join [OF state_name_simple, of "w_cwd w" d]
    by (simp add: rename_def sys_def Let_def quiet_from_now_def dir_at_def inode_at_def dir_empty_def)
  then obtain w5 where ren: "rename temp (path_join d state_name) w4 = (Inr (), w5)" by blast
  have "seal_directory A T R U directory (path_join d state_name) key w = (Inr (), w5)"
    unfolding seal_directory_def andthen_ok [where m = "fresh_uuid U" and s = w, OF fresh] Let_def seal_temporary
      on_failure_Inr temp_def [symmetric]
    using opn str ren by (auto simp: andthen_Inr_iff attempt_iff drop_file_def w4_def)
  then show ?thesis by blast
qed

section \<open>Examples for the properties\<close>

text \<open>An archive format of one fixed trailer and no entries, and constant random values.\<close>

definition demo_tar :: "vault_reader tar_lib" where
  "demo_tar =
     \<lparr>tar_pack = (\<lambda>_ _. ([], None, 0)), tar_trailer = [[1, 2, 3]], tar_dropped = [],
      tar_open = (\<lambda>r. r), tar_entries = (\<lambda>A r. (Inr (), r)), tar_next = (\<lambda>A r. (Inr None, r)),
      tar_unpack_in = (\<lambda>A e d (t, w). (Inr True, t, w)), tar_into_inner = (\<lambda>r. r), tar_left = (\<lambda>_. 0)\<rparr>"

lemma demo_tar_documented: "tar_confined demo_tar" "tar_advances demo_tar" "tar_reads_only demo_tar"
  by (auto simp: tar_confined_def tar_advances_def tar_reads_only_def demo_tar_def intro: reads_to.same)

definition zero_random :: random_source where
  "zero_random t n = Some (replicate n 0)"

lemma zero_random_fills: "random_fills zero_random"
  by (simp add: random_fills_def zero_random_def)

definition demo_uuid :: uuid_lib where
  "demo_uuid =
     \<lparr>uuid_parse = (\<lambda>s. if length s = 36 then Some (replicate 16 0) else None),
      uuid_to_string = (\<lambda>u. replicate 36 (CHR ''0'')), uuid_new_v4 = (\<lambda>t. replicate 16 0)\<rparr>"

lemma demo_can_seal: "can_seal pad_aead demo_tar zero_random d demo_key 1"
proof -
  have "frame_room (replicate 12 0) 1" by (simp add: frame_room_def)
  then show ?thesis
    by (auto simp: can_seal_def pad_aead_sizes pad_aead_decrypts demo_lengths zero_random_def
        nonce_seed_length_def demo_tar_def chunk_size_def)
qed

lemma demo_quiet: "quiet_from_now demo_world" "no_interrupts demo_world"
  by (simp_all add: quiet_from_now_def no_interrupts_def demo_world_def)

definition demo_seal :: "(vault_error + unit) \<times> world" where
  "demo_seal = seal_directory pad_aead demo_tar zero_random demo_uuid (parse_path ''/run'')
     (path_join (canonical_path [''run'']) state_name) demo_key demo_world"

lemma demo_run_dir: "locate (w_cwd demo_world) (canonical_path [''run'']) = [''run'']"
  by simp

lemma demo_seal_ok: "\<exists>w'. demo_seal = (Inr (), w')"
  unfolding demo_seal_def
  by (rule seal_directory_ok [OF demo_wf zero_random_fills demo_quiet(1) demo_can_seal])
     (auto simp: demo_world_def dir_at_def inode_at_def lookup_def demo_dir_def dir_empty_def)

section \<open>Properties\<close>

text \<open>
  C17: sealing is atomic.  Whatever faults the host has, a failed \<open>seal_directory\<close> leaves every name but
  that of its temporary file, the state file with its contents among them, as it was.  A successful one
  has removed the temporary name and put a new file in place, private to the user, that holds the
  encoding of what the archive builder wrote for the directory; nothing else has changed.
\<close>

theorem seal_directory_atomic:
  assumes "wf_world w" "random_fills R"
    and "seal_directory A T R U directory (path_join d state_name) key w = (r, w')"
    and "qt = locate (w_cwd w) d @ [temp_name (uuid_to_string U (uuid_new_v4 U (w_tick w)))]"
    and "qd = locate (w_cwd w) d @ [state_name]"
  shows "(\<forall>q i. lookup w q = Some i \<longrightarrow> w_inodes w' i = w_inodes w i) \<and>
    (\<forall>e. r = Inl e \<longrightarrow> (\<forall>q. q \<noteq> qt \<longrightarrow> lookup w' q = lookup w q)) \<and>
    (r = Inr () \<longrightarrow> (\<forall>q. \<not> prefix qt q \<longrightarrow> \<not> prefix qd q \<longrightarrow> lookup w' q = lookup w q) \<and>
       lookup w' qt = None \<and> private_file w' qd \<and>
       (\<exists>i bs. lookup w' qd = Some i \<and> file_bytes w' i = Some bs \<and> sealed_bytes A T directory key bs))"
proof -
  note run = seal_directory_run [OF assms(1-3), folded assms(4,5)]
  have old: "w_inodes w' i = w_inodes w i" if "lookup w q = Some i" for q i
  proof -
    have "i < w_next w" using assms(1) that by (simp add: wf_world_def)
    then show ?thesis using run withinD(11) by (cases r) fastforce+
  qed
  have good: "private_file w' qd \<and>
      (\<exists>i bs. lookup w' qd = Some i \<and> file_bytes w' i = Some bs \<and> sealed_bytes A T directory key bs)"
    if "within S w w'" "sealed_at w qd (sealed_bytes A T directory key) w'" for S
    using that(2) withinD(4) [OF that(1)]
    by (fastforce simp: sealed_at_def private_file_def inode_at_def private_inode_def)
  show ?thesis
  proof (cases r)
    case (Inl e)
    then show ?thesis using run old withinD(10) by fastforce
  next
    case (Inr u)
    then have w': "within (names_only (below qt \<union> below qd)) w w'" and rest: "lookup w' qt = None"
        "sealed_at w qd (sealed_bytes A T directory key) w'"
      using run by auto
    show ?thesis using Inr old rest good [OF w' rest(2)] withinD(10) [OF w'] by auto
  qed
qed

theorem seal_directory_atomic_witness:
  "private_file (snd demo_seal) [''run'', state_name] \<and>
   (\<exists>i bs. lookup (snd demo_seal) [''run'', state_name] = Some i \<and> file_bytes (snd demo_seal) i = Some bs)"
proof -
  obtain w' where run: "demo_seal = (Inr (), w')" using demo_seal_ok by blast
  have end_world: "snd demo_seal = w'" using arg_cong [OF run, of snd] by (simp only: snd_conv)
  show ?thesis
    unfolding end_world
    using seal_directory_atomic [OF demo_wf zero_random_fills run [unfolded demo_seal_def] refl refl] by auto
qed







text \<open>
  C21: unsealing succeeds only on an authenticated vault.  When \<open>unseal_directory\<close> returns \<open>Ok\<close>, the
  state file was a private file of the user and the whole of its bytes, to the final frame and nothing
  after it, is a vault of the grammar under the data key, however the archive library sized and
  interleaved its reads and wherever it stopped.
\<close>

theorem unseal_directory_authenticated:
  assumes "wf_world w" "no_interrupts w" "tar_reads_only T"
    and "unseal_directory A T src destination key w = (Inr u, w')"
  shows "private_file w (locate (w_cwd w) src) \<and>
    (\<exists>i bs ps. lookup w (locate (w_cwd w) src) = Some i \<and> file_bytes w i = Some bs \<and> accepts_vault A key ps bs)"
  by (rule unseal_directory_Inr [OF assms])

text \<open>The instance: the one vault that decrypts, in a private state file.\<close>

definition vault_world :: world where
  "vault_world = demo_world
     \<lparr>w_names := ([''run'', state_name], 2) # w_names demo_world,
      w_inodes := (w_inodes demo_world)(2 := Some \<lparr>in_kind = RegularFile one_vault, in_uid = 1000, in_mode = 384\<rparr>),
      w_next := 3\<rparr>"

lemma vault_world_wf: "wf_world vault_world"
  by (simp add: wf_world_def vault_world_def demo_world_def lookup_def)

lemma vault_world_unseals:
  "\<exists>w'. unseal_directory one_aead demo_tar (path_join (canonical_path [''run'']) state_name) [] demo_key vault_world
     = (Inr (), w')"
proof -
  let ?p = "path_join (canonical_path [''run'']) state_name"
  have at: "locate (w_cwd w) ?p = [''run'', state_name]" for w :: world
    by (simp add: locate_join [OF state_name_simple])
  have p: "?p \<noteq> []" by (simp add: join_simple [OF state_name_simple])
  obtain r where r: "vault_reader_new one_aead (bytes_source one_vault) demo_key = Inr r"
    "vr_verify_finished one_aead r = Inr ()"
    by (rule accepted_verifies [of "bytes_source one_vault" one_aead demo_key "[]"]) (simp_all add: one_accepted)
  have quiet: "w_faults vault_world t = None" for t by (simp add: vault_world_def demo_world_def)
  have look: "lookup vault_world [''run'', state_name] = Some 2"
    by (simp add: vault_world_def lookup_def)
  have node: "w_inodes vault_world 2 = Some \<lparr>in_kind = RegularFile one_vault, in_uid = 1000, in_mode = 384\<rparr>"
    "w_euid vault_world = 1000"
    by (simp_all add: vault_world_def demo_world_def)
  show ?thesis
    using quiet look node r p
    by (simp add: unseal_directory_def validate_private_file_def symlink_metadata_def open_read_def sys_def Let_def
        at andthen_def action_err_def private_mask_def open_inode_def open_fd_def attempt_def file_source_def
        file_bytes_def unseal_archive_def unseal_entries_def demo_tar_def drop_file_def)
qed

theorem unseal_directory_authenticated_witness:
  "private_file vault_world [''run'', state_name] \<and>
   (\<exists>bs ps. inode_at vault_world [''run'', state_name] = Some \<lparr>in_kind = RegularFile bs, in_uid = 1000, in_mode = 384\<rparr> \<and>
      accepts_vault one_aead demo_key ps bs)"
proof -
  obtain w' where run: "unseal_directory one_aead demo_tar (path_join (canonical_path [''run'']) state_name) []
      demo_key vault_world = (Inr (), w')"
    using vault_world_unseals by blast
  have quiet: "no_interrupts vault_world" by (simp add: no_interrupts_def vault_world_def demo_world_def)
  have "inode_at vault_world [''run'', state_name] =
      Some \<lparr>in_kind = RegularFile one_vault, in_uid = 1000, in_mode = 384\<rparr>"
    by (simp add: vault_world_def inode_at_def lookup_def)
  moreover have "file_bytes vault_world i = Some bs \<Longrightarrow> lookup vault_world [''run'', state_name] = Some i \<Longrightarrow>
      bs = one_vault" for i bs
    by (simp add: vault_world_def lookup_def file_bytes_def)
  ultimately show ?thesis
    using unseal_directory_authenticated [OF vault_world_wf quiet demo_tar_documented(3) run]
    by (auto simp: locate_join [OF state_name_simple])
qed







end
