(* ===== verification/Store_Examples.thy ===== *)
theory Store_Examples
  imports Store_Session Archive_Properties "HOL-Library.Code_Target_Nat"
begin

text \<open>
  Executable instances of the crates, each with the conditions its documentation promises, a store and
  a world with one profile, made by running \<open>add_user\<close>.  They show that the hypotheses of the store's
  properties can hold together.
\<close>

section \<open>UUIDs in hexadecimal\<close>

definition hex_digit :: "nat \<Rightarrow> char" where
  "hex_digit n = (if n < 10 then char_of (48 + n) else char_of (87 + n))"

definition hex_value :: "char \<Rightarrow> nat" where
  "hex_value c = (if (of_char c :: nat) < 58 then of_char c - 48 else of_char c - 87)"

fun hex_print :: "bytes \<Rightarrow> string" where
  "hex_print [] = []"
| "hex_print (b # bs) = hex_digit (unat b div 16) # hex_digit (unat b mod 16) # hex_print bs"

fun hex_parse :: "string \<Rightarrow> bytes" where
  "hex_parse (c # d # cs) = of_nat (16 * hex_value c + hex_value d) # hex_parse cs"
| "hex_parse _ = []"

definition hex_uuid :: uuid_lib where
  "hex_uuid =
     \<lparr>uuid_parse = (\<lambda>s. if length s = 36 then Some (hex_parse (take 32 s)) else None),
      uuid_to_string = (\<lambda>u. hex_print u @ ''----''),
      uuid_new_v4 = (\<lambda>t. replicate 15 0 @ [of_nat t])\<rparr>"

lemma hex_digits:
  assumes "n < 16"
  shows "hex_value (hex_digit n) = n" "is_uuid_byte (of_char (hex_digit n))"
proof -
  have "\<forall>n \<in> set [0..<16]. hex_value (hex_digit n) = n \<and> is_uuid_byte (of_char (hex_digit n))"
    by code_simp
  then show "hex_value (hex_digit n) = n" "is_uuid_byte (of_char (hex_digit n))" using assms by auto
qed

lemma hex_parse_print: "hex_parse (hex_print u) = u"
proof (induction u)
  case (Cons b bs)
  have "unat b < 256" using unsigned_less [of b, where 'a = nat] by simp
  then have "unat b div 16 < 16" by (simp add: less_mult_imp_div_less)
  then have "hex_value (hex_digit (unat b div 16)) = unat b div 16"
    "hex_value (hex_digit (unat b mod 16)) = unat b mod 16"
    by (simp_all add: hex_digits)
  then show ?case using Cons by simp
qed simp

lemma hex_print_uuid: "length (hex_print u) = 2 * length u" "\<forall>c \<in> set (hex_print u). is_uuid_byte (of_char c)"
proof (induction u)
  case (Cons b bs)
  have "unat b < 256" using unsigned_less [of b, where 'a = nat] by simp
  then have "unat b div 16 < 16" by (simp add: less_mult_imp_div_less)
  then show "\<forall>c \<in> set (hex_print (b # bs)). is_uuid_byte (of_char c)" using Cons by (auto simp: hex_digits)
  show "length (hex_print (b # bs)) = 2 * length (b # bs)" using Cons by simp
qed simp_all

lemma hex_parse_length: "length (hex_parse s) = length s div 2"
  by (induction s rule: hex_parse.induct) auto

lemma hex_uuid_prints: "uuid_prints hex_uuid"
proof -
  have hyphen: "is_uuid_byte (of_char (CHR ''-''))" by (simp add: is_uuid_byte_def)
  show ?thesis
    using hex_print_uuid(2) hyphen
    by (auto simp: uuid_prints_def hex_uuid_def hex_print_uuid(1) hex_parse_print hex_parse_length)
qed

section \<open>Temporary directories, locks and manifests\<close>

text \<open>A directory is made only at a name nothing is below of.\<close>

definition make_fresh :: "names \<Rightarrow> unit os" where
  "make_fresh q = (\<lambda>w. if dir_empty w q then mkdir private_dir_mode q w else (Inl already_exists, w))"

definition model_tempdir :: tempdir_lib where
  "model_tempdir =
     \<lparr>td_tempdir = andthen (make_fresh [''.tmp'']) (\<lambda>_. ok (canonical_path [''.tmp''])),
      td_create_in = (\<lambda>root name w.
        andthen (make_fresh (locate (w_cwd w) root @ [name])) (\<lambda>_. ok (path_join root name)) w),
      td_close = remove_dir_all\<rparr>"

lemma make_fresh_cases:
  assumes "within S w0 w" "lookup w0 q = None \<longrightarrow> q \<in> sc_names S" "make_fresh q w = (r, w')"
  shows "within S w0 w' \<and> (r = Inr () \<longrightarrow> unused w q)"
proof -
  have "within S w0 w'"
    using assms(1,3) triple_result [OF mkdir_triple [of w0 q S private_dir_mode] assms(1), of r w'] assms(2)
    by (auto simp: make_fresh_def split: if_splits)
  moreover have "unused w q" if "r = Inr ()"
  proof -
    have "dir_empty w q" "lookup w q = None"
      using assms(3) that by (auto simp: make_fresh_def mkdir_def sys_def Let_def split: if_splits option.splits)
    then show ?thesis by (auto simp: unused_def dir_empty_iff strict_prefix_def)
  qed
  ultimately show ?thesis by blast
qed

lemma model_tempdir_documented: "tempdir_documented model_tempdir"
proof -
  have 1: "within S w0 w' \<and> (\<forall>p. r = Inr p \<longrightarrow> p = path_join root name \<and> unused w (locate (w_cwd w0) root @ [name]))"
    if "lookup w0 (locate (w_cwd w0) root @ [name]) = None \<longrightarrow> locate (w_cwd w0) root @ [name] \<in> sc_names S"
      and w: "within S w0 w" and run: "td_create_in model_tempdir root name w = (r, w')" for root name S w0 w r w'
  proof -
    obtain x w1 where "make_fresh (locate (w_cwd w) root @ [name]) w = (x, w1)" by fastforce
    then show ?thesis
      using make_fresh_cases [OF w that(1)] run withinD(3) [OF w]
      by (cases x) (auto simp: model_tempdir_def andthen_def)
  qed
  have 2: "within S w0 w' \<and> (r = Inr () \<longrightarrow> unused w' (locate (w_cwd w0) p))"
    if "below (locate (w_cwd w0) p) \<subseteq> sc_names S" and w: "within S w0 w"
      and run: "td_close model_tempdir p w = (r, w')" for p S w0 w r w'
  proof -
    have "within S w0 w'"
      using run triple_result [OF remove_dir_all_triple [OF that(1)] w] by (simp add: model_tempdir_def)
    moreover have "unused w' (locate (w_cwd w0) p)" if "r = Inr ()"
      using run that withinD(3) [OF w]
      by (auto simp: model_tempdir_def remove_dir_all_def sys_def Let_def unused_def split: if_splits option.splits)
    ultimately show ?thesis by blast
  qed
  show ?thesis
    unfolding tempdir_documented_def by (rule conjI; intro allI impI; (rule 1 | rule 2); assumption)
qed

lemma model_tempdir_fresh: "tempdir_fresh model_tempdir"
proof -
  have "within S w0 w' \<and> (\<forall>p. r = Inr p \<longrightarrow> unused w (locate (w_cwd w0) p) \<and>
        (\<exists>d name. locate (w_cwd w0) p = d @ [''.tmp'' @ name]))"
    if "\<forall>q. lookup w0 q = None \<longrightarrow> q \<in> sc_names S" and w: "within S w0 w"
      and run: "td_tempdir model_tempdir w = (r, w')" for S w0 w r w'
  proof -
    obtain x w1 where "make_fresh [''.tmp''] w = (x, w1)" by fastforce
    then show ?thesis
      using make_fresh_cases [OF w, of "[''.tmp'']"] that(1) run
      by (cases x) (auto simp: model_tempdir_def andthen_def)
  qed
  then show ?thesis unfolding tempdir_fresh_def by blast
qed

definition model_locks :: lock_lib where
  "model_locks =
     \<lparr>try_lock_exclusive = (\<lambda>h w.
        if w_locks w (fh_ino h) \<in> {None, Some (fh_fd h)}
        then (Inr (), w\<lparr>w_locks := (w_locks w)(fh_ino h := Some (fh_fd h)), w_tick := Suc (w_tick w)\<rparr>)
        else (Inl (os_error WouldBlock ''Resource temporarily unavailable (os error 11)''),
              w\<lparr>w_tick := Suc (w_tick w)\<rparr>)),
      unlock_file = (\<lambda>h w.
        (Inr (), w\<lparr>w_locks := (if w_locks w (fh_ino h) = Some (fh_fd h) then (w_locks w)(fh_ino h := None) else w_locks w),
                   w_tick := Suc (w_tick w)\<rparr>))\<rparr>"

lemma model_locks_documented: "locks_documented model_locks"
proof -
  have own: "(if f i = Some x then f(i := None) else f) = (\<lambda>j. if j = i \<and> f j = Some x then None else f j)"
    for f :: "nat \<Rightarrow> nat option" and i x
    by (auto simp: fun_eq_iff)
  show ?thesis
    unfolding locks_documented_def
  proof (intro conjI allI impI)
    fix h w r w' assume "try_lock_exclusive model_locks h w = (r, w')"
    then show "\<exists>t \<ge> w_tick w. case r of
           Inr _ \<Rightarrow> (w_locks w (fh_ino h) = None \<or> w_locks w (fh_ino h) = Some (fh_fd h)) \<and>
              w' = w\<lparr>w_locks := (w_locks w)(fh_ino h := Some (fh_fd h)), w_tick := t\<rparr>
         | Inl e \<Rightarrow> w' = w\<lparr>w_tick := t\<rparr> \<and>
              (io_kind e = WouldBlock \<longrightarrow> w_locks w (fh_ino h) \<noteq> None \<and> w_locks w (fh_ino h) \<noteq> Some (fh_fd h))"
      by (intro exI [of _ "Suc (w_tick w)"]) (auto simp: model_locks_def split: if_splits)
  next
    fix h w r w' assume "unlock_file model_locks h w = (r, w')"
    then show "\<exists>t \<ge> w_tick w. case r of
           Inr _ \<Rightarrow> w' = w\<lparr>w_locks := (\<lambda>i. if i = fh_ino h \<and> w_locks w i = Some (fh_fd h) then None else w_locks w i),
                          w_tick := t\<rparr>
         | Inl e \<Rightarrow> w' = w\<lparr>w_tick := t\<rparr>"
      by (intro exI [of _ "Suc (w_tick w)"]) (auto simp: model_locks_def own)
  qed
qed

section \<open>A store with one profile\<close>

text \<open>The manifest that a run with these crates makes, and the one JSON document of it.\<close>

definition store_manifest :: user_manifest where
  "store_manifest =
     \<lparr>um_version = 1, um_id = replicate 31 (CHR ''0'') @ ''d----'', um_username = ''Alice'', um_created_at = 5,
      um_kdf = \<lparr>kdf_algorithm = ''argon2id'', kdf_salt = replicate 16 (CHR 0x00), kdf_memory_cost_ki_b = 65536,
                kdf_time_cost = 3, kdf_parallelism = 1, kdf_output_length = 32\<rparr>,
      um_wrapped_data_key = \<lparr>wk_algorithm = wrap_algorithm, wk_iv = replicate 12 (CHR 0x00),
        wk_ciphertext = replicate 32 (CHR 0x00), wk_authentication_tag = replicate 16 (CHR 0x00)\<rparr>,
      um_vault_format = vault_format\<rparr>"

definition one_json :: manifest_json where
  "one_json =
     \<lparr>mj_pretty = (\<lambda>m. if m = store_manifest then Inr [[123], [125]] else Inl ''not supported''),
      mj_from_slice = (\<lambda>bs. if bs = [123, 125, 10] then Inr store_manifest else Inl ''expected value'')\<rparr>"

definition demo_crates :: "vault_reader crates" where
  "demo_crates =
     \<lparr>cr_aead = pad_aead, cr_tar = demo_tar, cr_random = zero_random, cr_uuid = hex_uuid,
      cr_tempdir = model_tempdir, cr_locks = model_locks, cr_json = one_json, cr_base64 = char_base64,
      cr_argon2 = pad_argon2\<rparr>"

lemma demo_crates_documented: "crates_documented demo_crates"
proof -
  have "mj_round_trips one_json" by (auto simp: mj_round_trips_def one_json_def as_bytes_def)
  then show ?thesis
    by (simp add: crates_documented_def demo_crates_def pad_aead_sizes pad_aead_decrypts demo_tar_documented
        zero_random_fills hex_uuid_prints model_tempdir_documented model_tempdir_fresh model_locks_documented
        char_base64_round_trips)
qed

definition demo_store :: vault_store where
  "demo_store = \<lparr>vs_root = parse_path ''/run/vault'', vs_runtime_root = Some (parse_path ''/run/runtime'')\<rparr>"

definition demo_password :: bytes where "demo_password = replicate 12 65"

text \<open>The state file of that profile, and a world with the profile in it.\<close>

definition store_state :: bytes where
  "store_state =
     [67, 68, 88, 86, 76, 84, 48, 50, 0, 0, 0, 0, 0, 0, 0, 0, 0, 0, 0, 0,
      1, 0, 0, 0, 0, 0, 0, 0, 0, 0, 0, 0, 0, 0, 0, 0, 0, 0, 0, 0, 0, 0, 0, 0, 0]"

definition alice :: names where "alice = [''run'', ''vault'', ''users'', ''alice'']"

definition profile_world :: world where
  "profile_world = demo_world
     \<lparr>w_names := [(alice @ [state_name], 6), (alice @ [manifest_name], 5), (alice, 4),
                  ([''run'', ''vault'', ''users''], 3), ([''run'', ''vault''], 2), ([''run''], 1), ([], 0)],
      w_inodes := (\<lambda>i. if i < 5 then Some demo_dir
                       else if i = 5 then Some \<lparr>in_kind = RegularFile [123, 125, 10], in_uid = 1000, in_mode = 384\<rparr>
                       else if i = 6 then Some \<lparr>in_kind = RegularFile store_state, in_uid = 1000, in_mode = 384\<rparr>
                       else None),
      w_next := 7\<rparr>"

lemma profile_world_wf: "wf_world profile_world"
  by (auto simp: wf_world_def profile_world_def demo_world_def lookup_def)

end
