(* ===== verification/Store_Runs.thy ===== *)
theory Store_Runs
  imports Store_Outcomes Store_Examples
begin

text \<open>
  Runs of the store's operations on the worlds of \<open>Store_Examples\<close>, evaluated step by step: each
  operation returns \<open>Ok\<close> there.
\<close>

lemma andthen_step: "fst (m s) = Inr x \<Longrightarrow> andthen m f s = f x (snd (m s))"
  by (cases "m s") (simp add: andthen_def)

lemma fst_Inr_obtain:
  assumes "is_ok (fst p)"
  obtains x s where "p = (Inr x, s)"
  using assms by (cases p; cases "fst p") auto

section \<open>Unlocking\<close>

lemma demo_unlock_ok: "is_ok (fst (unlock demo_crates demo_store ''alice'' demo_password profile_world))"
  by code_simp

section \<open>Rotating the password\<close>

definition alice_root :: path where "alice_root = user_root demo_store ''alice''"

definition locked_world :: world where
  "locked_world = snd (acquire_lock model_locks (path_join alice_root lock_name)
     (snd (validate_private_directory alice_root profile_world)))"

definition rewrapped_world :: world where
  "rewrapped_world = snd (rotated_manifest demo_crates alice_root ''alice'' demo_password demo_password locked_world)"

lemma demo_directory: "fst (validate_private_directory alice_root profile_world) = Inr ()"
  by code_simp

lemma demo_lock:
  "fst (acquire_lock model_locks (path_join alice_root lock_name) (snd (validate_private_directory alice_root profile_world)))
     = Inr \<lparr>fh_fd = 8, fh_ino = 7\<rparr>"
  by code_simp

lemma demo_rewrapped:
  "fst (rotated_manifest demo_crates alice_root ''alice'' demo_password demo_password locked_world) = Inr store_manifest"
  by code_simp

lemma demo_replaced:
  "fst (replace_private_json one_json hex_uuid (path_join alice_root manifest_name) store_manifest rewrapped_world) = Inr ()"
  by code_simp

lemma demo_checks:
  "validate_username ''alice'' = Inr ()" "validate_username ''Alice'' = Inr ()" "validate_password demo_password = Inr ()"
  by code_simp+

lemma model_unlock_ok: "fst (unlock_file model_locks h w) = Inr ()"
  by (simp add: model_locks_def)

lemma demo_rotate_ok:
  "is_ok (fst (rotate_password demo_crates demo_store ''alice'' demo_password demo_password profile_world))"
proof -
  have parts: "cr_locks demo_crates = model_locks" "cr_json demo_crates = one_json" "cr_uuid demo_crates = hex_uuid"
    by (simp_all add: demo_crates_def)
  have rot: "fst (rotate_manifest demo_crates alice_root ''alice'' demo_password demo_password locked_world) = Inr ()"
    using demo_replaced by (simp only: rotate_manifest_def andthen_step demo_rewrapped parts rewrapped_world_def)
  have dir: "fst (action_err (\<lambda>_. Authentication) (validate_private_directory alice_root) profile_world) = Inr ()"
    "snd (action_err (\<lambda>_. Authentication) (validate_private_directory alice_root) profile_world)
       = snd (validate_private_directory alice_root profile_world)"
    using demo_directory by (simp_all add: action_err_apply map_err_def)
  have "fst (rotate_password demo_crates demo_store ''alice'' demo_password demo_password profile_world) =
      fst (action_err Io (unlock_file model_locks \<lparr>fh_fd = 8, fh_ino = 7\<rparr>)
        (snd (rotate_manifest demo_crates alice_root ''alice'' demo_password demo_password locked_world)))"
    using rot
    by (simp add: rotate_password_def alice_root_def [symmetric] parts demo_checks andthen_lift andthen_step dir demo_lock
        locked_world_def [symmetric] attempt_apply drop_file_def)
  then show ?thesis by (simp add: action_err_apply map_err_def model_unlock_ok)
qed

section \<open>Adding a user\<close>

definition users_world :: world where
  "users_world = snd (symlink_metadata (user_root demo_store ''Alice'') (snd (initialize demo_store demo_world)))"

definition alice_stage :: path where
  "alice_stage = path_join (users_root demo_store)
     (staging_name (uuid_to_string hex_uuid (uuid_new_v4 hex_uuid (w_tick users_world))))"

definition staged_world :: world where
  "staged_world = snd (ensure_private_directory alice_stage (users_world\<lparr>w_tick := Suc (w_tick users_world)\<rparr>))"

definition filled_world :: world where
  "filled_world = snd (new_profile demo_crates ''Alice'' demo_password staged_world)"

lemma demo_add_start:
  "fst (initialize demo_store demo_world) = Inr ()"
  "\<not> is_ok (fst (symlink_metadata (user_root demo_store ''Alice'') (snd (initialize demo_store demo_world))))"
  "fst (ensure_private_directory alice_stage (users_world\<lparr>w_tick := Suc (w_tick users_world)\<rparr>)) = Inr ()"
  by code_simp+

lemma demo_new_profile:
  "fst (new_profile demo_crates ''Alice'' demo_password staged_world) = Inr (store_manifest, replicate 32 0)"
  by code_simp

lemma demo_fill:
  "fst (fill_profile demo_crates alice_stage (user_root demo_store ''Alice'') store_manifest (replicate 32 0) filled_world)
     = Inr ()"
  by code_simp

lemma demo_add_ok: "is_ok (fst (add_user demo_crates demo_store ''Alice'' demo_password demo_world))"
proof -
  let ?profile = "user_root demo_store ''Alice''"
  have parts: "cr_uuid demo_crates = hex_uuid" by (simp add: demo_crates_def)
  have made: "fst (create_profile demo_crates ''Alice'' demo_password alice_stage ?profile staged_world) = Inr ()"
    using demo_fill by (simp add: create_profile_def andthen_step demo_new_profile filled_world_def)
  have ready: "andthen (attempt (symlink_metadata ?profile)) f (snd (initialize demo_store demo_world)) =
      f (fst (symlink_metadata ?profile (snd (initialize demo_store demo_world)))) users_world" for f
    by (simp add: andthen_def attempt_apply users_world_def)
  have fresh: "fst (fresh_uuid hex_uuid users_world) = Inr (uuid_to_string hex_uuid (uuid_new_v4 hex_uuid (w_tick users_world)))"
    "snd (fresh_uuid hex_uuid users_world) = users_world\<lparr>w_tick := Suc (w_tick users_world)\<rparr>"
    by (simp_all add: fresh_uuid_def)
  have "add_user demo_crates demo_store ''Alice'' demo_password demo_world =
      on_failure (create_profile demo_crates ''Alice'' demo_password alice_stage ?profile)
        (remove_dir_all alice_stage) staged_world"
    using demo_add_start(2)
    by (simp add: add_user_def demo_checks andthen_lift andthen_step ready parts fresh staging_name_def
        demo_add_start [unfolded alice_stage_def staging_name_def append.simps] alice_stage_def staged_world_def Let_def)
  then show ?thesis using made by (cases "create_profile demo_crates ''Alice'' demo_password alice_stage ?profile staged_world")
      (auto simp: on_failure_def andthen_def attempt_apply)
qed

end
