(* ===== verification/Store_Properties.thy ===== *)
theory Store_Properties
  imports Store_Runs
begin

text \<open>
  Properties of the vault store: creating a profile, unlocking it under its lock, rotating its password,
  closing it again, and listing the profiles.
\<close>



text \<open>
  C27: a failed unlock leaves no lock and changes nothing that was there.  Whatever the error, at
  whichever step, every name that existed still stands for its file, every file but the lock file has
  its contents and its permissions, and the locks are those of before.
\<close>

theorem unlock_failure_harmless:
  assumes "wf_world w" "crates_documented K" "unlock K store username password w = (Inl e, w')"
    and "d = locate (w_cwd w) (user_root store username)"
  shows "w_locks w' = w_locks w \<and> (\<forall>p. lookup w p \<noteq> None \<longrightarrow> lookup w' p = lookup w p) \<and>
    (\<forall>p i. lookup w p = Some i \<longrightarrow> lookup w (d @ [lock_name]) \<noteq> Some i \<longrightarrow> w_inodes w' i = w_inodes w i)"
proof -
  from unlock_run [OF assms(1-3) refl] have s: "within (session_scope w (d @ [lock_name]) {}) w w'"
    using assms(4) by simp
  have "w_locks w' i = w_locks w i" for i using withinD(12) [OF s] by simp
  moreover have "lookup w' p = lookup w p" if "lookup w p \<noteq> None" for p using withinD(10) [OF s] that by simp
  moreover have "w_inodes w' i = w_inodes w i" if "lookup w p = Some i" "lookup w (d @ [lock_name]) \<noteq> Some i" for p i
    using withinD(11) [OF s, of i] assms(1) that by (auto simp: wf_world_def)
  ultimately show ?thesis by blast
qed

theorem unlock_failure_harmless_witness:
  "\<exists>v w' e w''. unlock demo_crates demo_store ''alice'' demo_password profile_world = (Inr v, w') \<and>
     unlock demo_crates demo_store ''alice'' demo_password w' = (Inl e, w'') \<and>
     w_locks w'' (fh_ino (uv_lock v)) = Some (fh_fd (uv_lock v))"
proof -
  obtain v w' where run: "unlock demo_crates demo_store ''alice'' demo_password profile_world = (Inr v, w')"
    by (rule fst_Inr_obtain [OF demo_unlock_ok])
  note session = unlock_session [OF profile_world_wf demo_crates_documented run refl]
  obtain e w'' where again: "unlock demo_crates demo_store ''alice'' demo_password w' = (Inl e, w'')"
    using unlock_locked_out(1) [OF session(2) crates_documentedD(9) [OF demo_crates_documented], of demo_store "''alice''"]
      session(3,5,6) by (metis not_None_eq prod.collapse)
  show ?thesis
    using run again session(6) unlock_failure_harmless [OF session(2) demo_crates_documented again refl] by auto
qed

text \<open>
  C28: what is unlocked is authentic.  An unlocked vault carries the data key that the password opens
  from a valid, private manifest of the profile for that user name, ignoring case, and the state file
  it was restored from is, whole, one vault of the format under that key.
\<close>

theorem unlock_authenticated:
  assumes "wf_world w" "crates_documented K" "no_interrupts w" "unlock K store username password w = (Inr v, w')"
    and "d = locate (w_cwd w) (user_root store username)" "lookup w (d @ [state_name]) = Some i"
  shows "\<exists>m bs ps. manifest_at K w' d m \<and> eq_ignore_ascii_case (um_username m) username \<and>
    check_password K username password m = Inr (uv_data_key v) \<and> uv_username v = um_username m \<and>
    lookup w' (d @ [state_name]) = Some i \<and> file_bytes w' i = Some bs \<and>
    accepts_vault (cr_aead K) (uv_data_key v) ps bs"
  using unlock_session(10,13) [OF assms(1,2,4,5)] assms(3,6) check_password_Inr by metis

theorem unlock_authenticated_witness:
  "\<exists>v w' bs ps. unlock demo_crates demo_store ''alice'' demo_password profile_world = (Inr v, w') \<and>
     file_bytes w' 6 = Some bs \<and> accepts_vault pad_aead (uv_data_key v) ps bs"
proof -
  obtain v w' where run: "unlock demo_crates demo_store ''alice'' demo_password profile_world = (Inr v, w')"
    by (rule fst_Inr_obtain [OF demo_unlock_ok])
  have place: "alice = locate (w_cwd profile_world) (user_root demo_store ''alice'')"
    "lookup profile_world (alice @ [state_name]) = Some 6" by code_simp+
  have quiet: "no_interrupts profile_world" by (simp add: no_interrupts_def profile_world_def demo_world_def)
  have "cr_aead demo_crates = pad_aead" by (simp add: demo_crates_def)
  then show ?thesis
    using run unlock_authenticated [OF profile_world_wf demo_crates_documented quiet run place] by auto
qed



text \<open>
  C30: adding a user touches nothing that exists.  Whatever the outcome and whatever faults the host
  has, every existing name still stands for its file and every file is as it was, but for an empty
  directory at the place of the profile, which the final rename may replace; the locks are those of
  before.  The staging directory is a new name.
\<close>

theorem add_user_atomic:
  assumes "wf_world w" "crates_documented K" "add_user K store username password w = (r, w')"
    and "\<forall>t. unused w (locate (w_cwd w) (users_root store) @
           [staging_name (uuid_to_string (cr_uuid K) (uuid_new_v4 (cr_uuid K) t))])"
    and "q = locate (w_cwd w) (user_root store username)"
  shows "(\<forall>p i. lookup w p = Some i \<longrightarrow> (p = q \<longrightarrow> \<not> dir_empty w q) \<longrightarrow> lookup w' p = Some i) \<and>
    (\<forall>p i. lookup w p = Some i \<longrightarrow> w_inodes w' i = w_inodes w i) \<and> w_locks w' = w_locks w"
proof -
  note K = crates_documentedD [OF assms(2)]
  from keepsD [OF add_user_keeps [OF K(5,8,7,6) assms(4)] within_refl [OF assms(1)] assms(3)]
  have k: "within (names_only {p. lookup w p = None \<or> p = q \<and> dir_empty w q}) w w'"
    by (simp add: assms(5))
  have "w_inodes w' i = w_inodes w i" if "lookup w p = Some i" for p i
    using withinD(11) [OF k, of i] assms(1) that by (auto simp: wf_world_def)
  moreover have "lookup w' p = Some i" if "lookup w p = Some i" "p = q \<longrightarrow> \<not> dir_empty w q" for p i
    using withinD(10) [OF k, of p] that by auto
  ultimately show ?thesis using withinD(12) [OF k] by auto
qed

theorem add_user_atomic_witness:
  "\<exists>w'. add_user demo_crates demo_store ''Alice'' demo_password demo_world = (Inr (), w') \<and>
     lookup w' [''run''] = Some 1 \<and> w_locks w' = w_locks demo_world"
proof -
  obtain u w' where "add_user demo_crates demo_store ''Alice'' demo_password demo_world = (Inr u, w')"
    by (rule fst_Inr_obtain [OF demo_add_ok])
  then have run: "add_user demo_crates demo_store ''Alice'' demo_password demo_world = (Inr (), w')" by simp
  have place: "locate (w_cwd demo_world) (users_root demo_store) = [''run'', ''vault'', ''users'']"
    "locate (w_cwd demo_world) (user_root demo_store ''Alice'') = alice" "lookup demo_world [''run''] = Some 1" by code_simp+
  have "lookup demo_world p = None" if "prefix (locate (w_cwd demo_world) (users_root demo_store) @ [s]) p" for p s
    using that [unfolded place] by (auto simp: demo_world_def lookup_def prefix_def)
  then have unused: "\<forall>t. unused demo_world (locate (w_cwd demo_world) (users_root demo_store) @
           [staging_name (uuid_to_string (cr_uuid demo_crates) (uuid_new_v4 (cr_uuid demo_crates) t))])"
    by (simp add: unused_def)
  show ?thesis
    using run place(3) add_user_atomic [OF demo_wf demo_crates_documented run unused place(2) [symmetric]]
    by (auto simp: alice_def)
qed

text \<open>
  C31: an added user can come back.  After \<open>add_user\<close> the profile holds a manifest for the user name
  whose wrapped key the password opens, and a state file that holds the encoding under that key of
  what the archive builder wrote for a directory; the JSON parser reads the manifest back, and it is
  valid unless the clock stood at the epoch.
\<close>

theorem add_user_creates:
  assumes "wf_world w" "crates_documented K" "add_user K store username password w = (Inr (), w')"
    and "d = locate (w_cwd w) (user_root store username)"
  shows "is_valid_username username \<and> 12 \<le> length password \<and>
    (\<exists>m key i bs j cs empty. um_username m = username \<and> check_password K username password m = Inr key \<and>
       (w_clock w \<noteq> Some 0 \<longrightarrow> validate_manifest (cr_uuid K) m = Inr ()) \<and>
       lookup w' (d @ [manifest_name]) = Some i \<and> file_bytes w' i = Some bs \<and> mj_from_slice (cr_json K) bs = Inr m \<and>
       lookup w' (d @ [state_name]) = Some j \<and> file_bytes w' j = Some cs \<and>
       sealed_bytes (cr_aead K) (cr_tar K) empty key cs)"
proof -
  from add_user_Inr [OF assms(1-3), folded assms(4)] obtain m key empty where
      checks: "is_valid_username username" "12 \<le> length password"
    and m: "um_username m = username" "check_password K username password m = Inr key"
      "w_clock w \<noteq> Some 0 \<longrightarrow> validate_manifest (cr_uuid K) m = Inr ()"
    and files: "sealed_at w (d @ [manifest_name]) (manifest_text (cr_json K) m) w'"
      "sealed_at w (d @ [state_name]) (sealed_bytes (cr_aead K) (cr_tar K) empty key) w'"
    unfolding profile_made_def by blast
  from files(1) obtain i bs where "lookup w' (d @ [manifest_name]) = Some i" "file_bytes w' i = Some bs"
      "manifest_text (cr_json K) m bs" unfolding sealed_at_def by blast
  moreover from files(2) obtain j cs where "lookup w' (d @ [state_name]) = Some j" "file_bytes w' j = Some cs"
      "sealed_bytes (cr_aead K) (cr_tar K) empty key cs" unfolding sealed_at_def by blast
  ultimately show ?thesis
    using checks m manifest_text_parses [OF crates_documentedD(10) [OF assms(2)]] by blast
qed

theorem add_user_creates_witness:
  "\<exists>w' m key i bs. add_user demo_crates demo_store ''Alice'' demo_password demo_world = (Inr (), w') \<and>
     check_password demo_crates ''Alice'' demo_password m = Inr key \<and> validate_manifest hex_uuid m = Inr () \<and>
     lookup w' (alice @ [manifest_name]) = Some i \<and> file_bytes w' i = Some bs \<and> mj_from_slice one_json bs = Inr m"
proof -
  obtain u w' where "add_user demo_crates demo_store ''Alice'' demo_password demo_world = (Inr u, w')"
    by (rule fst_Inr_obtain [OF demo_add_ok])
  then have run: "add_user demo_crates demo_store ''Alice'' demo_password demo_world = (Inr (), w')" by simp
  have place: "alice = locate (w_cwd demo_world) (user_root demo_store ''Alice'')" by code_simp
  have "w_clock demo_world \<noteq> Some 0" "cr_uuid demo_crates = hex_uuid" "cr_json demo_crates = one_json"
    by (simp_all add: demo_world_def demo_crates_def)
  then show ?thesis
    using run add_user_creates [OF demo_wf demo_crates_documented run place] by auto
qed

text \<open>
  C32: closing gives everything back.  Closing an unlocked vault that holds its lock frees the lock
  whatever fails, keeps the old state file unless a complete new one is in place, and changes no other
  file; when it returns \<open>Ok\<close>, the state file is the encoding of what the archive builder wrote for the
  vault's directory and nothing of the runtime directory is left.
\<close>

theorem vault_close_releases:
  assumes "wf_world w" "crates_documented K" "vault_close K v w = (r, w')"
    and "uv_state_path v = path_join profile state_name" "d = locate (w_cwd w) profile"
    and "w_locks w (fh_ino (uv_lock v)) = Some (fh_fd (uv_lock v))"
    and "rt = locate (w_cwd w) (uv_runtime v)" "\<not> prefix rt (d @ [state_name])"
  shows "w_locks w' (fh_ino (uv_lock v)) = None \<and>
    (\<forall>p. \<not> prefix (d @ [state_name]) p \<and> (\<forall>uuid. \<not> prefix (d @ [temp_name uuid]) p) \<and> \<not> prefix rt p \<longrightarrow>
       lookup w' p = lookup w p) \<and>
    (\<forall>p i. lookup w p = Some i \<longrightarrow> w_inodes w' i = w_inodes w i) \<and>
    (r = Inr () \<longrightarrow> unused w' rt) \<and>
    ((r \<noteq> Inr () \<and> lookup w' (d @ [state_name]) = lookup w (d @ [state_name])) \<or>
     (\<exists>i bs. lookup w' (d @ [state_name]) = Some i \<and> file_bytes w' i = Some bs \<and>
        sealed_bytes (cr_aead K) (cr_tar K) (uv_codex_home v) (uv_data_key v) bs))"
proof -
  note run = vault_close_run [OF assms(1-6), folded assms(7), OF assms(8)]
  have "w_inodes w' i = w_inodes w i" if "lookup w p = Some i" for p i
    using withinD(11) [OF run(1), of i] assms(1) that by (auto simp: wf_world_def)
  moreover have "lookup w' p = lookup w p"
    if "\<not> prefix (d @ [state_name]) p \<and> (\<forall>uuid. \<not> prefix (d @ [temp_name uuid]) p) \<and> \<not> prefix rt p" for p
    using withinD(10) [OF run(1), of p] that by auto
  moreover have "\<exists>i bs. lookup w' (d @ [state_name]) = Some i \<and> file_bytes w' i = Some bs \<and>
        sealed_bytes (cr_aead K) (cr_tar K) (uv_codex_home v) (uv_data_key v) bs"
    if "sealed_at w (d @ [state_name]) (sealed_bytes (cr_aead K) (cr_tar K) (uv_codex_home v) (uv_data_key v)) w'"
    using that unfolding sealed_at_def by blast
  ultimately show ?thesis using run(2-4) by blast
qed

theorem vault_close_releases_witness:
  "\<exists>v w'. unlock demo_crates demo_store ''alice'' demo_password profile_world = (Inr v, w') \<and>
     w_locks w' (fh_ino (uv_lock v)) \<noteq> None \<and> w_locks (snd (vault_close demo_crates v w')) (fh_ino (uv_lock v)) = None"
proof -
  obtain v w' where run: "unlock demo_crates demo_store ''alice'' demo_password profile_world = (Inr v, w')"
    by (rule fst_Inr_obtain [OF demo_unlock_ok])
  note session = unlock_session [OF profile_world_wf demo_crates_documented run refl]
  have "w_locks (snd (vault_close demo_crates v w')) (fh_ino (uv_lock v)) = None"
    using vault_close_releases [OF session(2) demo_crates_documented prod.collapse [symmetric] session(8) refl session(6) refl]
      session(3,11) by auto
  then show ?thesis using run session(6) by auto
qed

text \<open>
  C33: listing is sorted and honest.  \<open>list_users\<close> returns the names in order; each is the user name of a
  valid private manifest in a directory that is not hidden; it changes nothing but to create the
  directories of the store.
\<close>

theorem list_users_sorted:
  assumes "wf_world w" "list_users K store w = (r, w')"
  shows "(\<forall>p i. lookup w p = Some i \<longrightarrow> lookup w' p = Some i \<and> w_inodes w' i = w_inodes w i) \<and>
    (\<forall>users. r = Inr users \<longrightarrow> sorted users \<and>
      (\<forall>u \<in> set users. \<exists>name m. \<not> prefix ''.'' name \<and> um_username m = u \<and>
         manifest_at K w' (locate (w_cwd w) (path_join (users_root store) name)) m))"
proof -
  note run = list_users_run [OF assms]
  have "lookup w' p = Some i \<and> w_inodes w' i = w_inodes w i" if "lookup w p = Some i" for p i
    using withinD(10) [OF run(1), of p] withinD(11) [OF run(1), of i] assms(1) that by (auto simp: wf_world_def)
  then show ?thesis using run(2) by blast
qed

theorem list_users_sorted_witness:
  "\<exists>w'. list_users demo_crates demo_store profile_world = (Inr [''Alice''], w') \<and>
     (\<exists>name m. um_username m = ''Alice'' \<and>
        manifest_at demo_crates w' (locate (w_cwd profile_world) (path_join (users_root demo_store) name)) m)"
proof -
  have "fst (list_users demo_crates demo_store profile_world) = Inr [''Alice'']" by code_simp
  then obtain w' where run: "list_users demo_crates demo_store profile_world = (Inr [''Alice''], w')"
    by (metis prod.collapse)
  show ?thesis using run list_users_sorted [OF profile_world_wf run] by auto
qed

end
