(* ===== verification/Host_Progress.thy ===== *)
theory Host_Progress
  imports Config_Paths
begin

text \<open>
  Calls that succeed on a host without faults to come: the checks on private directories and files,
  making a private directory where the way to it is free, and preparing a runtime root.
\<close>

section \<open>Calls without a fault\<close>

lemma sys_quiet: "quiet_from_now w \<Longrightarrow> sys f w = f (w\<lparr>w_tick := Suc (w_tick w)\<rparr>)"
  by (simp add: sys_def quiet_from_now_def Let_def)

lemma quiet_within: "within S w w' \<Longrightarrow> quiet_from_now w \<Longrightarrow> quiet_from_now w'"
  using withinD(5,8) [of S w w'] by (auto simp: quiet_from_now_def)

lemma inode_at_tick [simp]: "inode_at (w\<lparr>w_tick := t\<rparr>) q = inode_at w q"
  by (simp add: inode_at_def)

lemma dir_at_tick [simp]: "dir_at (w\<lparr>w_tick := t\<rparr>) q = dir_at w q"
  by (simp add: dir_at_def)

lemma wf_world_tick [simp]: "wf_world (w\<lparr>w_tick := t\<rparr>) = wf_world w"
  by (simp add: wf_world_def)

lemma quiet_next [simp]: "quiet_from_now w \<Longrightarrow> quiet_from_now (w\<lparr>w_tick := Suc (w_tick w)\<rparr>)"
  by (simp add: quiet_from_now_def)

lemma private_dir_dir_at: "private_dir w q \<Longrightarrow> dir_at w q"
  by (auto simp: private_dir_def dir_at_def)

lemma symlink_metadata_ok:
  assumes "quiet_from_now w" "p \<noteq> []" "lookup w (locate (w_cwd w) p) = Some i" "w_inodes w i = Some n"
  shows "symlink_metadata p w = (Inr (metadata_of i n), w\<lparr>w_tick := Suc (w_tick w)\<rparr>)"
  using assms by (simp add: symlink_metadata_def sys_quiet Let_def)

lemma validate_directory_ok:
  assumes "quiet_from_now w" "p \<noteq> []" "private_dir w (locate (w_cwd w) p)"
  shows "validate_private_directory p w = (Inr (), w\<lparr>w_tick := Suc (w_tick w)\<rparr>)"
proof -
  obtain i n where "lookup w (locate (w_cwd w) p) = Some i" "w_inodes w i = Some n"
      "in_kind n = Directory" "in_uid n = w_euid w" "and (in_mode n) private_mask = 0"
    using assms(3) by (auto simp: private_dir_def inode_at_def bind_eq_Some_conv)
  then show ?thesis
    using symlink_metadata_ok [OF assms(1,2)] by (simp add: validate_private_directory_def andthen_def action_err_def)
qed

lemma validate_file_ok:
  assumes "quiet_from_now w" "p \<noteq> []" "private_file w (locate (w_cwd w) p)"
    and "lookup w (locate (w_cwd w) p) = Some i" "file_bytes w i = Some b"
  shows "\<exists>m. validate_private_file p w = (Inr m, w\<lparr>w_tick := Suc (w_tick w)\<rparr>) \<and> md_len m = length b"
proof -
  obtain n where n: "w_inodes w i = Some n" "in_kind n = RegularFile b" "in_uid n = w_euid w" "and (in_mode n) private_mask = 0"
    using assms(3-5) by (auto simp: private_file_def inode_at_def file_bytes_def)
  then have "validate_private_file p w = (Inr (metadata_of i n), w\<lparr>w_tick := Suc (w_tick w)\<rparr>)"
    using symlink_metadata_ok [OF assms(1,2,4)] by (simp add: validate_private_file_def andthen_def action_err_def)
  then show ?thesis using n(2) by simp
qed

lemma open_read_ok:
  assumes "quiet_from_now w" "lookup w (locate (w_cwd w) p) = Some i" "file_bytes w i = Some b"
  shows "\<exists>h w'. open_read True p w = (Inr h, w') \<and> fh_ino h = i \<and> file_bytes w' i = Some b"
proof -
  obtain n where "w_inodes w i = Some n" "in_kind n = RegularFile b"
    using assms(3) by (auto simp: file_bytes_def split: option.splits inode_kind.splits)
  then show ?thesis
    using assms by (simp add: open_read_def sys_quiet Let_def open_inode_def open_fd_def file_bytes_def)
qed

section \<open>Making a private directory\<close>

text \<open>The way to a place is free: every name on it is a directory or is missing.\<close>

definition way_free :: "world \<Rightarrow> names \<Rightarrow> bool" where
  "way_free w q \<longleftrightarrow> (\<forall>k < length q. dir_at w (take k q) \<or> lookup w (take k q) = None)"

text \<open>Where \<open>ensure_private_directory\<close> can succeed: a private directory, or a missing name with a free way to it.\<close>

definition can_be_private :: "world \<Rightarrow> names \<Rightarrow> bool" where
  "can_be_private w q \<longleftrightarrow> way_free w q \<and> (private_dir w q \<or> q \<noteq> [] \<and> lookup w q = None)"

lemma make_dirs_ok:
  assumes "quiet_from_now w" "wf_world w" "dir_at w base"
    and "\<forall>k < length ns. 0 < k \<longrightarrow> dir_at w (base @ take k ns) \<or> lookup w (base @ take k ns) = None"
    and "ns \<noteq> []" "lookup w (base @ ns) = None"
  shows "\<exists>w'. make_dirs mode base ns w = (Inr (), w') \<and> inode_at w' (base @ ns) =
    Some \<lparr>in_kind = Directory, in_uid = w_euid w, in_mode = and mode (not (w_umask w))\<rparr>"
  using assms
proof (induction ns arbitrary: base w)
  case (Cons n ns)
  let ?q = "base @ [n]" and ?w = "w\<lparr>w_tick := Suc (w_tick w)\<rparr>"
  let ?new = "fresh_inode Directory mode ?q ?w"
  have mk: "mkdir mode ?q w = (Inr (), ?new)" if "lookup w ?q = None"
    using that Cons.prems(1,3) by (simp add: mkdir_def sys_quiet)
  have old: "i \<noteq> w_next w" if "lookup w p = Some i" for p i
    using Cons.prems(2) that by (auto simp: wf_world_def)
  have new: "inode_at ?new ?q = Some \<lparr>in_kind = Directory, in_uid = w_euid w, in_mode = and mode (not (w_umask w))\<rparr>"
    by (simp add: fresh_inode_def Let_def inode_at_def link_name_def set_inode_def lookup_def)
  have kept: "lookup ?new p = lookup w p" "dir_at w p \<Longrightarrow> dir_at ?new p" if "p \<noteq> ?q" for p
    using that old by (auto simp: fresh_inode_def Let_def dir_at_def inode_at_def bind_eq_Some_conv split: option.splits)
  show ?case
  proof (cases "ns = []")
    case True
    then have "ensure_dir mode ?q w = mkdir mode ?q w" using Cons.prems(6) by (simp add: ensure_dir_def dir_at_def inode_at_def)
    then show ?thesis using True mk new Cons.prems(6) by (auto simp: andthen_def)
  next
    case False
    have step: "dir_at w ?q \<or> lookup w ?q = None" using Cons.prems(4) [rule_format, of 1] False by (cases ns) auto
    have way: "\<forall>k < length ns. 0 < k \<longrightarrow> dir_at w (?q @ take k ns) \<or> lookup w (?q @ take k ns) = None"
    proof (intro allI impI)
      fix k assume "k < length ns" "0 < k"
      then show "dir_at w (?q @ take k ns) \<or> lookup w (?q @ take k ns) = None"
        using Cons.prems(4) [rule_format, of "Suc k"] by simp
    qed
    show ?thesis
    proof (cases "dir_at w ?q")
      case True
      then show ?thesis
        using Cons.IH [OF Cons.prems(1,2) True way False] Cons.prems(6) by (simp add: ensure_dir_def andthen_def)
    next
      case missing: False
      have w1: "quiet_from_now ?new" "wf_world ?new" "dir_at ?new ?q" "w_euid ?new = w_euid w" "w_umask ?new = w_umask w"
        using Cons.prems(1,2) new
        by (auto simp: fresh_inode_def Let_def quiet_from_now_def set_inode_def link_name_def dir_at_def wf_world_def
            lookup_def map_of_filter_key [of "\<lambda>k. k \<noteq> ?q"] less_Suc_eq)
      have "\<forall>k < length ns. 0 < k \<longrightarrow> dir_at ?new (?q @ take k ns) \<or> lookup ?new (?q @ take k ns) = None"
      proof (intro allI impI)
        fix k assume k: "k < length ns" "0 < k"
        then have "?q @ take k ns \<noteq> ?q" by (cases ns) auto
        then show "dir_at ?new (?q @ take k ns) \<or> lookup ?new (?q @ take k ns) = None"
          using way k kept by metis
      qed
      moreover have "lookup ?new (?q @ ns) = None" using kept(1) [of "?q @ ns"] False Cons.prems(6) by simp
      ultimately obtain w' where "make_dirs mode ?q ns ?new = (Inr (), w')" "inode_at w' (?q @ ns) =
          Some \<lparr>in_kind = Directory, in_uid = w_euid w, in_mode = and mode (not (w_umask w))\<rparr>"
        using Cons.IH [OF w1(1-3) _ False] w1(4,5) by auto
      then show ?thesis using missing mk step by (auto simp: ensure_dir_def andthen_def)
    qed
  qed
qed simp

text \<open>What was a directory stays one while only missing names are added, so a success leaves a way of directories.\<close>

lemma dir_at_kept:
  assumes "within S w w'" "sc_inodes S = {}" "q \<notin> sc_names S"
  shows "dir_at w' q = dir_at w q"
  using within_inode_at [OF assms(1,3)] assms(2) by (simp add: dir_at_def)

lemma way_free_kept:
  assumes "within S w w'" "sc_inodes S = {}" "\<forall>k < length q. take k q \<notin> sc_names S" "way_free w q"
  shows "way_free w' q"
  using assms(3,4) dir_at_kept [OF assms(1,2)] withinD(10) [OF assms(1)] by (simp add: way_free_def)

lemma make_dirs_way:
  assumes "wf_world w" "dir_at w base" "make_dirs mode base ns w = (Inr (), w')"
  shows "\<forall>k \<le> length ns. dir_at w' (base @ take k ns)"
  using assms
proof (induction ns arbitrary: base w)
  case (Cons n ns)
  let ?S = "names_only {p. p \<noteq> [] \<and> lookup w p = None}"
  obtain w1 where e: "ensure_dir mode (base @ [n]) w = (Inr (), w1)" and rest: "make_dirs mode (base @ [n]) ns w1 = (Inr (), w')"
    using Cons.prems(3) by (auto simp: andthen_Inr_iff)
  have w1: "within ?S w w1"
    using triple_Inr [OF mkdir_triple [of w "base @ [n]" ?S mode] within_refl [OF Cons.prems(1)]] e Cons.prems(1)
    by (auto simp: ensure_dir_def split: if_splits)
  have "dir_at w1 (base @ [n])"
    using e by (auto simp: ensure_dir_def mkdir_def sys_def Let_def fresh_inode_def dir_at_def inode_at_def
        split: if_splits option.splits)
  note IH = Cons.IH [OF withinD(1) [OF w1] this rest]
  have all: "within ?S w w'"
    by (rule triple_result [OF make_dirs_triple within_refl [OF Cons.prems(1)] Cons.prems(3)]) auto
  have "base \<notin> sc_names ?S" using Cons.prems(2) by (auto simp: dir_at_def inode_at_def)
  then have "dir_at w' base" using dir_at_kept [OF all] Cons.prems(2) by simp
  then show ?case using IH by (auto simp: take_Cons' Suc_le_eq)
qed simp

lemma private_dir_mode_masked: "and (and private_dir_mode (not u)) private_mask = 0"
proof -
  have "and (and private_dir_mode (not u)) private_mask = and (and private_dir_mode private_mask) (not u)"
    by (simp add: and.commute and.left_commute)
  also have "and private_dir_mode private_mask = 0"
    by (simp add: private_dir_mode_def private_mask_def)
  finally show ?thesis by simp
qed

lemma missing_error_free: "way_free w q \<Longrightarrow> missing_error w q = not_found"
  by (auto simp: missing_error_def way_free_def inode_at_def)

lemma ensure_directory_ok:
  assumes "wf_world w" "quiet_from_now w" "p \<noteq> []" "can_be_private w (locate (w_cwd w) p)"
  shows "\<exists>w'. ensure_private_directory p w = (Inr (), w') \<and> way_free w' (locate (w_cwd w) p)"
proof (cases "private_dir w (locate (w_cwd w) p)")
  case True
  let ?w = "w\<lparr>w_tick := Suc (w_tick w)\<rparr>"
  obtain i n where "lookup w (locate (w_cwd w) p) = Some i" "w_inodes w i = Some n"
    using True by (auto simp: private_dir_def inode_at_def bind_eq_Some_conv)
  then have "symlink_metadata p w = (Inr (metadata_of i n), ?w)"
    using symlink_metadata_ok assms(2,3) by blast
  moreover have "private_dir ?w (locate (w_cwd ?w) p)" using True by (simp add: private_dir_def)
  then have "validate_private_directory p ?w = (Inr (), ?w\<lparr>w_tick := Suc (w_tick ?w)\<rparr>)"
    using validate_directory_ok assms(2,3) quiet_next by blast
  ultimately show ?thesis
    using assms(4) by (simp add: ensure_private_directory_def andthen_def attempt_def can_be_private_def way_free_def)
next
  case False
  let ?q = "locate (w_cwd w) p" and ?w = "w\<lparr>w_tick := Suc (w_tick w)\<rparr>"
  have free: "?q \<noteq> []" "lookup w ?q = None" "way_free w ?q" using False assms(4) by (auto simp: can_be_private_def)
  have meta: "symlink_metadata p w = (Inl not_found, ?w)"
    using assms(2,3) free missing_error_free [of ?w ?q] by (simp add: symlink_metadata_def sys_quiet Let_def way_free_def)
  obtain w1 where mk: "make_dirs private_dir_mode [] ?q ?w = (Inr (), w1)"
    and at: "inode_at w1 ?q = Some \<lparr>in_kind = Directory, in_uid = w_euid w, in_mode = and private_dir_mode (not (w_umask w))\<rparr>"
  proof -
    have "\<forall>k < length ?q. 0 < k \<longrightarrow> dir_at ?w ([] @ take k ?q) \<or> lookup ?w ([] @ take k ?q) = None"
      using free(3) by (simp add: way_free_def)
    moreover have "quiet_from_now ?w" "wf_world ?w" "dir_at ?w []" using assms(1,2) by (simp_all add: dir_at_def)
    ultimately show thesis using make_dirs_ok [of ?w "[]" ?q private_dir_mode] free(1,2) that by auto
  qed
  have create: "create_dir_recursive private_dir_mode p ?w = (Inr (), w1)"
    using mk assms(3) by (simp add: create_dir_recursive_def)
  have tk: "within (names_only UNIV) w ?w" by (rule within_tick [OF within_refl [OF assms(1)]])
  have w1: "within (names_only UNIV) w w1"
    using triple_Inr [OF create_dir_triple [of w p "names_only UNIV" private_dir_mode] tk create] by simp
  have "private_dir w1 (locate (w_cwd w1) p)"
    using at withinD(3,4) [OF w1] private_dir_mode_masked by (simp add: private_dir_def)
  then have "validate_private_directory p w1 = (Inr (), w1\<lparr>w_tick := Suc (w_tick w1)\<rparr>)"
    using validate_directory_ok [OF quiet_within [OF w1 assms(2)] assms(3)] by simp
  moreover have "way_free w1 ?q"
    using make_dirs_way [OF _ _ mk] assms(1) by (simp add: way_free_def dir_at_def)
  ultimately show ?thesis
    using meta create by (simp add: way_free_def ensure_private_directory_def andthen_def attempt_def action_err_def not_found_def os_error_def)
qed

lemma prepare_root_ok:
  assumes "wf_world w" "quiet_from_now w" "is_absolute p" "can_be_private w (locate (w_cwd w) p)"
  shows "\<exists>w'. prepare_runtime_root p w = (Inr (canonical_path (locate (w_cwd w) p)), w') \<and> way_free w' (locate (w_cwd w) p)"
proof -
  let ?q = "locate (w_cwd w) p"
  have p: "p \<noteq> []" using assms(3) by (auto simp: is_absolute_def)
  obtain w1 where e: "ensure_private_directory p w = (Inr (), w1)" "way_free w1 ?q"
    using ensure_directory_ok [OF assms(1,2) p assms(4)] by blast
  have w1: "within (names_only UNIV) w w1" and priv: "private_dir w1 ?q"
    using triple_Inr [OF ensure_directory_triple [of w p "names_only UNIV"] within_refl [OF assms(1)] e(1)] by auto
  have "canonicalize p w1 = (Inr (canonical_path ?q), w1\<lparr>w_tick := Suc (w_tick w1)\<rparr>)"
  proof -
    let ?w = "w1\<lparr>w_tick := Suc (w_tick w1)\<rparr>"
    have "private_dir ?w ?q" using priv by (simp add: private_dir_def)
    then have "follow max_links ?w ?q = Some ?q" "inode_at w1 ?q \<noteq> None"
      using follow_private_dir priv by (auto simp: private_dir_def)
    then show ?thesis
      using p withinD(3) [OF w1] unfolding canonicalize_def sys_quiet [OF quiet_within [OF w1 assms(2)]] by simp
  qed
  then show ?thesis using e assms(3) by (simp add: prepare_runtime_root_def andthen_def action_err_def way_free_def)
qed

end
