(* ===== verification/Stream_Delivery.thy ===== *)
theory Stream_Delivery
  imports Stream_Soundness
begin

text \<open>
  What a reader over a good vault gives its user, the converse of \<open>Stream_Soundness\<close>: every read, of any
  size, succeeds, the reads return the contents piece by piece, an empty read means the end, and
  \<open>verify_finished\<close> succeeds from wherever the reads have come to.
\<close>

section \<open>The contract of a reader\<close>

text \<open>
  \<open>delivers A r c\<close>: reads of \<open>r\<close> never fail, return \<open>c\<close> in pieces, and return nothing only at the end (or
  when asked for nothing).  It is what \<open>std::io::Read\<close> promises of a source without errors.
\<close>

coinductive delivers :: "aead \<Rightarrow> vault_reader \<Rightarrow> bytes \<Rightarrow> bool" for A :: aead where
  reads: "(\<forall>n. \<exists>b r' c'. vr_read A n r = (Inr b, r') \<and> c = b @ c' \<and> (b = [] \<longrightarrow> 0 < n \<longrightarrow> c = []) \<and> delivers A r' c') \<Longrightarrow>
     delivers A r c"

section \<open>A reader on its way through a vault\<close>

definition serves :: "aead \<Rightarrow> bytes \<Rightarrow> bytes \<Rightarrow> vault_reader \<Rightarrow> bytes \<Rightarrow> bool" where
  "serves A key seed r c \<longleftrightarrow>
     (if vr_finalized r then c = []
      else reader_at key seed r \<and>
        (\<exists>ps. stream_frames A key seed (vr_sequence r) ps (source_data (vr_inner r)) \<and>
           c = drop (vr_plaintext_offset r) (vr_plaintext r) @ concat ps))"

lemma next_frame_serves:
  assumes "serves A key seed r c" "\<not> vr_finalized r" "length (vr_plaintext r) \<le> vr_plaintext_offset r"
  shows "\<exists>r'. vr_next_frame A r = (Inr (), r') \<and> serves A key seed r' c"
proof -
  from assms(1,2) obtain ps where at: "reader_at key seed r"
    and ps: "stream_frames A key seed (vr_sequence r) ps (source_data (vr_inner r))"
    and c: "c = drop (vr_plaintext_offset r) (vr_plaintext r) @ concat ps"
    by (auto simp: serves_def)
  have plain: "c = concat ps" using c assms(3) by simp
  from stream_frames_first [OF ps] obtain h d p rest ty where
      split: "source_data (vr_inner r) = h @ d @ rest" "ty = data_frame \<or> ty = final_frame"
      "frame_ok A key seed (vr_sequence r) ty h d p" "ty = final_frame \<longrightarrow> rest = []" by blast
  from next_frame_reads [OF at split(1,3,2)] obtain es where es: "plain_source es" "source_data es = rest"
    and run: "vr_next_frame A r = vr_accept_frame ty p ((set_inner es r)\<lparr>vr_sequence := vr_sequence r + 1\<rparr>)" .
  show ?thesis
  proof (cases "ty = final_frame")
    case True
    then have "c = []" using stream_frames_final [of A key seed "vr_sequence r" h d p ps rest] split(1,3) ps plain by simp
    moreover obtain fs where "vr_next_frame A r =
        (Inr (), (set_inner fs ((set_inner es r)\<lparr>vr_sequence := vr_sequence r + 1\<rparr>))\<lparr>vr_finalized := True, vr_plaintext := []\<rparr>)"
      using run True accept_final_frame [of "(set_inner es r)\<lparr>vr_sequence := vr_sequence r + 1\<rparr>" p] es split(4) by auto
    ultimately show ?thesis by (simp add: serves_def)
  next
    case False
    then have ty: "ty = data_frame" using split(2) by simp
    then obtain qs where qs: "ps = p # qs" "stream_frames A key seed (vr_sequence r + 1) qs rest"
      using stream_frames_data [of A key seed "vr_sequence r" h d p ps rest] split(1,3) ps by auto
    then show ?thesis using run ty es at assms(2) plain by (auto simp: serves_def reader_at_def)
  qed
qed

lemma fill_serves:
  assumes "serves A key seed r c"
  shows "\<exists>r'. vr_fill A r = (Inr (), r') \<and> serves A key seed r' c \<and>
    (vr_finalized r' \<or> vr_plaintext_offset r' < length (vr_plaintext r'))"
  using assms
proof (induction A r rule: vr_fill.induct)
  case (1 A r)
  show ?case
  proof (cases "length (vr_plaintext r) \<le> vr_plaintext_offset r \<and> \<not> vr_finalized r")
    case True
    obtain r1 where r1: "vr_next_frame A r = (Inr (), r1)" "serves A key seed r1 c"
      using next_frame_serves [OF "1.prems"] True by blast
    then show ?thesis using "1.IH" [OF True r1(1) [symmetric] refl r1(2)] True by (simp add: vr_fill_step)
  next
    case False
    then show ?thesis using "1.prems" by (intro exI [of _ r]) auto
  qed
qed

lemma read_serves:
  assumes "serves A key seed r c"
  shows "\<exists>b r' c'. vr_read A n r = (Inr b, r') \<and> c = b @ c' \<and> (b = [] \<longrightarrow> 0 < n \<longrightarrow> c = []) \<and> serves A key seed r' c'"
proof (cases "n = 0")
  case False
  obtain r1 where fill: "vr_fill A r = (Inr (), r1)" and sv: "serves A key seed r1 c"
    and full: "vr_finalized r1 \<or> vr_plaintext_offset r1 < length (vr_plaintext r1)"
    using fill_serves [OF assms] by blast
  show ?thesis
  proof (cases "vr_finalized r1")
    case True
    then show ?thesis using False fill sv by (intro exI [of _ "[]"] exI [of _ r1]) (simp add: vr_read_def serves_def)
  next
    case nf: False
    define left where "left = drop (vr_plaintext_offset r1) (vr_plaintext r1)"
    define k where "k = min (length left) n"
    have left: "left \<noteq> []" using full nf by (simp add: left_def)
    from sv nf obtain ps where at: "reader_at key seed r1"
      and ps: "stream_frames A key seed (vr_sequence r1) ps (source_data (vr_inner r1))" and c: "c = left @ concat ps"
      by (auto simp: serves_def left_def)
    let ?r = "r1\<lparr>vr_plaintext_offset := vr_plaintext_offset r1 + k\<rparr>"
    have "vr_read A n r = (Inr (take k left), ?r)" using False fill nf by (simp add: vr_read_def Let_def left_def k_def)
    moreover have "c = take k left @ drop k left @ concat ps" using c by simp
    moreover have "drop k left = drop (vr_plaintext_offset ?r) (vr_plaintext ?r)" by (simp add: left_def add.commute)
    then have "serves A key seed ?r (drop k left @ concat ps)" using nf at ps by (auto simp: serves_def reader_at_def)
    moreover have "take k left \<noteq> []" using left False by (simp add: k_def)
    ultimately show ?thesis by blast
  qed
qed (use assms in \<open>auto simp: vr_read_def\<close>)

lemma serves_delivers:
  assumes "serves A key seed r c"
  shows "delivers A r c"
proof (rule delivers.coinduct [of "serves A key seed", OF assms])
  fix r c assume sv: "serves A key seed r c"
  have "\<exists>b r' c'. vr_read A n r = (Inr b, r') \<and> c = b @ c' \<and> (b = [] \<longrightarrow> 0 < n \<longrightarrow> c = []) \<and>
      (serves A key seed r' c' \<or> delivers A r' c')" for n
    using read_serves [OF sv, of n] by fast
  then show "\<exists>r' c'. r = r' \<and> c = c' \<and> (\<forall>n. \<exists>b r'' c''. vr_read A n r' = (Inr b, r'') \<and> c' = b @ c'' \<and>
      (b = [] \<longrightarrow> 0 < n \<longrightarrow> c' = []) \<and> (serves A key seed r'' c'' \<or> delivers A r'' c''))" by blast
qed

lemma reads_to_serves: "reads_to A r r' \<Longrightarrow> serves A key seed r c \<Longrightarrow> \<exists>c'. serves A key seed r' c'"
proof (induction arbitrary: c rule: reads_to.induct)
  case (step n r b r' r'')
  then show ?case using read_serves [OF step.prems, of n] by auto
qed blast

lemma serves_verifies:
  assumes "serves A key seed r c"
  shows "vr_verify_finished A r = Inr ()"
proof (cases "vr_finalized r")
  case True
  then show ?thesis by (simp add: vr_verify_finished_def vr_copy_finalized)
next
  case False
  have pos: "0 < copy_buffer" by (simp add: copy_buffer_def)
  from assms False obtain ps where "reader_at key seed r"
      "stream_frames A key seed (vr_sequence r) ps (source_data (vr_inner r))" by (auto simp: serves_def)
  then obtain out where "fst (vr_copy A copy_buffer [] r) = Inr out"
    using vr_copy_iff [OF _ False pos] by blast
  then obtain r' where "vr_copy A copy_buffer [] r = (Inr out, r')" by (cases "vr_copy A copy_buffer [] r") simp
  then show ?thesis using vr_copy_finished [OF _ pos] by (simp add: vr_verify_finished_def)
qed

text \<open>A reader opened on a vault of the grammar delivers its contents, and verifies wherever it is left.\<close>

lemma accepted_delivers:
  assumes "plain_source es" "accepts_vault A key ps (source_data es)"
  obtains r where "vault_reader_new A es key = Inr r" "delivers A r (concat ps)"
    "\<And>r'. reads_to A r r' \<Longrightarrow> vr_verify_finished A r' = Inr ()"
proof -
  from assms(2) obtain seed rest where seed: "length seed = nonce_seed_length" "aead_key_ok A key"
      "source_data es = file_header_of seed @ rest" "stream_frames A key seed 0 ps rest"
    by (auto simp: accepts_vault_def)
  from reader_new_ok [OF assms(1) seed(3,1,2)] obtain r where new: "vault_reader_new A es key = Inr r"
    and r: "reader_at key seed r" "vr_sequence r = 0" "vr_plaintext r = []" "vr_plaintext_offset r = 0"
      "\<not> vr_finalized r" "source_data (vr_inner r) = rest" .
  have sv: "serves A key seed r (concat ps)" using r seed(4) by (auto simp: serves_def)
  show thesis
  proof (rule that [OF new serves_delivers [OF sv]])
    fix r' assume "reads_to A r r'"
    then show "vr_verify_finished A r' = Inr ()" using reads_to_serves [OF _ sv] serves_verifies by blast
  qed
qed

end
