(* ===== verification/Store_Progress.thy ===== *)
theory Store_Progress
  imports Store_Properties Host_Progress Stream_Delivery
begin

text \<open>
  That the store lets its user in: on a host without faults to come, the password that opens the
  manifest of a sound profile unlocks it.  The steps of \<open>unlock\<close> succeed one after another, each shown
  by what the one before it has left; the crates that act on the host work there too.
\<close>

section \<open>Crates that work\<close>

text \<open>
  Documented: without faults \<open>try_lock_exclusive\<close> succeeds when there is no contention, and \<open>unlock\<close>
  succeeds; \<open>tempdir_in\<close> creates the directory when its parent is one and nothing is at its name, and
  \<open>TempDir::close\<close> removes a directory that is there.
\<close>

definition locks_work :: "lock_lib \<Rightarrow> bool" where
  "locks_work L \<longleftrightarrow>
     (\<forall>h w. quiet_from_now w \<longrightarrow> w_locks w (fh_ino h) = None \<longrightarrow> (\<exists>w'. try_lock_exclusive L h w = (Inr (), w'))) \<and>
     (\<forall>h w. quiet_from_now w \<longrightarrow> (\<exists>w'. unlock_file L h w = (Inr (), w')))"

definition tempdirs_work :: "tempdir_lib \<Rightarrow> bool" where
  "tempdirs_work D \<longleftrightarrow>
     (\<forall>root name w. wf_world w \<longrightarrow> quiet_from_now w \<longrightarrow> simple_name name \<longrightarrow> dir_at w (locate (w_cwd w) root) \<longrightarrow>
        unused w (locate (w_cwd w) root @ [name]) \<longrightarrow>
        (\<exists>p w'. td_create_in D root name w = (Inr p, w') \<and> dir_at w' (locate (w_cwd w) root @ [name]))) \<and>
     (\<forall>p w. wf_world w \<longrightarrow> quiet_from_now w \<longrightarrow> locate (w_cwd w) p \<noteq> [] \<longrightarrow> dir_at w (locate (w_cwd w) p) \<longrightarrow>
        (\<exists>w'. td_close D p w = (Inr (), w')))"

text \<open>
  An archive that can be restored: over any reader that delivers it, and into any empty directory of a
  host without faults, its entries come without an error and those that are unpacked stay inside.
  The states of the archive on the way satisfy some condition \<open>good\<close>.
\<close>

definition unpacks_on ::
  "'t tar_lib \<Rightarrow> aead \<Rightarrow> path \<Rightarrow> ('t \<Rightarrow> world \<Rightarrow> bool) \<Rightarrow> bool" where
  "unpacks_on T A d good \<longleftrightarrow>
     (\<forall>t w. good t w \<longrightarrow>
        (\<exists>t'. tar_next T A t = (Inr None, t')) \<or>
        (\<exists>e t'. tar_next T A t = (Inr (Some e), t') \<and>
           (if te_type e \<in> {RegularEntry, DirectoryEntry}
            then \<exists>t'' w'. tar_unpack_in T A e d (t', w) = (Inr True, t'', w') \<and> good t'' w'
            else good t' w)))"

definition empty_dir :: "world \<Rightarrow> names \<Rightarrow> bool" where
  "empty_dir w q \<longleftrightarrow> dir_at w q \<and> (\<forall>p. strict_prefix q p \<longrightarrow> lookup w p = None)"

definition archive_restores :: "'t tar_lib \<Rightarrow> bytes \<Rightarrow> bool" where
  "archive_restores T c \<longleftrightarrow>
     (\<forall>A r d w. delivers A r c \<longrightarrow> wf_world w \<longrightarrow> quiet_from_now w \<longrightarrow> empty_dir w (locate (w_cwd w) d) \<longrightarrow>
        (\<exists>good t. tar_entries T A (tar_open T r) = (Inr (), t) \<and> good t w \<and> unpacks_on T A d good))"

section \<open>Taking the lock\<close>

text \<open>A lock file that can be locked: missing in a directory, or a file of the user that nobody has locked.\<close>

definition owned_file :: "world \<Rightarrow> nat \<Rightarrow> bool" where
  "owned_file w i \<longleftrightarrow>
     (\<exists>n b. w_inodes w i = Some n \<and> in_kind n = RegularFile b \<and> (in_uid n = w_euid w \<or> w_euid w = 0))"

definition lock_free :: "world \<Rightarrow> names \<Rightarrow> bool" where
  "lock_free w q \<longleftrightarrow>
     (case lookup w q of
        None \<Rightarrow> q \<noteq> [] \<and> dir_at w (butlast q) \<and> w_locks w (w_next w) = None
      | Some i \<Rightarrow> w_locks w i = None \<and> owned_file w i)"

lemma owned_file_tick [simp]: "owned_file (w\<lparr>w_tick := t\<rparr>) i = owned_file w i"
  by (simp add: owned_file_def)

lemma lock_free_tick [simp]: "lock_free (w\<lparr>w_tick := t\<rparr>) q = lock_free w q"
  by (simp add: lock_free_def split: option.split)

definition lock_ready :: "file_handle \<Rightarrow> world \<Rightarrow> bool" where
  "lock_ready h w \<longleftrightarrow> quiet_from_now w \<and> owned_file w (fh_ino h) \<and> (\<exists>pos. w_fds w (fh_fd h) = Some (fh_ino h, pos))"

lemmas lock_ready_defs = lock_ready_def owned_file_def quiet_from_now_def

lemma open_lock_ok:
  assumes "quiet_from_now w" "lock_free w (locate (w_cwd w) p)"
  shows "\<exists>h w'. open_or_create mode p w = (Inr h, w') \<and> lock_ready h w' \<and> w_locks w' (fh_ino h) = None"
proof (cases "lookup w (locate (w_cwd w) p)")
  case None
  then show ?thesis
    using assms by (auto simp: lock_free_def open_or_create_def sys_quiet Let_def open_fd_def fresh_inode_def
        lock_ready_defs set_inode_def link_name_def)
next
  case (Some i)
  then obtain n b where "w_locks w i = None" "w_inodes w i = Some n" "in_kind n = RegularFile b"
      "in_uid n = w_euid w \<or> w_euid w = 0" using assms(2) by (auto simp: lock_free_def owned_file_def)
  then show ?thesis
    using assms(1) Some by (auto simp: open_or_create_def sys_quiet Let_def open_inode_def open_fd_def lock_ready_defs)
qed

lemma lock_chmod_ok:
  assumes "lock_ready h w"
  shows "\<exists>w'. file_set_permissions h mode w = (Inr (), w') \<and> lock_ready h w' \<and> w_locks w' = w_locks w"
proof -
  have q: "quiet_from_now w" using assms by (simp add: lock_ready_def)
  show ?thesis
    using assms by (auto simp: file_set_permissions_def sys_quiet [OF q] chmod_inode_def lock_ready_defs set_inode_def)
qed

lemma lock_take_ok:
  assumes "locks_documented L" "locks_work L" "lock_ready h w" "w_locks w (fh_ino h) = None"
  shows "\<exists>w'. try_lock_exclusive L h w = (Inr (), w') \<and> lock_ready h w'"
proof -
  obtain w' where run: "try_lock_exclusive L h w = (Inr (), w')"
    using assms(2-4) unfolding locks_work_def lock_ready_def by blast
  from try_lock_cases [OF assms(1) run] have "lock_ready h w'"
    by cases (use assms(3) in \<open>auto simp: lock_ready_defs\<close>)
  then show ?thesis using run by blast
qed

lemma lock_len_ok:
  assumes "lock_ready h w"
  shows "\<exists>w'. file_set_len h n w = (Inr (), w') \<and> lock_ready h w'"
proof -
  have q: "quiet_from_now w" using assms by (simp add: lock_ready_def)
  show ?thesis
    using assms by (auto simp: file_set_len_def sys_quiet [OF q] lock_ready_defs file_bytes_def put_bytes_def set_inode_def)
qed

lemma lock_seek_ok:
  assumes "lock_ready h w"
  shows "\<exists>w'. file_seek_start h n w = (Inr (), w') \<and> lock_ready h w'"
proof -
  have q: "quiet_from_now w" using assms by (simp add: lock_ready_def)
  show ?thesis using assms by (auto simp: file_seek_start_def sys_quiet [OF q] lock_ready_defs)
qed

lemma lock_write_ok:
  assumes "lock_ready h w"
  shows "\<exists>w'. file_write_all h b w = (Inr (), w') \<and> lock_ready h w'"
  using assms
  by (auto simp: file_write_all_def Let_def write_at_def lock_ready_defs file_bytes_def put_bytes_def set_inode_def)

lemma write_buffers_ok:
  "lock_ready h w \<Longrightarrow> \<exists>w'. write_buffers h bs w = (Inr (), w') \<and> lock_ready h w'"
proof (induction bs arbitrary: w)
  case (Cons b bs)
  obtain w1 where "file_write_all h b w = (Inr (), w1)" "lock_ready h w1"
    using lock_write_ok [OF Cons.prems] by blast
  then show ?case using Cons.IH by (simp add: andthen_def)
qed simp

lemma acquire_lock_ok:
  assumes "quiet_from_now w" "locks_documented L" "locks_work L" "lock_free w (locate (w_cwd w) p)"
  shows "\<exists>h w'. acquire_lock L p w = (Inr h, w') \<and> owned_file w' (fh_ino h)"
proof -
  obtain h w1 where 1: "open_or_create private_file_mode p w = (Inr h, w1)" "lock_ready h w1" "w_locks w1 (fh_ino h) = None"
    using open_lock_ok [OF assms(1,4)] by blast
  obtain w2 where 2: "file_set_permissions h private_file_mode w1 = (Inr (), w2)" "lock_ready h w2" "w_locks w2 = w_locks w1"
    using lock_chmod_ok [OF 1(2)] by blast
  obtain w3 where 3: "try_lock_exclusive L h w2 = (Inr (), w3)" "lock_ready h w3"
    using lock_take_ok [OF assms(2,3) 2(2)] 1(3) 2(3) by auto
  obtain w4 where 4: "file_set_len h 0 w3 = (Inr (), w4)" "lock_ready h w4" using lock_len_ok [OF 3(2)] by blast
  obtain w5 where 5: "file_seek_start h 0 w4 = (Inr (), w5)" "lock_ready h w5" using lock_seek_ok [OF 4(2)] by blast
  obtain w6 where 6: "write_buffers h (pid_record (w_pid w5)) w5 = (Inr (), w6)" "lock_ready h w6"
    using write_buffers_ok [OF 5(2)] by blast
  then have "acquire_lock L p w = (Inr h, w6)"
    using 1(1) 2(1) 3(1) 4(1) 5(1) by (simp add: acquire_lock_def andthen_def action_err_def on_failure_def attempt_def)
  then show ?thesis using 6(2) by (auto simp: lock_ready_def)
qed

section \<open>Reading the manifest\<close>

lemma read_manifest_ok:
  assumes "wf_world w" "quiet_from_now w" "manifest_at K w (locate (w_cwd w) d) m"
  shows "\<exists>w'. read_manifest (cr_json K) (cr_uuid K) d w = (Inr m, w')"
proof -
  let ?p = "path_join d manifest_name" and ?w = "w\<lparr>w_tick := Suc (w_tick w)\<rparr>"
  have at: "locate (w_cwd w) ?p = locate (w_cwd w) d @ [manifest_name]" "?p \<noteq> []"
    using locate_join [OF fixed_names_simple(1)] join_simple [OF fixed_names_simple(1)] by auto
  obtain i bs where i: "private_file w (locate (w_cwd w) ?p)" "lookup w (locate (w_cwd w) ?p) = Some i"
      "file_bytes w i = Some bs" "length bs \<le> manifest_size_limit" "mj_from_slice (cr_json K) bs = Inr m"
      "validate_manifest (cr_uuid K) m = Inr ()"
    using assms(3) by (auto simp: manifest_at_def at(1))
  obtain md where v: "validate_private_file ?p w = (Inr md, ?w)" "md_len md = length bs"
    using validate_file_ok [OF assms(2) at(2) i(1-3)] by blast
  obtain h w2 where o: "open_read True ?p ?w = (Inr h, w2)" "fh_ino h = i" "file_bytes w2 i = Some bs"
    using open_read_ok [of ?w ?p i bs] assms(2) i(2,3) by auto
  have w2: "within (names_only {}) w w2"
    using triple_Inr [OF open_read_triple [of "names_only {}" w True ?p] within_tick [OF within_refl [OF assms(1)]] o(1)] by simp
  have "file_take (manifest_size_limit + 1) h w2 = (Inr bs, w2\<lparr>w_tick := Suc (w_tick w2)\<rparr>)"
    using o(2,3) i(4) by (simp add: file_take_def sys_quiet [OF quiet_within [OF w2 assms(2)]])
  then show ?thesis
    using v o(1) i(4-6) by (simp add: read_manifest_def Let_def andthen_def action_err_def ensuring_def attempt_def
        ignore_result_def drop_file_def)
qed

section \<open>Unsealing\<close>

lemma unseal_loop_ok:
  assumes "tar_advances T" "unpacks_on T A d good" "good t w" "tar_left T t < n"
  shows "\<exists>t' w'. unseal_loop n A T d t w = (Inr t', w')"
  using assms(3,4)
proof (induction n arbitrary: t w)
  case (Suc n)
  from assms(2) Suc.prems(1) consider (last) t' where "tar_next T A t = (Inr None, t')"
    | (entry) e t' where "tar_next T A t = (Inr (Some e), t')"
        "if te_type e \<in> {RegularEntry, DirectoryEntry}
         then \<exists>t'' w'. tar_unpack_in T A e d (t', w) = (Inr True, t'', w') \<and> good t'' w' else good t' w"
    unfolding unpacks_on_def by blast
  then show ?case
  proof cases
    case last
    then show ?thesis by simp
  next
    case entry
    then have less: "tar_left T t' < n" using assms(1) Suc.prems(2) by (fastforce simp: tar_advances_def)
    show ?thesis
    proof (cases "te_type e \<in> {RegularEntry, DirectoryEntry}")
      case True
      then obtain t'' w' where un: "tar_unpack_in T A e d (t', w) = (Inr True, t'', w')" "good t'' w'" using entry by auto
      then have "tar_left T t'' \<le> tar_left T t'" using assms(1) by (fastforce simp: tar_advances_def)
      then show ?thesis using Suc.IH [OF un(2)] less un(1) True entry(1) by auto
    next
      case False
      then show ?thesis using Suc.IH [of t' w] less entry by auto
    qed
  qed
qed simp

lemma unseal_archive_ok:
  assumes "tar_advances T" "tar_reads_only T" "archive_restores T c" "delivers A r c"
    and "wf_world w" "quiet_from_now w" "empty_dir w (locate (w_cwd w) d)"
    and "\<And>r'. reads_to A r r' \<Longrightarrow> vr_verify_finished A r' = Inr ()"
  shows "\<exists>w'. unseal_archive A T d r w = (Inr (), w')"
proof -
  obtain good t where e: "tar_entries T A (tar_open T r) = (Inr (), t)" and good: "good t w" "unpacks_on T A d good"
    using assms(3-7) unfolding archive_restores_def by blast
  obtain t' w' where loop: "unseal_loop (Suc (tar_left T t)) A T d t w = (Inr t', w')"
    using unseal_loop_ok [OF assms(1) good(2,1), of "Suc (tar_left T t)"] by blast
  have "reads_to A r (tar_into_inner T t)" using assms(2) e unfolding tar_reads_only_def by metis
  then have "reads_to A r (tar_into_inner T t')" using unseal_loop_reads [OF assms(2) loop] by (rule reads_to_trans)
  then have "vr_verify_finished A (tar_into_inner T t') = Inr ()" by (rule assms(8))
  then show ?thesis using e loop by (simp add: unseal_archive_def unseal_entries_def andthen_def del: unseal_loop.simps)
qed

lemma unseal_directory_ok:
  assumes "tar_advances T" "tar_reads_only T" "wf_world w" "quiet_from_now w" "src \<noteq> []"
    and "private_file w (locate (w_cwd w) src)" "lookup w (locate (w_cwd w) src) = Some i" "file_bytes w i = Some bs"
    and "accepts_vault A key ps bs" "archive_restores T (concat ps)" "empty_dir w (locate (w_cwd w) d)"
  shows "\<exists>w'. unseal_directory A T src d key w = (Inr (), w')"
proof -
  let ?w = "w\<lparr>w_tick := Suc (w_tick w)\<rparr>"
  obtain m where v: "validate_private_file src w = (Inr m, ?w)"
    using validate_file_ok [OF assms(4-8)] by blast
  obtain h w2 where o: "open_read True src ?w = (Inr h, w2)" "fh_ino h = i" "file_bytes w2 i = Some bs"
    using open_read_ok [of ?w src i bs] assms(4,7,8) by auto
  have w2: "within (names_only {}) w w2"
    using triple_Inr [OF open_read_triple [of "names_only {}" w True src] within_tick [OF within_refl [OF assms(3)]] o(1)] by simp
  let ?w3 = "w2\<lparr>w_tick := Suc (w_tick w2)\<rparr>"
  have quiet: "quiet_from_now w2" by (rule quiet_within [OF w2 assms(4)])
  have f: "file_source h w2 = (Inr (bytes_source bs) :: source vault_result, ?w3)"
    using o(2,3) quiet by (simp add: file_source_def quiet_from_now_def Let_def)
  obtain r where r: "vault_reader_new A (bytes_source bs) key = Inr r" "delivers A r (concat ps)"
      "\<And>r'. reads_to A r r' \<Longrightarrow> vr_verify_finished A r' = Inr ()"
    by (rule accepted_delivers [of "bytes_source bs" A key ps]) (use assms(9) in auto)
  have w3: "within (names_only {}) w ?w3" by (rule within_tick [OF w2])
  have "empty_dir ?w3 (locate (w_cwd ?w3) d)"
    using assms(11) withinD(3,10) [OF w3] dir_at_kept [OF w3] by (simp add: empty_dir_def)
  then obtain w4 where "unseal_archive A T d r ?w3 = (Inr (), w4)"
    using unseal_archive_ok [OF assms(1,2,10) r(2) withinD(1) [OF w3] _ _ r(3)] quiet by auto
  then show ?thesis
    using v o(1) f r(1) by (simp add: unseal_directory_def andthen_def action_err_def attempt_def drop_file_def)
qed

section \<open>Opening the runtime directory\<close>

text \<open>The runtime root that was asked for, in the store or in the environment.\<close>

definition explicit_root :: "vault_store \<Rightarrow> world \<Rightarrow> path option" where
  "explicit_root store w =
     (case vs_runtime_root store of Some p \<Rightarrow> Some p | None \<Rightarrow> env_path ''CODEX_VAULT_RUNTIME_DIR'' w)"

lemma choose_explicit:
  "explicit_root store w = Some p \<Longrightarrow> choose_runtime_root store w = prepare_runtime_root p w"
  by (auto simp: explicit_root_def choose_runtime_root_def select_runtime_root_def select_runtime_root_from_def
      split: option.splits)

text \<open>It can be used: absolute, private or free to be made, and with nothing at the name of the profile.\<close>

definition runtime_ready :: "'t crates \<Rightarrow> vault_store \<Rightarrow> user_manifest \<Rightarrow> world \<Rightarrow> bool" where
  "runtime_ready K store m w \<longleftrightarrow>
     (\<exists>p u. explicit_root store w = Some p \<and> uuid_parse (cr_uuid K) (um_id m) = Some u \<and> is_absolute p \<and>
        can_be_private w (locate (w_cwd w) p) \<and>
        unused w (locate (w_cwd w) p @ [uuid_to_string (cr_uuid K) u]))"

text \<open>The place of the runtime directory of a profile.\<close>

definition runtime_at :: "'t crates \<Rightarrow> vault_store \<Rightarrow> user_manifest \<Rightarrow> world \<Rightarrow> names \<Rightarrow> bool" where
  "runtime_at K store m w q \<longleftrightarrow>
     (\<exists>p u. explicit_root store w = Some p \<and> uuid_parse (cr_uuid K) (um_id m) = Some u \<and>
        q = locate (w_cwd w) p @ [uuid_to_string (cr_uuid K) u])"

lemma explicit_root_within: "within S w w' \<Longrightarrow> explicit_root store w' = explicit_root store w"
  using withinD(7) [of S w w'] by (cases "vs_runtime_root store") (simp_all add: explicit_root_def env_path_def)

lemma runtime_at_within: "within S w w' \<Longrightarrow> runtime_at K store m w' q = runtime_at K store m w q"
  using explicit_root_within [of S w w'] withinD(3) [of S w w'] by (simp add: runtime_at_def)

text \<open>It was made: a directory, and no other name has changed but on the way to it.\<close>

definition runtime_made :: "world \<Rightarrow> names \<Rightarrow> world \<Rightarrow> bool" where
  "runtime_made w rt w' \<longleftrightarrow> dir_at w' rt \<and>
     (\<forall>q. \<not> prefix rt q \<longrightarrow> \<not> prefix q (butlast rt) \<longrightarrow> lookup w' q = lookup w q)"

definition crates_work :: "'t crates \<Rightarrow> bool" where
  "crates_work K \<longleftrightarrow>
     crates_documented K \<and> tar_advances (cr_tar K) \<and> locks_work (cr_locks K) \<and> tempdirs_work (cr_tempdir K)"

definition state_sound :: "'t crates \<Rightarrow> world \<Rightarrow> names \<Rightarrow> bytes \<Rightarrow> bool" where
  "state_sound K w q key \<longleftrightarrow> private_file w q \<and>
     (\<exists>i bs ps. lookup w q = Some i \<and> file_bytes w i = Some bs \<and> accepts_vault (cr_aead K) key ps bs \<and>
        archive_restores (cr_tar K) (concat ps))"

lemma state_sound_kept:
  assumes "within S w w'" "q \<notin> sc_names S" "\<forall>i. lookup w q = Some i \<longrightarrow> i \<notin> sc_inodes S" "state_sound K w q key"
  shows "state_sound K w' q key"
proof -
  obtain i where i: "lookup w q = Some i" using assms(4) by (auto simp: state_sound_def)
  then have "i \<notin> sc_inodes S" using assms(3) by blast
  then show ?thesis using private_file_kept [OF assms(1) i assms(2)] assms(4) i by (simp add: state_sound_def)
qed

lemma open_runtime_ok:
  assumes "wf_world w" "quiet_from_now w" "crates_work K" "runtime_ready K store m w"
    and "state_sound K w (locate (w_cwd w) profile @ [state_name]) key"
  shows "\<exists>v w'. open_runtime K store profile m key lock w = (Inr v, w') \<and>
    uv_username v = um_username m \<and> uv_data_key v = key \<and> uv_lock v = lock \<and>
    runtime_at K store m w (locate (w_cwd w) (uv_runtime v)) \<and> runtime_made w (locate (w_cwd w) (uv_runtime v)) w'"
proof -
  have K: "crates_documented K" "tar_advances (cr_tar K)" "tempdirs_work (cr_tempdir K)"
    using assms(3) by (auto simp: crates_work_def)
  note D = crates_documentedD [OF K(1)]
  obtain p u where p: "explicit_root store w = Some p" "uuid_parse (cr_uuid K) (um_id m) = Some u" "is_absolute p"
      "can_be_private w (locate (w_cwd w) p)" "unused w (locate (w_cwd w) p @ [uuid_to_string (cr_uuid K) u])"
    using assms(4) by (auto simp: runtime_ready_def)
  define R where "R = locate (w_cwd w) p"
  define name where "name = uuid_to_string (cr_uuid K) u"
  let ?S = "names_only {q. prefix q R \<and> lookup w q = None}"
  have simple: "simple_name name" unfolding name_def by (rule uuid_parse_simple [OF D(6) p(2)])
  \<comment> \<open>the root\<close>
  obtain w1 where c: "prepare_runtime_root p w = (Inr (canonical_path R), w1)" and way1: "way_free w1 R"
    using prepare_root_ok [OF assms(1,2) p(3,4)] by (auto simp: R_def)
  have w1: "within ?S w w1" "private_dir w1 R"
    using triple_Inr [OF prepare_root_triple [of w p ?S] within_refl [OF assms(1)] c] by (auto simp: R_def missing_on_def)
  have "lookup w1 q = None" if "prefix (R @ [name]) q" for q
  proof -
    have "\<not> prefix q R" using that prefix_length_le [of "R @ [name]" q] prefix_length_le [of q R] by auto
    then show ?thesis using withinD(10) [OF w1(1), of q] p(5) that by (simp add: unused_def R_def name_def)
  qed
  then have new: "unused w1 (R @ [name])" by (simp add: unused_def)
  have quiet1: "quiet_from_now w1" by (rule quiet_within [OF w1(1) assms(2)])
  \<comment> \<open>the directory in it\<close>
  obtain rt w2 where t: "td_create_in (cr_tempdir K) (canonical_path R) name w1 = (Inr rt, w2)" "dir_at w2 (R @ [name])"
    using K(3) withinD(1) [OF w1(1)] quiet1 simple private_dir_dir_at [OF w1(2)] new
    unfolding tempdirs_work_def by (metis locate_canonical)
  let ?D = "names_only {R @ [name]}"
  have "within ?D w1 w2 \<and> (\<forall>p. Inr rt = (Inr p :: io_error + path) \<longrightarrow> p = path_join (canonical_path R) name \<and>
      unused w1 (locate (w_cwd w1) (canonical_path R) @ [name]))"
    by (rule D(7) [unfolded tempdir_documented_def, THEN conjunct1, rule_format, OF simple _ _ t(1)])
       (use withinD(1) [OF w1(1)] in auto)
  then have w2: "within ?D w1 w2" and rt: "rt = path_join (canonical_path R) name" by auto
  have quiet2: "quiet_from_now w2" by (rule quiet_within [OF w2 quiet1])
  \<comment> \<open>the home in that\<close>
  let ?home = "path_join rt codex_home_name"
  have home: "locate (w_cwd w2) ?home = R @ [name, codex_home_name]" "?home \<noteq> []"
    using locate_join [OF fixed_names_simple(3)] join_simple [OF fixed_names_simple(3)] locate_join [OF simple]
    by (auto simp: rt)
  have below: "lookup w2 q = None" if "strict_prefix (R @ [name]) q" for q
    using that withinD(10) [OF w2, of q] new by (auto simp: unused_def strict_prefix_def)
  have "way_free w2 (R @ [name, codex_home_name])"
    unfolding way_free_def
  proof (intro allI impI)
    fix k assume "k < length (R @ [name, codex_home_name])"
    then consider "k < length R" | "k = length R" | "k = Suc (length R)" by fastforce
    then show "dir_at w2 (take k (R @ [name, codex_home_name])) \<or> lookup w2 (take k (R @ [name, codex_home_name])) = None"
    proof cases
      case 1
      then have "take k R \<noteq> R @ [name]" by (metis append_take_drop_id length_append_singleton length_take min.absorb4 not_less_eq less_SucI less_irrefl)
      then show ?thesis using 1 way1 dir_at_kept [OF w2, of "take k R"] withinD(10) [OF w2, of "take k R"] by (auto simp: way_free_def)
    next
      case 2
      then show ?thesis using private_dir_dir_at [OF w1(2)] dir_at_kept [OF w2, of R] by simp
    next
      case 3
      then show ?thesis using t(2) by simp
    qed
  qed
  then have "can_be_private w2 (locate (w_cwd w2) ?home)"
    using below [of "R @ [name, codex_home_name]"] by (simp add: home(1) can_be_private_def strict_prefix_def)
  then obtain w3 where e: "ensure_private_directory ?home w2 = (Inr (), w3)"
    using ensure_directory_ok [OF withinD(1) [OF w2] quiet2 home(2)] by blast
  let ?H = "names_only {q. prefix q (R @ [name, codex_home_name]) \<and> lookup w2 q = None}"
  have w3: "within ?H w2 w3" "private_dir w3 (R @ [name, codex_home_name])"
    using triple_Inr [OF ensure_directory_triple [of w2 ?home ?H] within_refl [OF withinD(1) [OF w2]] e] home
    by (auto simp: missing_on_def)
  have empty: "empty_dir w3 (locate (w_cwd w3) ?home)"
    unfolding empty_dir_def
  proof (intro conjI allI impI)
    show "dir_at w3 (locate (w_cwd w3) ?home)"
      using private_dir_dir_at [OF w3(2)] home(1) withinD(3) [OF w3(1)] by simp
    fix q assume "strict_prefix (locate (w_cwd w3) ?home) q"
    then have q: "strict_prefix (R @ [name, codex_home_name]) q" using home(1) withinD(3) [OF w3(1)] by simp
    then have "\<not> prefix q (R @ [name, codex_home_name])" by (auto simp: strict_prefix_def dest: prefix_order.antisym)
    moreover have "strict_prefix (R @ [name]) q"
      using q prefix_order.le_less_trans [of "R @ [name]" "R @ [name, codex_home_name]" q] by simp
    ultimately show "lookup w3 q = None" using withinD(10) [OF w3(1), of q] below by simp
  qed
  \<comment> \<open>the state\<close>
  let ?q = "locate (w_cwd w) profile @ [state_name]"
  have "lookup w ?q \<noteq> None" using assms(5) by (auto simp: state_sound_def)
  then have s1: "state_sound K w1 ?q key" using state_sound_kept [OF w1(1) _ _ assms(5)] by simp
  then have "lookup w1 ?q \<noteq> None" by (auto simp: state_sound_def)
  then have "?q \<noteq> R @ [name]" using new by (auto simp: unused_def)
  then have s2: "state_sound K w2 ?q key" using state_sound_kept [OF w2 _ _ s1] by simp
  then have "lookup w2 ?q \<noteq> None" by (auto simp: state_sound_def)
  then have "state_sound K w3 ?q key" using state_sound_kept [OF w3(1) _ _ s2] by simp
  then obtain i bs ps where s3: "private_file w3 ?q" "lookup w3 ?q = Some i" "file_bytes w3 i = Some bs"
      "accepts_vault (cr_aead K) key ps bs" "archive_restores (cr_tar K) (concat ps)" by (auto simp: state_sound_def)
  have at: "locate (w_cwd w3) (path_join profile state_name) = ?q" "path_join profile state_name \<noteq> []"
    using locate_join [OF state_name_simple] join_simple [OF state_name_simple] withinD(3) [OF w1(1)]
      withinD(3) [OF w2] withinD(3) [OF w3(1)] by auto
  obtain w4 where un: "unseal_directory (cr_aead K) (cr_tar K) (path_join profile state_name) ?home key w3 = (Inr (), w4)"
    using unseal_directory_ok [OF K(2) D(4) withinD(1) [OF w3(1)] quiet_within [OF w3(1) quiet2] at(2) _ _ s3(3-5) empty]
      s3(1,2) at(1) by auto
  have place: "locate (w_cwd w) rt = R @ [name]" using locate_join [OF simple] by (simp add: rt)
  let ?U = "names_only (below (R @ [name, codex_home_name]))"
  have "locate (w_cwd w3) ?home = R @ [name, codex_home_name]" using home(1) withinD(3) [OF w3(1)] by simp
  then have w4: "within ?U w3 w4"
    using triple_Inr [OF unseal_directory_triple [OF D(3), of w3 ?home ?U] within_refl [OF withinD(1) [OF w3(1)]] un] by simp
  have made: "runtime_made w (R @ [name]) w4"
    unfolding runtime_made_def
  proof (intro conjI allI impI)
    have "\<not> prefix (R @ [name, codex_home_name]) (R @ [name])" by simp
    moreover have "R @ [name] \<notin> sc_names ?H" using t(2) by (cases "lookup w2 (R @ [name])") (auto simp: dir_at_def inode_at_def)
    ultimately show "dir_at w4 (R @ [name])" using t(2) dir_at_kept [OF w3(1)] dir_at_kept [OF w4] by simp
    fix q assume q: "\<not> prefix (R @ [name]) q" "\<not> prefix q (butlast (R @ [name]))"
    have "\<not> prefix q (R @ [name, codex_home_name])" using q prefix_snoc [of q "R @ [name]" codex_home_name] prefix_snoc [of q R name] by auto
    moreover have "\<not> prefix (R @ [name, codex_home_name]) q" using q(1) append_prefixD [of "R @ [name]" "[codex_home_name]" q] by auto
    ultimately show "lookup w4 q = lookup w q"
      using q withinD(10) [OF w4, of q] withinD(10) [OF w3(1), of q] withinD(10) [OF w2, of q] withinD(10) [OF w1(1), of q] by auto
  qed
  have "runtime_at K store m w (R @ [name])" using p(1,2) by (auto simp: runtime_at_def R_def name_def)
  then show ?thesis
    using choose_explicit [OF p(1)] c p(2) t(1) e un made place
    by (simp add: open_runtime_def andthen_def action_err_def on_failure_def attempt_def Let_def name_def [symmetric])
qed

section \<open>Unlocking\<close>

text \<open>What taking the lock leaves of what an unlock needs.\<close>

lemma locked_dir_at:
  assumes "within (lock_scope w q l) w w'" "lock_free w q" "dir_at w p"
  shows "dir_at w' p"
proof (cases "p = []")
  case False
  then obtain i n where i: "lookup w p = Some i" "w_inodes w i = Some n" "in_kind n = Directory"
    using assms(3) by (auto simp: dir_at_def inode_at_def bind_eq_Some_conv split: option.splits)
  have "lookup w q \<noteq> Some i" using assms(2) i(2,3) by (auto simp: lock_free_def owned_file_def)
  moreover have "i < w_next w" using withinD(9) [OF assms(1)] i(1) by (simp add: wf_world_def)
  ultimately have "lookup w' p = Some i" "w_inodes w' i = Some n"
    using withinD(10) [OF assms(1), of p] withinD(11) [OF assms(1), of i] i by auto
  then show ?thesis using i(3) by (simp add: dir_at_def inode_at_def)
qed (simp add: dir_at_def)

lemma locked_private_dir:
  assumes "within (lock_scope w q l) w w'" "lock_free w q" "private_dir w p"
  shows "private_dir w' p"
proof -
  obtain i n where i: "lookup w p = Some i" "w_inodes w i = Some n" "in_kind n = Directory" "in_uid n = w_euid w"
      "and (in_mode n) private_mask = 0"
    using assms(3) by (auto simp: private_dir_def inode_at_def bind_eq_Some_conv)
  have "lookup w q \<noteq> Some i" using assms(2) i(2,3) by (auto simp: lock_free_def owned_file_def)
  then have "inode_at w' p = inode_at w p" using i(1) by (intro within_inode_at [OF assms(1)]) auto
  then show ?thesis using assms(3) withinD(4) [OF assms(1)] by (simp add: private_dir_def)
qed

definition root_apart :: "vault_store \<Rightarrow> world \<Rightarrow> names \<Rightarrow> bool" where
  "root_apart store w q \<longleftrightarrow> (\<forall>p. explicit_root store w = Some p \<longrightarrow> \<not> prefix q (locate (w_cwd w) p))"

lemma runtime_ready_locked:
  assumes "within (lock_scope w (d @ [lock_name]) l) w w'" "lock_free w (d @ [lock_name])" "lookup w d \<noteq> None"
    and "uuid_prints (cr_uuid K)" "root_apart store w (d @ [lock_name])" "runtime_ready K store m w"
  shows "runtime_ready K store m w'"
proof -
  let ?q = "d @ [lock_name]"
  obtain p u where p: "explicit_root store w = Some p" "uuid_parse (cr_uuid K) (um_id m) = Some u" "is_absolute p"
      "can_be_private w (locate (w_cwd w) p)" "unused w (locate (w_cwd w) p @ [uuid_to_string (cr_uuid K) u])"
    using assms(6) by (auto simp: runtime_ready_def)
  define R where "R = locate (w_cwd w) p"
  define name where "name = uuid_to_string (cr_uuid K) u"
  have apart: "\<not> prefix ?q R" using assms(5) p(1) by (simp add: root_apart_def R_def)
  have other: "lookup w' x = lookup w x" if "x \<noteq> ?q" for x using withinD(10) [OF assms(1), of x] that by simp
  have way: "way_free w' R"
    unfolding way_free_def
  proof (intro allI impI)
    fix k assume k: "k < length R"
    have "take k R \<noteq> ?q" using apart take_is_prefix by metis
    then show "dir_at w' (take k R) \<or> lookup w' (take k R) = None"
      using k p(4) other locked_dir_at [OF assms(1,2)] by (auto simp: can_be_private_def way_free_def R_def)
  qed
  have "R \<noteq> ?q" using apart by auto
  then have can: "can_be_private w' R"
    using p(4) way other locked_private_dir [OF assms(1,2)] by (auto simp: can_be_private_def R_def)
  have "length name = 36" using assms(4) p(2) by (auto simp: uuid_prints_def name_def)
  then have "name \<noteq> lock_name" by (auto simp: lock_name_def)
  have unused: "unused w (R @ [name])" using p(5) by (simp add: R_def name_def)
  have "\<not> prefix (R @ [name]) ?q"
  proof
    assume "prefix (R @ [name]) ?q"
    then have "prefix (R @ [name]) d" using \<open>name \<noteq> lock_name\<close> prefix_snoc [of "R @ [name]" d lock_name] by auto
    then show False using unused assms(3) by (auto simp: unused_def)
  qed
  then have "lookup w' x = None" if "prefix (R @ [name]) x" for x
    using that other [of x] unused unfolding unused_def by metis
  then have "unused w' (R @ [name])" by (simp add: unused_def)
  then show ?thesis
    using p(1-3) can explicit_root_within [OF assms(1)] withinD(3) [OF assms(1)]
    by (auto simp: runtime_ready_def R_def name_def)
qed

lemma runtime_ready_read:
  assumes "within (names_only {}) w w'" "runtime_ready K store m w"
  shows "runtime_ready K store m w'"
proof -
  have same: "lookup w' q = lookup w q" "dir_at w' q = dir_at w q" "inode_at w' q = inode_at w q" for q
    using withinD(10) [OF assms(1), of q] dir_at_kept [OF assms(1), of q] within_inode_at [OF assms(1), of q] by auto
  have "can_be_private w' q = can_be_private w q" "unused w' q = unused w q" for q
    using same withinD(4) [OF assms(1)] by (auto simp: can_be_private_def way_free_def private_dir_def unused_def)
  then show ?thesis
    using assms(2) explicit_root_within [OF assms(1)] withinD(3) [OF assms(1)] by (simp add: runtime_ready_def)
qed

text \<open>A profile the password opens: private, unlocked, with a manifest and a state under its key.\<close>

definition profile_sound ::
  "'t crates \<Rightarrow> vault_store \<Rightarrow> string \<Rightarrow> bytes \<Rightarrow> user_manifest \<Rightarrow> bytes \<Rightarrow> world \<Rightarrow> bool" where
  "profile_sound K store username password m key w \<longleftrightarrow>
     (let d = locate (w_cwd w) (user_root store username) in
      is_valid_username username \<and> private_dir w d \<and> lock_free w (d @ [lock_name]) \<and>
      manifest_at K w d m \<and> check_password K username password m = Inr key \<and> state_sound K w (d @ [state_name]) key \<and>
      (lookup w (d @ [lock_name]) \<noteq> None \<longrightarrow>
         lookup w (d @ [lock_name]) \<notin> {lookup w (d @ [manifest_name]), lookup w (d @ [state_name])}))"

lemma locked_profile:
  assumes "lock_held w (d @ [lock_name]) h wb" "manifest_at K w d m" "state_sound K w (d @ [state_name]) key"
    and "lookup w (d @ [lock_name]) \<noteq> None \<longrightarrow>
         lookup w (d @ [lock_name]) \<notin> {lookup w (d @ [manifest_name]), lookup w (d @ [state_name])}"
  shows "manifest_at K wb d m" "state_sound K wb (d @ [state_name]) key"
proof -
  let ?q = "d @ [lock_name]"
  have b: "within (lock_scope w ?q {fh_ino h}) w wb" using assms(1) by (simp add: lock_held_def holds_file_def)
  have names: "d @ [manifest_name] \<noteq> ?q" "d @ [state_name] \<noteq> ?q"
    by (simp_all add: manifest_name_def state_name_def lock_name_def)
  obtain i where i: "lookup w (d @ [manifest_name]) = Some i" using assms(2) by (auto simp: manifest_at_def)
  then have "i \<notin> sc_inodes (lock_scope w ?q {fh_ino h})" using assms(4) by auto
  then show "manifest_at K wb d m"
    using private_file_kept [OF b i] names(1) assms(2) i by (simp add: manifest_at_def)
  obtain j where j: "lookup w (d @ [state_name]) = Some j" using assms(3) by (auto simp: state_sound_def)
  show "state_sound K wb (d @ [state_name]) key"
    by (rule state_sound_kept [OF b _ _ assms(3)]) (use names(2) assms(4) j in auto)
qed

lemma unlock_profile_ok:
  assumes "wf_world w" "quiet_from_now w" "crates_work K" "runtime_ready K store m w"
    and "manifest_at K w (locate (w_cwd w) (user_root store username)) m"
    and "state_sound K w (locate (w_cwd w) (user_root store username) @ [state_name]) key"
    and "check_password K username password m = Inr key"
  shows "\<exists>v w'. unlock_profile K store username password lock w = (Inr v, w') \<and>
    uv_username v = um_username m \<and> uv_data_key v = key \<and> uv_lock v = lock \<and>
    runtime_at K store m w (locate (w_cwd w) (uv_runtime v)) \<and> runtime_made w (locate (w_cwd w) (uv_runtime v)) w'"
proof -
  let ?d = "user_root store username"
  obtain w1 where r: "read_manifest (cr_json K) (cr_uuid K) ?d w = (Inr m, w1)"
    using read_manifest_ok [OF assms(1,2,5)] by blast
  have w1: "within (names_only {}) w w1" using read_manifest_Inr [OF assms(1) r] by blast
  have "state_sound K w1 (locate (w_cwd w1) ?d @ [state_name]) key"
    using state_sound_kept [OF w1 _ _ assms(6)] withinD(3) [OF w1] by simp
  then obtain v w' where "open_runtime K store ?d m key lock w1 = (Inr v, w')" "uv_username v = um_username m" "uv_data_key v = key"
      "uv_lock v = lock" "runtime_at K store m w1 (locate (w_cwd w1) (uv_runtime v))"
      "runtime_made w1 (locate (w_cwd w1) (uv_runtime v)) w'"
    using open_runtime_ok [OF withinD(1) [OF w1] quiet_within [OF w1 assms(2)] assms(3) runtime_ready_read [OF w1 assms(4)]]
    by blast
  moreover have "validate_manifest (cr_uuid K) m = Inr ()" using assms(5) by (simp add: manifest_at_def)
  moreover have "runtime_made w1 q w' \<Longrightarrow> runtime_made w q w'" for q
    using withinD(10) [OF w1] by (simp add: runtime_made_def)
  ultimately show ?thesis
    using r assms(7) withinD(3) [OF w1] by (simp add: runtime_at_within [OF w1] unlock_profile_def andthen_def)
qed

text \<open>The run of an unlock that succeeds, with the lock file it leaves.\<close>

lemma unlock_ok:
  assumes "wf_world w" "quiet_from_now w" "crates_work K" "profile_sound K store username password m key w"
    and "runtime_ready K store m w"
    and "root_apart store w (locate (w_cwd w) (user_root store username) @ [lock_name])"
  shows "\<exists>v w'. unlock K store username password w = (Inr v, w') \<and> uv_username v = um_username m \<and> uv_data_key v = key \<and>
    owned_file w' (fh_ino (uv_lock v)) \<and> runtime_at K store m w (locate (w_cwd w) (uv_runtime v)) \<and>
    dir_at w' (locate (w_cwd w) (uv_runtime v)) \<and>
    (\<forall>q. \<not> prefix (locate (w_cwd w) (uv_runtime v)) q \<longrightarrow> \<not> prefix q (butlast (locate (w_cwd w) (uv_runtime v))) \<longrightarrow>
       q \<noteq> locate (w_cwd w) (user_root store username) @ [lock_name] \<longrightarrow> lookup w' q = lookup w q) \<and>
    (w_next w \<le> fh_ino (uv_lock v) \<or>
       lookup w (locate (w_cwd w) (user_root store username) @ [lock_name]) = Some (fh_ino (uv_lock v)))"
proof -
  let ?d = "locate (w_cwd w) (user_root store username)" and ?w = "w\<lparr>w_tick := Suc (w_tick w)\<rparr>"
  let ?p = "path_join (user_root store username) lock_name"
  note sound = assms(4) [unfolded profile_sound_def Let_def]
  have K: "crates_documented K" "locks_work (cr_locks K)" using assms(3) by (simp_all add: crates_work_def)
  note D = crates_documentedD [OF K(1)]
  have names: "locate (w_cwd ?w) ?p = ?d @ [lock_name]" "user_root store username \<noteq> []"
    using locate_join [OF fixed_names_simple(2)] sound join_simple [OF user_name_parts(1)] by (auto simp: user_root_def)
  have v: "validate_private_directory (user_root store username) w = (Inr (), ?w)"
    using validate_directory_ok [OF assms(2) names(2)] sound by blast
  have free: "lock_free ?w (?d @ [lock_name])" using sound by simp
  obtain h wb where a: "acquire_lock (cr_locks K) ?p ?w = (Inr h, wb)" and owned: "owned_file wb (fh_ino h)"
    using acquire_lock_ok [OF quiet_next [OF assms(2)] D(9) K(2)] free names(1) by metis
  have tk: "within (names_only {}) w ?w" by (rule within_tick [OF within_refl [OF assms(1)]])
  have "lock_held ?w (?d @ [lock_name]) h wb"
    using acquire_lock_run [OF withinD(1) [OF tk] D(9) a names(1) [symmetric]] by simp
  then have held: "lock_held w (?d @ [lock_name]) h wb" by (rule lock_held_earlier [OF tk])
  then have b: "within (lock_scope w (?d @ [lock_name]) {fh_ino h}) w wb" by (simp add: lock_held_def holds_file_def)
  have "lookup w ?d \<noteq> None" using sound by (auto simp: private_dir_def inode_at_def bind_eq_Some_conv)
  then have ready: "runtime_ready K store m wb"
    using runtime_ready_locked [OF b _ _ D(6) assms(6,5)] sound by blast
  note kept = locked_profile [OF held, of K m key]
  obtain v w' where run: "unlock_profile K store username password h wb = (Inr v, w')"
    and post: "uv_username v = um_username m" "uv_data_key v = key" "uv_lock v = h"
      "runtime_at K store m wb (locate (w_cwd wb) (uv_runtime v))"
      "runtime_made wb (locate (w_cwd wb) (uv_runtime v)) w'"
    using unlock_profile_ok [OF withinD(1) [OF b] quiet_within [OF b assms(2)] assms(3) ready, of username key password h]
      kept sound withinD(3) [OF b] by auto
  have w': "within (additions wb) wb w'"
    by (rule keepsD [OF unlock_profile_keeps [OF D(6,7,3)] within_refl [OF withinD(1) [OF b]] run])
  have "fh_ino h < w_next wb" using held withinD(1) [OF b] by (auto simp: lock_held_def wf_world_def)
  then have "owned_file w' (fh_ino h)"
    using owned withinD(11) [OF w', of "fh_ino h"] withinD(4) [OF w'] by (simp add: owned_file_def)
  moreover have "runtime_at K store m w (locate (w_cwd w) (uv_runtime v))"
    using post(4) withinD(3) [OF b] by (simp add: runtime_at_within [OF b])
  moreover have "w_next w \<le> fh_ino h \<or> lookup w (?d @ [lock_name]) = Some (fh_ino h)"
    using held by (simp add: lock_held_def holds_file_def)
  moreover have "dir_at w' (locate (w_cwd w) (uv_runtime v))" using post(5) withinD(3) [OF b] by (simp add: runtime_made_def)
  moreover have "lookup w' q = lookup w q" if "\<not> prefix (locate (w_cwd w) (uv_runtime v)) q"
    "\<not> prefix q (butlast (locate (w_cwd w) (uv_runtime v)))" "q \<noteq> ?d @ [lock_name]" for q
    using that post(5) withinD(3) [OF b] withinD(10) [OF b, of q] by (simp add: runtime_made_def)
  ultimately show ?thesis
    using run post(1-3) v a sound by (simp add: unlock_def validate_username_def andthen_def action_err_def on_failure_def attempt_def)
qed

section \<open>Properties\<close>

text \<open>
  C25: the right password opens the vault.  On a host without faults to come, for a profile that is
  private and not locked, with a valid manifest whose key the password opens and a state file that is
  a vault under that key of an archive that can be restored, and with a runtime root that can be used,
  \<open>unlock\<close> returns a vault with that key, under the user name in the manifest.
\<close>

theorem unlock_succeeds:
  assumes "wf_world w" "quiet_from_now w" "crates_work K" "profile_sound K store username password m key w"
    and "runtime_ready K store m w"
    and "root_apart store w (locate (w_cwd w) (user_root store username) @ [lock_name])"
  shows "\<exists>v w'. unlock K store username password w = (Inr v, w') \<and> uv_username v = um_username m \<and> uv_data_key v = key"
  using unlock_ok [OF assms] by blast

text \<open>The instance: the profile of the examples, whose archive library restores everything.\<close>

lemma demo_restores: "archive_restores demo_tar c"
  unfolding archive_restores_def unpacks_on_def
  by (intro allI impI exI [of _ "\<lambda>_ _. True"]) (simp add: demo_tar_def)

lemma model_tempdir_works: "tempdirs_work model_tempdir"
  unfolding tempdirs_work_def
proof (intro conjI allI impI)
  fix p and w :: world
  assume "quiet_from_now w" "locate (w_cwd w) p \<noteq> []" "dir_at w (locate (w_cwd w) p)"
  then show "\<exists>w'. td_close model_tempdir p w = (Inr (), w')"
    by (auto simp: model_tempdir_def remove_dir_all_def sys_quiet Let_def dir_at_def split: option.splits)
next
  fix root name and w :: world
  let ?q = "locate (w_cwd w) root @ [name]"
  assume w: "quiet_from_now w" "simple_name name" "dir_at w (locate (w_cwd w) root)" "unused w ?q"
  have "dir_empty w ?q" using w(4) by (auto simp: dir_empty_iff unused_def strict_prefix_def)
  moreover have "lookup w ?q = None" using w(4) by (simp add: unused_def)
  ultimately have "td_create_in model_tempdir root name w =
      (Inr (path_join root name), fresh_inode Directory private_dir_mode ?q (w\<lparr>w_tick := Suc (w_tick w)\<rparr>))"
    using w(1,3) by (simp add: model_tempdir_def make_fresh_def mkdir_def sys_quiet andthen_def)
  then show "\<exists>p w'. td_create_in model_tempdir root name w = (Inr p, w') \<and> dir_at w' ?q"
    by (simp add: fresh_inode_def Let_def dir_at_def inode_at_def)
qed

lemma demo_crates_work: "crates_work demo_crates"
proof -
  have "locks_work model_locks" by (simp add: locks_work_def model_locks_def)
  then show ?thesis
    using demo_crates_documented demo_tar_documented(2) model_tempdir_works by (simp add: crates_work_def demo_crates_def)
qed

lemma demo_check: "check_password demo_crates ''alice'' demo_password store_manifest = Inr (replicate 32 0)"
  by code_simp

lemma demo_state_read: "read_vault pad_aead 8 (replicate 32 0) (bytes_source store_state) = Inr []"
  by code_simp

lemma demo_profile_sound:
  "profile_sound demo_crates demo_store ''alice'' demo_password store_manifest (replicate 32 0) profile_world"
proof -
  have d: "locate (w_cwd profile_world) (user_root demo_store ''alice'') = alice" by code_simp
  have names: "lookup profile_world alice = Some 4" "lookup profile_world (alice @ [lock_name]) = None"
    "lookup profile_world (alice @ [manifest_name]) = Some 5" "lookup profile_world (alice @ [state_name]) = Some 6"
    by code_simp+
  have nodes: "w_inodes profile_world 4 = Some demo_dir"
    "w_inodes profile_world 5 = Some \<lparr>in_kind = RegularFile [123, 125, 10], in_uid = 1000, in_mode = 384\<rparr>"
    "w_inodes profile_world 6 = Some \<lparr>in_kind = RegularFile store_state, in_uid = 1000, in_mode = 384\<rparr>"
    "w_euid profile_world = 1000" "w_locks profile_world i = None" for i
    by (simp_all add: profile_world_def demo_world_def)
  have dir: "private_dir profile_world alice"
    by (simp add: private_dir_def inode_at_def names nodes demo_dir_def private_mask_def)
  have "validate_manifest hex_uuid store_manifest = Inr ()" by code_simp
  then have manifest: "manifest_at demo_crates profile_world alice store_manifest"
    by (simp add: manifest_at_def private_file_def inode_at_def file_bytes_def names nodes private_mask_def
        manifest_size_limit_def demo_crates_def one_json_def)
  obtain ps where "accepts_vault pad_aead (replicate 32 0) ps store_state"
    using read_vault_iff [of "bytes_source store_state" 8 pad_aead "replicate 32 0" "[]"] demo_state_read by auto
  then have "state_sound demo_crates profile_world (alice @ [state_name]) (replicate 32 0)"
    using demo_restores by (auto simp: state_sound_def private_file_def inode_at_def file_bytes_def names nodes
        private_mask_def demo_crates_def)
  moreover have "is_valid_username ''alice''" by code_simp
  moreover have "lock_free profile_world (alice @ [lock_name])"
    using private_dir_dir_at [OF dir] by (simp add: lock_free_def names nodes)
  ultimately show ?thesis using dir manifest demo_check names by (simp add: profile_sound_def d)
qed

lemma demo_runtime_ready: "runtime_ready demo_crates demo_store store_manifest profile_world"
proof -
  have at: "explicit_root demo_store profile_world = Some (parse_path ''/run/runtime'')"
    "is_absolute (parse_path ''/run/runtime'')" "locate (w_cwd profile_world) (parse_path ''/run/runtime'') = [''run'', ''runtime'']"
    by code_simp+
  obtain u where u: "uuid_parse (cr_uuid demo_crates) (um_id store_manifest) = Some u"
    by (simp add: demo_crates_def hex_uuid_def store_manifest_def)
  have none: "lookup profile_world q = None" if "prefix [''run'', ''runtime''] q" for q
    using that by (auto simp: profile_world_def lookup_def alice_def prefix_def)
  then have "unused profile_world ([''run'', ''runtime''] @ [x])" for x
    unfolding unused_def using append_prefixD by blast
  moreover have "way_free profile_world [''run'', ''runtime'']"
    unfolding way_free_def
    by (simp add: less_Suc_eq all_conj_distrib dir_at_def inode_at_def lookup_def profile_world_def demo_world_def demo_dir_def alice_def)
  ultimately show ?thesis
    using at u none [of "[''run'', ''runtime'']"] by (simp add: runtime_ready_def can_be_private_def)
qed

theorem unlock_succeeds_witness:
  "\<exists>v w'. unlock demo_crates demo_store ''alice'' demo_password profile_world = (Inr v, w') \<and>
     uv_username v = ''Alice'' \<and> uv_data_key v = replicate 32 0"
proof -
  have quiet: "quiet_from_now profile_world" by (simp add: quiet_from_now_def profile_world_def demo_world_def)
  have at: "explicit_root demo_store profile_world = Some (parse_path ''/run/runtime'')"
    "locate (w_cwd profile_world) (parse_path ''/run/runtime'') = [''run'', ''runtime'']"
    "locate (w_cwd profile_world) (user_root demo_store ''alice'') = alice" by code_simp+
  have "root_apart demo_store profile_world (alice @ [lock_name])" by (simp add: root_apart_def at alice_def)
  from unlock_succeeds [OF profile_world_wf quiet demo_crates_work demo_profile_sound demo_runtime_ready this [folded at(3)]]
  show ?thesis by (simp add: store_manifest_def)
qed

end
