(* ===== verification/Store_Reopening.thy ===== *)
theory Store_Reopening
  imports Store_Progress
begin

text \<open>
  A session from its beginning to the beginning of the next: unlock, let a program work in the runtime
  directory, close, and unlock again.  The profile that \<open>close\<close> leaves is again one the password opens,
  and its state is what the archive builder wrote of the directory.
\<close>

section \<open>What a session leaves in place\<close>














section \<open>The next unlock\<close>




section \<open>Closing\<close>





section \<open>Properties\<close>






end
