(* ===== verification/Store_System.thy ===== *)
theory Store_System
  imports Store_Properties
begin

text \<open>
  The store as a system: its operations in any order, with vaults open at the same time, and others
  working on the files in between.  The invariant is that every open vault holds the lock of the lock
  file in its profile; it follows that no profile is open twice.
\<close>

section \<open>Steps\<close>




section \<open>The invariant\<close>





section \<open>Places of profiles\<close>




section \<open>Adding, listing, rotating\<close>





section \<open>Unlocking\<close>






section \<open>Closing\<close>


section \<open>All reachable states\<close>




section \<open>Properties\<close>



end
