(* ===== verification/Runner.thy ===== *)
theory Runner
  imports Store_Properties
begin

text \<open>
  \<open>src/runner.rs\<close>: running a program in an unlocked vault.  The host's programs (\<open>std::process\<close> starts
  and waits for them) and its signals (the \<open>signal_hook\<close> and \<open>nix\<close> crates) are parameters; what a
  program does to the files is left entirely open.  The lemmas show that a vault that was unlocked is
  closed on every path, as the last thing that happens.
\<close>

section \<open>Programs and signals\<close>

datatype stdio = Inherit | Piped | Null

record command =
  cmd_program :: string
  cmd_args :: "string list"
  cmd_env :: "(string \<times> string) list"
  cmd_stdin :: stdio
  cmd_stdout :: stdio
  cmd_stderr :: stdio

text \<open>\<open>ExitStatus\<close>: the exit code of a program that exited, or the signal that ended it.\<close>

record exit_status =
  es_code :: "i32 option"
  es_signal :: "i32 option"

text \<open>
  \<open>pg_wait child kills\<close> waits for the child, to which the signals of \<open>kills\<close> are sent meanwhile.
\<close>

record 'c programs =
  pg_spawn :: "command \<Rightarrow> 'c os"
  pg_id :: "'c \<Rightarrow> u32"
  pg_kill :: "'c \<Rightarrow> unit os"
  pg_wait :: "'c \<Rightarrow> (i32 \<times> i32) list \<Rightarrow> exit_status os"

text \<open>
  \<open>Signals::new\<close>, the signals its iterator yields until the handle is closed, closing it, and
  \<open>Signal::try_from\<close>.
\<close>

record signals_lib =
  sg_new :: "i32 list \<Rightarrow> unit os"
  sg_forever :: "world \<Rightarrow> i32 list"
  sg_close :: "world \<Rightarrow> world"
  sg_known :: "i32 \<Rightarrow> bool"

text \<open>
  What happens outside the process: files and their names may change in any way, but neither the locks
  this process holds nor the process itself.
\<close>

definition elsewhere :: "world \<Rightarrow> world \<Rightarrow> bool" where
  "elsewhere w w' \<longleftrightarrow> within \<lparr>sc_names = UNIV, sc_inodes = UNIV, sc_locks = {}\<rparr> w w'"

definition programs_documented :: "'c programs \<Rightarrow> bool" where
  "programs_documented P \<longleftrightarrow>
     (\<forall>w. wf_world w \<longrightarrow> (\<forall>c. elsewhere w (snd (pg_spawn P c w))) \<and> (\<forall>c. elsewhere w (snd (pg_kill P c w))) \<and>
        (\<forall>c kills. elsewhere w (snd (pg_wait P c kills w))))"

definition signals_documented :: "signals_lib \<Rightarrow> bool" where
  "signals_documented S \<longleftrightarrow>
     (\<forall>w. wf_world w \<longrightarrow> (\<forall>ss. elsewhere w (snd (sg_new S ss w))) \<and> elsewhere w (sg_close S w))"

section \<open>Operations\<close>

definition sighup :: i32 where "sighup = 1"
definition sigint :: i32 where "sigint = 2"
definition sigterm :: i32 where "sigterm = 15"

record signal_forwarder =
  sf_child :: u32

definition forwarder_start :: "signals_lib \<Rightarrow> u32 \<Rightarrow> signal_forwarder vault_os" where
  "forwarder_start S child_pid =
     andthen (action_err Io (sg_new S [sigint, sigterm, sighup])) (\<lambda>_. ok \<lparr>sf_child = child_pid\<rparr>)"

text \<open>The thread of the forwarder: the \<open>kill\<close> calls it makes for the signals it gets.\<close>

fun forwarder_loop :: "signals_lib \<Rightarrow> u32 \<Rightarrow> i32 list \<Rightarrow> (i32 \<times> i32) list" where
  "forwarder_loop S child_pid [] = []"
| "forwarder_loop S child_pid (s # ss) =
     (if sg_known S s then (scast child_pid, s) # forwarder_loop S child_pid ss
      else forwarder_loop S child_pid ss)"

definition forwarder_kills :: "signals_lib \<Rightarrow> signal_forwarder \<Rightarrow> world \<Rightarrow> (i32 \<times> i32) list" where
  "forwarder_kills S f w = forwarder_loop S (sf_child f) (sg_forever S w)"

definition forwarder_stop :: "signals_lib \<Rightarrow> signal_forwarder \<Rightarrow> unit vault_os" where
  "forwarder_stop S f = (\<lambda>w. (Inr (), sg_close S w))"

definition codex_command :: "unlocked_vault \<Rightarrow> string \<Rightarrow> string list \<Rightarrow> command" where
  "codex_command vault executable arguments =
     \<lparr>cmd_program = executable, cmd_args = arguments,
      cmd_env = [(''CODEX_HOME'', path_display (uv_codex_home vault)), (''CODEX_VAULT_ACTIVE_USER'', uv_username vault)],
      cmd_stdin = Inherit, cmd_stdout = Inherit, cmd_stderr = Inherit\<rparr>"

definition exit_code :: "exit_status \<Rightarrow> i32" where
  "exit_code status =
     (case es_code status of
        Some code \<Rightarrow> code
      | None \<Rightarrow> 128 + (case es_signal status of Some signal \<Rightarrow> signal | None \<Rightarrow> 0))"

text \<open>From the start of the forwarder on; then the launch; then the whole.\<close>

definition supervise ::
  "'t crates \<Rightarrow> 'c programs \<Rightarrow> signals_lib \<Rightarrow> unlocked_vault \<Rightarrow> 'c \<Rightarrow> i32 vault_os" where
  "supervise K P S vault child =
     andthen (attempt (forwarder_start S (pg_id P child)))
       (\<lambda>started. case started of
          Inl error \<Rightarrow>
            andthen (ignore_result (pg_kill P child))
              (\<lambda>_. andthen (ignore_result (pg_wait P child []))
                (\<lambda>_. andthen (vault_close K vault) (\<lambda>_. err error)))
        | Inr forwarder \<Rightarrow>
            andthen (attempt (\<lambda>w. pg_wait P child (forwarder_kills S forwarder w) w))
              (\<lambda>status_result. andthen (forwarder_stop S forwarder)
                (\<lambda>_. andthen (attempt (vault_close K vault))
                  (\<lambda>close_result. andthen (lift_result (map_err Io status_result))
                    (\<lambda>status. andthen (lift_result close_result)
                      (\<lambda>_. ok (exit_code status)))))))"

definition launch ::
  "'t crates \<Rightarrow> 'c programs \<Rightarrow> signals_lib \<Rightarrow> string \<Rightarrow> string list \<Rightarrow> unlocked_vault \<Rightarrow> i32 vault_os" where
  "launch K P S executable arguments vault =
     andthen (attempt (pg_spawn P (codex_command vault executable arguments)))
       (\<lambda>spawned. case spawned of
          Inl error \<Rightarrow> andthen (vault_close K vault) (\<lambda>_. err (Launch (io_message error)))
        | Inr child \<Rightarrow> supervise K P S vault child)"

definition run_program ::
  "'t crates \<Rightarrow> 'c programs \<Rightarrow> signals_lib \<Rightarrow> vault_store \<Rightarrow> string \<Rightarrow> bytes \<Rightarrow> string \<Rightarrow> string list \<Rightarrow> i32 vault_os"
where
  "run_program K P S store username password executable arguments =
     andthen (unlock K store username password) (launch K P S executable arguments)"

definition run_codex ::
  "'t crates \<Rightarrow> 'c programs \<Rightarrow> signals_lib \<Rightarrow> vault_store \<Rightarrow> string \<Rightarrow> bytes \<Rightarrow> string list \<Rightarrow> i32 vault_os" where
  "run_codex K P S store username password arguments = (\<lambda>w.
     let executable = (case w_env w ''CODEX_VAULT_REAL_CODEX'' of Some e \<Rightarrow> e | None \<Rightarrow> ''codex'') in
     run_program K P S store username password executable arguments w)"

section \<open>Closing is the last thing\<close>

text \<open>
  \<open>closed_after\<close>: there was some activity elsewhere and then the vault was closed; a code is returned
  only when the closing had no error, and it is that of a status that was waited for.
\<close>

definition waited_for :: "'c programs \<Rightarrow> exit_status \<Rightarrow> bool" where
  "waited_for P status \<longleftrightarrow> (\<exists>child kills w w'. pg_wait P child kills w = (Inr status, w'))"

definition closed_after :: "'t crates \<Rightarrow> 'c programs \<Rightarrow> unlocked_vault \<Rightarrow> world \<Rightarrow> (vault_error + i32) \<Rightarrow> world \<Rightarrow> bool" where
  "closed_after K P v w r w' \<longleftrightarrow>
     (\<exists>w2 c. elsewhere w w2 \<and> vault_close K v w2 = (c, w') \<and>
        (\<forall>code. r = Inr code \<longrightarrow> c = Inr () \<and> (\<exists>status. waited_for P status \<and> code = exit_code status)))"

lemma elsewhere_trans: "elsewhere w w1 \<Longrightarrow> elsewhere w1 w2 \<Longrightarrow> elsewhere w w2"
  unfolding elsewhere_def by (rule within_trans)

lemma elsewhere_wf: "elsewhere w w' \<Longrightarrow> wf_world w'"
  unfolding elsewhere_def by (rule withinD(1))

lemma elsewhereI: "within S w w' \<Longrightarrow> w_locks w' = w_locks w \<Longrightarrow> elsewhere w w'"
  by (auto simp: elsewhere_def within_def)

lemma elsewhere_locks: "elsewhere w w' \<Longrightarrow> w_locks w' = w_locks w"
  using withinD(12) [of _ w w'] unfolding elsewhere_def by fastforce

lemma programs_elsewhere:
  assumes "programs_documented P" "wf_world w"
  shows "pg_spawn P c w = (x, w') \<Longrightarrow> elsewhere w w'" "pg_kill P d w = (y, w') \<Longrightarrow> elsewhere w w'"
    "pg_wait P d kills w = (z, w') \<Longrightarrow> elsewhere w w'"
  using assms unfolding programs_documented_def by (metis snd_conv)+

lemma signals_elsewhere:
  assumes "signals_documented S" "wf_world w"
  shows "sg_new S ss w = (x, w') \<Longrightarrow> elsewhere w w'" "elsewhere w (sg_close S w)"
  using assms unfolding signals_documented_def by (metis snd_conv)+

lemma closed_after_fail:
  "elsewhere w w2 \<Longrightarrow> andthen (vault_close K v) (\<lambda>_. err e) w2 = (r, w') \<Longrightarrow> closed_after K P v w r w'"
  unfolding closed_after_def by (cases "vault_close K v w2") (auto simp: andthen_def split: sum.splits)

lemma supervise_closes:
  assumes "wf_world w" "programs_documented P" "signals_documented S" "supervise K P S v child w = (r, w')"
  shows "closed_after K P v w r w'"
proof -
  obtain x w1 where n: "sg_new S [sigint, sigterm, sighup] w = (x, w1)" by fastforce
  note 1 = signals_elsewhere(1) [OF assms(3,1) n] and wf1 = elsewhere_wf [OF signals_elsewhere(1) [OF assms(3,1) n]]
  show ?thesis
  proof (cases x)
    case (Inl e)
    obtain y w2 where k: "pg_kill P child w1 = (y, w2)" by fastforce
    note 2 = programs_elsewhere(2) [OF assms(2) wf1 k]
    obtain z w3 where p: "pg_wait P child [] w2 = (z, w3)" by fastforce
    note 3 = programs_elsewhere(3) [OF assms(2) elsewhere_wf [OF 2] p]
    have "andthen (vault_close K v) (\<lambda>_. err (Io e)) w3 = (r, w')"
      using assms(4) n Inl k p
      by (simp add: supervise_def forwarder_start_def andthen_def attempt_apply ignore_result_def action_err_apply map_err_def)
    then show ?thesis by (rule closed_after_fail [OF elsewhere_trans [OF 1 elsewhere_trans [OF 2 3]]])
  next
    case (Inr u)
    let ?kills = "forwarder_kills S \<lparr>sf_child = pg_id P child\<rparr> w1"
    obtain z w2 where p: "pg_wait P child ?kills w1 = (z, w2)" by fastforce
    note 2 = programs_elsewhere(3) [OF assms(2) wf1 p]
    note 3 = signals_elsewhere(2) [OF assms(3) elsewhere_wf [OF 2]]
    obtain c w4 where c: "vault_close K v (sg_close S w2) = (c, w4)" by fastforce
    have "w' = w4" and ok: "\<And>code. r = Inr code \<Longrightarrow> c = Inr () \<and> (\<exists>status. z = Inr status \<and> code = exit_code status)"
      using assms(4) n Inr p c
      by (auto simp: supervise_def forwarder_start_def forwarder_stop_def andthen_def attempt_apply action_err_apply
          map_err_def split: sum.splits)
    moreover have "waited_for P status" if "z = Inr status" for status using p that unfolding waited_for_def by blast
    ultimately show ?thesis
      using elsewhere_trans [OF 1 elsewhere_trans [OF 2 3]] c unfolding closed_after_def by blast
  qed
qed

lemma launch_closes:
  assumes "wf_world w" "programs_documented P" "signals_documented S" "launch K P S executable arguments v w = (r, w')"
  shows "closed_after K P v w r w'"
proof -
  obtain x w1 where s: "pg_spawn P (codex_command v executable arguments) w = (x, w1)" by fastforce
  note 1 = programs_elsewhere(1) [OF assms(2,1) s]
  show ?thesis
  proof (cases x)
    case (Inl e)
    then have "andthen (vault_close K v) (\<lambda>_. err (Launch (io_message e))) w1 = (r, w')"
      using assms(4) s by (simp add: launch_def andthen_def attempt_apply)
    then show ?thesis by (rule closed_after_fail [OF 1])
  next
    case (Inr child)
    then have "supervise K P S v child w1 = (r, w')" using assms(4) s by (simp add: launch_def andthen_def attempt_apply)
    from supervise_closes [OF elsewhere_wf [OF 1] assms(2,3) this] show ?thesis
      using elsewhere_trans [OF 1] unfolding closed_after_def by blast
  qed
qed

section \<open>The end of a session\<close>

text \<open>
  A vault is unlocked, things happen elsewhere, and it is closed: then the locks are those of before,
  and if the closing returned \<open>Ok\<close> the state file is sealed anew and the runtime directory is gone.
\<close>

lemma session_end:
  assumes "wf_world w" "crates_documented K" "unlock K store username password w = (Inr v, w1)"
    and "elsewhere w1 w2" "vault_close K v w2 = (c, w')"
  defines "d \<equiv> locate (w_cwd w) (user_root store username)"
  shows "elsewhere w w'"
    "c = Inr () \<Longrightarrow> unused w' (locate (w_cwd w) (uv_runtime v)) \<and>
       (\<exists>i bs. lookup w' (d @ [state_name]) = Some i \<and> file_bytes w' i = Some bs \<and>
          sealed_bytes (cr_aead K) (cr_tar K) (uv_codex_home v) (uv_data_key v) bs)"
proof -
  let ?h = "uv_lock v"
  note session = unlock_session [OF assms(1-3) refl, folded d_def]
  have e: "within \<lparr>sc_names = UNIV, sc_inodes = UNIV, sc_locks = {}\<rparr> w1 w2"
    using assms(4) by (simp add: elsewhere_def)
  have locks2: "w_locks w2 i = w_locks w1 i" for i using withinD(12) [OF e, of i] by simp
  have cwd: "w_cwd w2 = w_cwd w" using withinD(3) [OF e] session(3) by simp
  have d: "d = locate (w_cwd w2) (user_root store username)" by (simp add: d_def cwd)
  note close = vault_close_run [OF withinD(1) [OF e] assms(2,5) session(8) d, unfolded locks2 cwd, OF session(6,11)]
  have not_own: "w_locks w i \<noteq> Some (fh_fd ?h)" for i
    using assms(1) session(12) by (force simp: wf_world_def)
  have "w_locks w' = w_locks w"
  proof
    fix i
    show "w_locks w' i = w_locks w i"
    proof (cases "i = fh_ino ?h")
      case True
      then show ?thesis using close(2) session(7) by simp
    next
      case False
      then have "w_locks w1 i = w_locks w i" using withinD(12) [OF session(4), of i] by simp
      then show ?thesis using withinD(12) [OF close(1), of i] not_own locks2 by simp
    qed
  qed
  then show "elsewhere w w'"
    by (rule elsewhereI [of "\<lparr>sc_names = UNIV, sc_inodes = UNIV, sc_locks = UNIV\<rparr>", rotated])
       (intro within_trans [OF within_mono [OF session(4)] within_trans [OF within_mono [OF e] within_mono [OF close(1)]]]; simp)
  show "c = Inr () \<Longrightarrow> unused w' (locate (w_cwd w) (uv_runtime v)) \<and>
       (\<exists>i bs. lookup w' (d @ [state_name]) = Some i \<and> file_bytes w' i = Some bs \<and>
          sealed_bytes (cr_aead K) (cr_tar K) (uv_codex_home v) (uv_data_key v) bs)"
    using close(3) unfolding sealed_at_def by blast
qed

lemma run_program_cases:
  assumes "wf_world w" "crates_documented K" "programs_documented P" "signals_documented S"
    and "run_program K P S store username password executable arguments w = (r, w')"
  obtains (refused) e where "unlock K store username password w = (Inl e, w')" "r = Inl e"
  | (ran) v w1 where "unlock K store username password w = (Inr v, w1)" "closed_after K P v w1 r w'"
proof -
  obtain x w1 where u: "unlock K store username password w = (x, w1)" by fastforce
  show thesis
  proof (cases x)
    case (Inl e)
    then show ?thesis using refused [of e] u assms(5) by (auto simp: run_program_def andthen_def)
  next
    case (Inr v)
    note run = u [unfolded Inr]
    have "launch K P S executable arguments v w1 = (r, w')" using run assms(5) by (simp add: run_program_def andthen_def)
    from launch_closes [OF unlock_session(2) [OF assms(1,2) run refl] assms(3,4) this] show ?thesis
      using ran run by blast
  qed
qed

lemma unlock_failed_elsewhere:
  assumes "wf_world w" "crates_documented K" "unlock K store username password w = (Inl e, w')"
  shows "elsewhere w w'"
proof -
  from unlock_run [OF assms refl]
  have s: "within (session_scope w (locate (w_cwd w) (user_root store username) @ [lock_name]) {}) w w'" by simp
  then show ?thesis using withinD(12) [OF s] by (intro elsewhereI) auto
qed

lemma run_program_elsewhere:
  assumes "wf_world w" "crates_documented K" "programs_documented P" "signals_documented S"
    and "run_program K P S store username password executable arguments w = (r, w')"
  shows "elsewhere w w'"
  using assms
proof (cases rule: run_program_cases)
  case (refused e)
  then show ?thesis using unlock_failed_elsewhere [OF assms(1,2)] by blast
next
  case (ran v w1)
  then obtain w2 c where "elsewhere w1 w2" "vault_close K v w2 = (c, w')" by (auto simp: closed_after_def)
  then show ?thesis using session_end [OF assms(1,2) ran(1)] by blast
qed

section \<open>Properties\<close>

text \<open>
  C34: the runner always closes.  Whatever the program is and does to the files, whether it can be
  started, whether the signal handlers can be installed, however it ends, and whatever fails in
  closing: when \<open>run_program\<close> returns, the locks are those of before.  It returns an exit code only when
  the program was waited for and the vault closed without an error; then nothing of the runtime
  directory is left and the state file is the encoding, under the data key, of what the archive
  builder wrote for the vault's directory.
\<close>

theorem runner_always_closes:
  assumes "wf_world w" "crates_documented K" "programs_documented P" "signals_documented S"
    and "run_program K P S store username password executable arguments w = (r, w')"
    and "d = locate (w_cwd w) (user_root store username)"
  shows "w_locks w' = w_locks w \<and>
    (\<forall>code. r = Inr code \<longrightarrow>
       (\<exists>v w1 status i bs. unlock K store username password w = (Inr v, w1) \<and>
          waited_for P status \<and> code = exit_code status \<and> unused w' (locate (w_cwd w) (uv_runtime v)) \<and>
          lookup w' (d @ [state_name]) = Some i \<and> file_bytes w' i = Some bs \<and>
          sealed_bytes (cr_aead K) (cr_tar K) (uv_codex_home v) (uv_data_key v) bs))"
  using assms(1-5)
proof (cases rule: run_program_cases)
  case (refused e)
  then show ?thesis using elsewhere_locks [OF unlock_failed_elsewhere [OF assms(1,2)]] by blast
next
  case (ran v w1)
  then obtain w2 c where c: "elsewhere w1 w2" "vault_close K v w2 = (c, w')"
    and ok: "\<And>code. r = Inr code \<Longrightarrow> c = Inr () \<and> (\<exists>status. waited_for P status \<and> code = exit_code status)"
    by (auto simp: closed_after_def)
  note fin = session_end [OF assms(1,2) ran(1) c, folded assms(6)]
  show ?thesis using elsewhere_locks [OF fin(1)] fin(2) ok ran(1) by blast
qed

definition demo_programs :: "unit programs" where
  "demo_programs =
     \<lparr>pg_spawn = (\<lambda>c w. (Inr (), w)), pg_id = (\<lambda>_. 77), pg_kill = (\<lambda>_ w. (Inr (), w)),
      pg_wait = (\<lambda>_ kills w. (Inr \<lparr>es_code = None, es_signal = Some 15\<rparr>, w))\<rparr>"

definition demo_signals :: signals_lib where
  "demo_signals =
     \<lparr>sg_new = (\<lambda>_ w. (Inr (), w)), sg_forever = (\<lambda>_. [15]), sg_close = (\<lambda>w. w), sg_known = (\<lambda>_. True)\<rparr>"

lemma demo_host_documented: "programs_documented demo_programs" "signals_documented demo_signals"
  by (simp_all add: programs_documented_def demo_programs_def signals_documented_def demo_signals_def elsewhere_def)

theorem runner_always_closes_witness:
  "\<exists>v w1. unlock demo_crates demo_store ''alice'' demo_password profile_world = (Inr v, w1) \<and>
     w_locks w1 \<noteq> w_locks profile_world \<and>
     w_locks (snd (run_program demo_crates demo_programs demo_signals demo_store ''alice'' demo_password ''codex'' []
       profile_world)) = w_locks profile_world"
proof -
  obtain v w1 where run: "unlock demo_crates demo_store ''alice'' demo_password profile_world = (Inr v, w1)"
    by (rule fst_Inr_obtain [OF demo_unlock_ok])
  note session = unlock_session [OF profile_world_wf demo_crates_documented run refl]
  have "w_locks w1 \<noteq> w_locks profile_world" using session(6,7) by auto
  then show ?thesis
    using run runner_always_closes [OF profile_world_wf demo_crates_documented demo_host_documented
        prod.collapse [symmetric] refl, of demo_store "''alice''" demo_password "''codex''" "[]"]
    by blast
qed

end
