(* ===== verification/Host_Sockets.thy ===== *)
theory Host_Sockets
  imports Config_Paths
begin

text \<open>
  Unix domain sockets as \<open>std::os::unix::net\<close> shows them: binding a listener, connecting to a path, and
  dropping the listener, which leaves its name behind.  The lemmas show what each call may change.
\<close>

section \<open>Calls\<close>

record listener =
  ls_inode :: nat

definition address_in_use :: io_error where
  "address_in_use = os_error OtherKind ''Address already in use (os error 98)''"

definition connection_refused :: io_error where
  "connection_refused = os_error ConnectionRefused ''Connection refused (os error 111)''"

definition sun_path_length :: nat where "sun_path_length = 108"

text \<open>\<open>UnixListener::bind\<close>: \<open>socket\<close>, \<open>bind\<close>, which makes the name, and \<open>listen\<close>.\<close>

definition bind_name :: "path \<Rightarrow> nat os" where
  "bind_name p = sys (\<lambda>w.
     let q = locate (w_cwd w) p in
     if lookup w q \<noteq> None then (Inl address_in_use, w)
     else if q = [] \<or> \<not> dir_at w (butlast q) then (Inl (missing_error w q), w)
     else (Inr (w_next w), fresh_inode SocketFile 511 q w))"

definition listen :: "nat \<Rightarrow> unit os" where
  "listen i = sys (\<lambda>w. (Inr (), w\<lparr>w_listening := (w_listening w)(i := True)\<rparr>))"

definition unix_bind :: "path \<Rightarrow> listener os" where
  "unix_bind p =
     andthen (sys (ok ()))
       (\<lambda>_. if length (path_display p) \<ge> sun_path_length
            then err (os_error InvalidInput ''path must be shorter than SUN_LEN'')
            else andthen (bind_name p) (\<lambda>i. andthen (listen i) (\<lambda>_. ok \<lparr>ls_inode = i\<rparr>)))"

text \<open>\<open>UnixStream::connect\<close>, as far as its result goes.\<close>

definition unix_connect :: "path \<Rightarrow> unit os" where
  "unix_connect p =
     andthen (sys (ok ()))
       (\<lambda>_. if length (path_display p) \<ge> sun_path_length
            then err (os_error InvalidInput ''path must be shorter than SUN_LEN'')
            else sys (\<lambda>w.
              case follow max_links w (locate (w_cwd w) p) of
                None \<Rightarrow> (Inl too_many_links, w)
              | Some q \<Rightarrow>
                  (case lookup w q of
                     None \<Rightarrow> (Inl (missing_error w q), w)
                   | Some i \<Rightarrow>
                       (case w_inodes w i of
                          None \<Rightarrow> (Inl (missing_error w q), w)
                        | Some n \<Rightarrow>
                            if in_kind n = SocketFile \<and> w_listening w i then (Inr (), w)
                            else (Inl connection_refused, w)))))"

text \<open>Dropping the listener closes it.\<close>

definition drop_listener :: "listener \<Rightarrow> (world, 'e, unit) action" where
  "drop_listener l = (\<lambda>w. (Inr (), w\<lparr>w_listening := (w_listening w)(ls_inode l := False)\<rparr>))"

section \<open>What they keep\<close>

lemma within_listening [simp]: "within S w0 (w\<lparr>w_listening := f\<rparr>) = within S w0 w"
  by (simp add: within_def wf_world_def same_process_def)

lemma listening_keeps [keeps_rules]:
  "keeps (within S w0) (listen i)" "keeps (within S w0) (drop_listener l)"
proof -
  show "keeps (within S w0) (listen i)"
    unfolding listen_def by (rule keepsI, rule triple_sys [OF triple_fun]) auto
  show "keeps (within S w0) (drop_listener l)" by (rule keeps_fun) (auto simp: drop_listener_def)
qed

lemma unix_connect_keeps [keeps_rules]:
  assumes "tick_closed P"
  shows "keeps P (unix_connect p)"
proof -
  have "keeps P (sys (\<lambda>w.
              case follow max_links w (locate (w_cwd w) p) of
                None \<Rightarrow> (Inl too_many_links, w)
              | Some q \<Rightarrow>
                  (case lookup w q of
                     None \<Rightarrow> (Inl (missing_error w q), w)
                   | Some i \<Rightarrow>
                       (case w_inodes w i of
                          None \<Rightarrow> (Inl (missing_error w q), w)
                        | Some n \<Rightarrow>
                            if in_kind n = SocketFile \<and> w_listening w i then (Inr (), w)
                            else (Inl connection_refused, w)))))"
    by (rule keepsI, rule triple_sys [OF triple_fun assms]) (auto split: option.split)
  moreover have "keeps P (sys (ok ()))"
    by (rule keepsI, rule triple_sys [OF triple_fun assms]) auto
  ultimately show ?thesis unfolding unix_connect_def by (intro keeps_andthen keeps_if keeps_rules)
qed

end
