(* ===== verification/Daemon.thy ===== *)
theory Daemon
  imports Host_Sockets Daemon_Protocol
begin

text \<open>
  \<open>src/daemon.rs\<close> for a Linux target: the status daemon and its client.  A connection is what the host
  gives for it: the results of the calls on the stream, the script of its reads, and a sink for its
  writes.  What other processes do to the files between the turns of the daemon is part of a turn.
\<close>

section \<open>Configuration\<close>

record daemon_config =
  dc_socket_path :: path
  dc_allowed_uid :: u32

definition socket_environment_variable :: string where
  "socket_environment_variable = ''CODEX_VAULT_SOCKET''"

definition socket_name :: string where "socket_name = ''control.sock''"

definition default_daemon_socket :: "path vault_os" where
  "default_daemon_socket = (\<lambda>w.
     case env_path socket_environment_variable w of
       Some p \<Rightarrow>
         if \<not> is_absolute p
         then (Inl (InvalidConfiguration (socket_environment_variable @ '' must be an absolute path'')), w)
         else (Inr p, w)
     | None \<Rightarrow>
         (case env_path ''XDG_RUNTIME_DIR'' w of
            Some runtime \<Rightarrow>
              if \<not> is_absolute runtime
              then (Inl (InvalidConfiguration ''XDG_RUNTIME_DIR must be an absolute path''), w)
              else (Inr (path_join (path_join runtime app_name) socket_name), w)
          | None \<Rightarrow>
              (let run_user = parse_path (''/run/user/'' @ show_nat (unat (w_euid w))) in
               andthen (is_dir run_user)
                 (\<lambda>there. if there then ok (path_join (path_join run_user app_name) socket_name)
                         else (\<lambda>w. (Inr (path_join (path_join (temp_dir w) (uid_name w)) socket_name), w))) w)))"

definition for_current_user :: "path option \<Rightarrow> daemon_config vault_os" where
  "for_current_user socket_path =
     andthen (case socket_path of None \<Rightarrow> default_daemon_socket | Some p \<Rightarrow> ok p)
       (\<lambda>p w. (Inr \<lparr>dc_socket_path = p, dc_allowed_uid = w_euid w\<rparr>, w))"

section \<open>The socket\<close>

definition remove_stale_socket :: "path \<Rightarrow> unit vault_os" where
  "remove_stale_socket p =
     andthen (attempt (symlink_metadata p))
       (\<lambda>r. case r of
          Inl e \<Rightarrow> if io_kind e = NotFound then ok () else err (Io e)
        | Inr metadata \<Rightarrow> (\<lambda>w.
            if md_type metadata \<noteq> IsSocket \<or> md_uid metadata \<noteq> w_euid w
            then (Inl (InvalidConfiguration
                   ''daemon socket path exists and is not a socket owned by the current UID''), w)
            else andthen (attempt (unix_connect p))
              (\<lambda>c. case c of
                 Inr _ \<Rightarrow> err DaemonAlreadyRunning
               | Inl e \<Rightarrow>
                   if io_kind e = ConnectionRefused \<or> io_kind e = NotFound
                   then action_err Io (remove_file p) else err (Io e)) w))"

text \<open>The model's host has one file system, and so one device.\<close>

definition host_device :: nat where "host_device = 0"

record socket_guard =
  gd_path :: path
  gd_device :: nat
  gd_inode :: nat

definition guard_drop :: "socket_guard \<Rightarrow> unit vault_os" where
  "guard_drop g =
     andthen (attempt (symlink_metadata (gd_path g)))
       (\<lambda>r. case r of
          Inl _ \<Rightarrow> ok ()
        | Inr metadata \<Rightarrow>
            if md_type metadata = IsSocket \<and> host_device = gd_device g \<and> md_ino metadata = gd_inode g
            then ignore_result (remove_file (gd_path g)) else ok ())"

definition socket_mode :: u32 where "socket_mode = 384"

definition secure_socket :: "path \<Rightarrow> unit vault_os" where
  "secure_socket p =
     andthen (action_err Io (set_permissions p socket_mode))
       (\<lambda>_. andthen (action_err Io (symlink_metadata p))
         (\<lambda>metadata w.
            if md_type metadata \<noteq> IsSocket \<or> md_uid metadata \<noteq> w_euid w \<or> and (md_mode metadata) private_mask \<noteq> 0
            then (Inl (InvalidConfiguration ''daemon socket has unsafe ownership or permissions''), w)
            else (Inr (), w)))"

definition release_socket :: "listener \<Rightarrow> socket_guard \<Rightarrow> unit vault_os" where
  "release_socket l g = andthen (guard_drop g) (\<lambda>_. drop_listener l)"

definition guarded_bind :: "path \<Rightarrow> (listener \<times> socket_guard) vault_os" where
  "guarded_bind p =
     andthen (action_err Io (unix_bind p))
       (\<lambda>l. andthen (attempt (symlink_metadata p))
         (\<lambda>r. case r of
            Inl e \<Rightarrow> andthen (ignore_result (remove_file p)) (\<lambda>_. andthen (drop_listener l) (\<lambda>_. err (Io e)))
          | Inr metadata \<Rightarrow>
              (let g = \<lparr>gd_path = p, gd_device = host_device, gd_inode = md_ino metadata\<rparr> in
               andthen (on_failure (secure_socket p) (release_socket l g)) (\<lambda>_. ok (l, g)))))"

definition bind_listener :: "daemon_config \<Rightarrow> (listener \<times> socket_guard) vault_os" where
  "bind_listener config =
     (let p = dc_socket_path config in
      if \<not> is_absolute p then err (InvalidConfiguration ''daemon socket path must be absolute'')
      else (case path_parent p of
              None \<Rightarrow> err (InvalidConfiguration ''daemon socket path has no parent directory'')
            | Some parent \<Rightarrow>
                andthen (ensure_private_directory parent)
                  (\<lambda>_. andthen (remove_stale_socket p) (\<lambda>_. guarded_bind p))))"

section \<open>A connection\<close>

text \<open>The handle to write to, and what the calls on the stream return.\<close>

record 'h stream =
  st_handle :: 'h
  st_read_timeout :: "unit io_result"
  st_write_timeout :: "unit io_result"
  st_credentials :: "string + peer_identity"

definition on_input :: "(source, 'e, 'a) action \<Rightarrow> (source \<times> 's, 'e, 'a) action" where
  "on_input m = (\<lambda>(src, s). case m src of (r, src') \<Rightarrow> (r, (src', s)))"

definition on_output :: "('s, 'e, 'a) action \<Rightarrow> (source \<times> 's, 'e, 'a) action" where
  "on_output m = (\<lambda>(src, s). case m s of (r, s') \<Rightarrow> (r, (src, s')))"

definition cargo_pkg_version :: string where "cargo_pkg_version = ''0.2.0-alpha.1''"

text \<open>The codecs and the sink operations of a connection, and the UID of the daemon.\<close>

record ('h, 's) wire =
  wr_request :: "daemon_request json_codec"
  wr_response :: "daemon_response json_codec"
  wr_ops :: "('h, 's) write_ops"

definition respond ::
  "('h, 's) wire \<Rightarrow> 'h stream \<Rightarrow> daemon_response \<Rightarrow> (source \<times> 's, vault_error, unit) action" where
  "respond N st response = on_output (write_message (wr_response N) (wr_ops N) (st_handle st) response)"

definition peer_rejection :: daemon_response where
  "peer_rejection = ErrorResponse protocol_version PeerRejectedCode ''kernel-authenticated peer UID is not allowed''"

definition version_rejection :: "u16 \<Rightarrow> daemon_response" where
  "version_rejection v = ErrorResponse protocol_version UnsupportedProtocol
     (''client protocol version '' @ show_nat (unat v) @ '' is unsupported; expected '' @ show_nat (unat protocol_version))"

definition status_answer :: "u32 \<Rightarrow> peer_identity \<Rightarrow> daemon_response" where
  "status_answer euid peer = StatusResponse
     \<lparr>ds_protocol_version = protocol_version, ds_daemon_version = cargo_pkg_version, ds_daemon_uid = euid,
      ds_peer = peer, ds_capabilities = alpha_status_only\<rparr>"

definition answer_request :: "u32 \<Rightarrow> peer_identity \<Rightarrow> daemon_request \<Rightarrow> daemon_response" where
  "answer_request euid peer request =
     (case request of StatusRequest v \<Rightarrow> if v = protocol_version then status_answer euid peer else version_rejection v)"

definition handle_connection ::
  "('h, 's) wire \<Rightarrow> u32 \<Rightarrow> u32 \<Rightarrow> 'h stream \<Rightarrow> (source \<times> 's, vault_error, unit) action" where
  "handle_connection N euid allowed_uid st =
     andthen (lift_result (map_err Io (st_read_timeout st)))
       (\<lambda>_. andthen (lift_result (map_err Io (st_write_timeout st)))
         (\<lambda>_. andthen (lift_result (map_err
                  (\<lambda>e. Protocol (''failed to read kernel peer credentials: '' @ e)) (st_credentials st)))
           (\<lambda>peer.
              if peer_uid peer \<noteq> allowed_uid
              then andthen (respond N st peer_rejection) (\<lambda>_. err (PeerRejected (peer_uid peer)))
              else andthen (on_input (read_message (wr_request N)))
                (\<lambda>request. respond N st (answer_request euid peer request)))))"

section \<open>Serving\<close>

text \<open>
  A turn of the accept loop: what others did to the files before it, whether a signal has set the stop
  flag, and what \<open>accept\<close> returns.
\<close>

record ('h, 's) turn =
  tn_outside :: "world \<Rightarrow> world"
  tn_stop :: bool
  tn_accept :: "io_error + 'h stream \<times> source \<times> 's"

text \<open>
  The loop over a script of turns; no value when the script ends before the loop does.  With it the
  connections as they were left, and the errors that were logged.
\<close>

type_synonym 's served = "(vault_error + unit) \<times> source \<times> 's"

fun serve_loop ::
  "('h, 's) wire \<Rightarrow> u32 \<Rightarrow> ('h, 's) turn list \<Rightarrow> world \<Rightarrow> (vault_error + unit) option \<times> 's served list \<times> world" where
  "serve_loop N allowed_uid [] w = (None, [], w)"
| "serve_loop N allowed_uid (t # ts) w =
     (let w = tn_outside t w in
      if tn_stop t then (Some (Inr ()), [], w)
      else (case tn_accept t of
              Inr (st, c) \<Rightarrow>
                (case serve_loop N allowed_uid ts w of
                   (r, log, w') \<Rightarrow> (r, handle_connection N (w_euid w) allowed_uid st c # log, w'))
            | Inl e \<Rightarrow>
                if io_kind e = WouldBlock then serve_loop N allowed_uid ts w
                else (Some (Inl (Io e)), [], w)))"

text \<open>\<open>register\<close> of \<open>signal_hook::flag\<close> is a parameter.\<close>

definition serve_daemon ::
  "(i32 \<Rightarrow> unit os) \<Rightarrow> ('h, 's) wire \<Rightarrow> daemon_config \<Rightarrow> ('h, 's) turn list \<Rightarrow> ('s served list \<times> bool) vault_os" where
  "serve_daemon register N config turns =
     andthen (action_err Io (register 2))
       (\<lambda>_. andthen (action_err Io (register 15))
         (\<lambda>_. andthen (bind_listener config)
           (\<lambda>(l, g). andthen (on_failure (action_err Io (sys (ok ()))) (release_socket l g))
             (\<lambda>_ w. case serve_loop N (dc_allowed_uid config) turns w of
                (None, log, w') \<Rightarrow> (Inr (log, False), w')
              | (Some r, log, w') \<Rightarrow> andthen (release_socket l g) (\<lambda>_. andthen (lift_result r) (\<lambda>_. ok (log, True))) w'))))"

definition serve_daemon_once ::
  "('h, 's) wire \<Rightarrow> daemon_config \<Rightarrow> (world \<Rightarrow> world) \<Rightarrow> (io_error + 'h stream \<times> source \<times> 's) \<Rightarrow> unit vault_os" where
  "serve_daemon_once N config outside accepted =
     andthen (bind_listener config)
       (\<lambda>(l, g) w. let w = outside w in
          andthen (release_socket l g)
            (\<lambda>_. lift_result (case accepted of
               Inl e \<Rightarrow> Inl (Io e)
             | Inr (st, c) \<Rightarrow> fst (handle_connection N (w_euid w) (dc_allowed_uid config) st c))) w)"

section \<open>The client\<close>

definition error_code_debug :: "daemon_error_code \<Rightarrow> string" where
  "error_code_debug c =
     (case c of UnsupportedProtocol \<Rightarrow> ''UnsupportedProtocol'' | PeerRejectedCode \<Rightarrow> ''PeerRejected''
      | InvalidRequest \<Rightarrow> ''InvalidRequest'')"

definition accept_response :: "daemon_response \<Rightarrow> daemon_status vault_result" where
  "accept_response response =
     (case response of
        StatusResponse status \<Rightarrow>
          if ds_protocol_version status = protocol_version then Inr status
          else Inl (Protocol (''daemon returned protocol version '' @ show_nat (unat (ds_protocol_version status)) @
                 '' instead of '' @ show_nat (unat protocol_version)))
      | ErrorResponse v code message \<Rightarrow>
          Inl (Protocol (''daemon rejected request ('' @ error_code_debug code @ ''): '' @ message)))"

definition exchange_status ::
  "('h, 's) wire \<Rightarrow> 'h stream \<Rightarrow> (source \<times> 's, vault_error, daemon_status) action" where
  "exchange_status N st =
     andthen (lift_result (map_err Io (st_read_timeout st)))
       (\<lambda>_. andthen (lift_result (map_err Io (st_write_timeout st)))
         (\<lambda>_. andthen (on_output (write_message (wr_request N) (wr_ops N) (st_handle st) (StatusRequest protocol_version)))
           (\<lambda>_. andthen (on_input (read_message (wr_response N)))
             (\<lambda>response. lift_result (accept_response response)))))"

definition query_daemon_status ::
  "('h, 's) wire \<Rightarrow> (path \<Rightarrow> ('h stream \<times> source \<times> 's) os) \<Rightarrow> path \<Rightarrow> daemon_status vault_os" where
  "query_daemon_status N connect p =
     (if \<not> is_absolute p then err (InvalidConfiguration ''daemon socket path must be absolute'')
      else andthen (action_err Io (connect p)) (\<lambda>(st, c). lift_result (fst (exchange_status N st c))))"

end
