(* ===== verification/Daemon_Socket.thy ===== *)
theory Daemon_Socket
  imports Daemon Store_Frame
begin

text \<open>
  The socket of the daemon: what binding may replace, what a bound socket is like, and what the guard
  removes when the daemon ends.
\<close>

section \<open>Binding\<close>

definition own_socket :: "world \<Rightarrow> names \<Rightarrow> bool" where
  "own_socket w q \<longleftrightarrow>
     (case inode_at w q of None \<Rightarrow> False | Some n \<Rightarrow> in_kind n = SocketFile \<and> in_uid n = w_euid w)"

text \<open>The names binding may change: missing ones, and the place of the socket if one of the user is there.\<close>

definition socket_scope :: "world \<Rightarrow> names \<Rightarrow> scope" where
  "socket_scope w q = names_only {p. lookup w p = None \<or> p = q \<and> own_socket w q}"

lemma socket_scope_simps [simp]:
  "sc_names (socket_scope w q) = {p. lookup w p = None \<or> p = q \<and> own_socket w q}"
  "sc_inodes (socket_scope w q) = {}" "sc_locks (socket_scope w q) = {}"
  by (simp_all add: socket_scope_def)









section \<open>Securing\<close>




section \<open>Letting go\<close>


section \<open>The whole of binding\<close>





section \<open>A daemon that is running\<close>





section \<open>Properties\<close>


text \<open>A daemon of the demonstration host.\<close>

definition demo_config :: daemon_config where
  "demo_config = \<lparr>dc_socket_path = parse_path ''/run/control.sock'', dc_allowed_uid = 1000\<rparr>"

definition demo_guard :: socket_guard where
  "demo_guard = \<lparr>gd_path = parse_path ''/run/control.sock'', gd_device = 0, gd_inode = 2\<rparr>"


text \<open>
  C36: what ends with the daemon is its own socket and nothing else.  Letting go of the listener stops
  the listening and removes at most the name of the guard, and that only while a socket with the inode
  the guard was made for is there: a replacement of it stays, as does every inode and every lock.
\<close>

theorem guard_spares_replacements:
  assumes "release_socket l g w = (r, w')"
  shows "r = Inr () \<and> \<not> w_listening w' (ls_inode l) \<and> w_inodes w' = w_inodes w \<and> w_locks w' = w_locks w \<and>
    (\<forall>q. lookup w' q = lookup w q \<or> lookup w' q = None \<and> q = locate (w_cwd w) (gd_path g) \<and>
       lookup w q = Some (gd_inode g) \<and> (\<exists>n. w_inodes w (gd_inode g) = Some n \<and> in_kind n = SocketFile))"
proof -
  let ?q = "locate (w_cwd w) (gd_path g)"
  have plain: "(\<forall>q. lookup w1 q = lookup w q) \<and> w_inodes w1 = w_inodes w \<and> w_locks w1 = w_locks w \<and> w_cwd w1 = w_cwd w"
    if "symlink_metadata (gd_path g) w = (x, w1)" for x w1
    using that by (auto simp: symlink_metadata_def sys_def Let_def lookup_def split: if_splits option.splits)
  have found: "lookup w ?q = Some (md_ino m) \<and> (\<exists>n. w_inodes w (md_ino m) = Some n \<and> md_type m = type_of_kind (in_kind n))"
    if "symlink_metadata (gd_path g) w = (Inr m, w1)" for m w1
    using that by (auto simp: symlink_metadata_def sys_def Let_def lookup_def split: if_splits option.splits)
  have removed: "(\<forall>q. lookup w2 q = lookup w1 q \<or> lookup w2 q = None \<and> q = locate (w_cwd w1) (gd_path g)) \<and>
      w_inodes w2 = w_inodes w1 \<and> w_locks w2 = w_locks w1"
    if "remove_file (gd_path g) w1 = (x, w2)" for x w1 w2
    using that by (auto simp: remove_file_def sys_def Let_def split: if_splits option.splits)
  have socket: "k = SocketFile" if "type_of_kind k = IsSocket" for k using that by (cases k) auto
  obtain x w1 where m: "symlink_metadata (gd_path g) w = (x, w1)" by fastforce
  show ?thesis
  proof (cases "\<exists>m. x = Inr m \<and> md_type m = IsSocket \<and> host_device = gd_device g \<and> md_ino m = gd_inode g")
    case True
    then obtain y w2 where rm: "remove_file (gd_path g) w1 = (y, w2)" by fastforce
    then show ?thesis
      using assms True m found [of _ w1] plain [OF m] removed [OF rm] socket
      by (auto simp: release_socket_def guard_drop_def drop_listener_def andthen_def attempt_def ignore_result_def
          lookup_def split: prod.splits; metis)
  next
    case False
    then show ?thesis
      using assms m plain [OF m]
      by (auto simp: release_socket_def guard_drop_def drop_listener_def andthen_def attempt_def lookup_def split: sum.splits)
  qed
qed

text \<open>A guard whose socket was replaced by another daemon's leaves the other's in place.\<close>

theorem guard_spares_replacements_witness:
  "lookup (snd (release_socket \<lparr>ls_inode = 9\<rparr> (demo_guard\<lparr>gd_inode := 9\<rparr>) (snd (bind_listener demo_config demo_world))))
     [''run'', ''control.sock''] = Some 2"
proof -
  have "lookup (snd (bind_listener demo_config demo_world)) [''run'', ''control.sock''] = Some 2" by code_simp
  note there = this
  obtain r w where run: "release_socket \<lparr>ls_inode = 9\<rparr> (demo_guard\<lparr>gd_inode := 9\<rparr>)
      (snd (bind_listener demo_config demo_world)) = (r, w)" by (rule prod.exhaust)
  from guard_spares_replacements [OF run] have "lookup w [''run'', ''control.sock''] =
        lookup (snd (bind_listener demo_config demo_world)) [''run'', ''control.sock''] \<or>
      lookup (snd (bind_listener demo_config demo_world)) [''run'', ''control.sock''] = Some 9" by auto
  then show ?thesis using there run by simp
qed

end
