(* ===== verification/Daemon_Connection.thy ===== *)
theory Daemon_Connection
  imports Daemon
begin

text \<open>
  What the daemon says on a connection, what the client makes of it, and that no connection stops the
  daemon.
\<close>

section \<open>One side\<close>

lemma on_output_iff: "on_output m (src, s) = (r, src', s') \<longleftrightarrow> src' = src \<and> m s = (r, s')"
  by (auto simp: on_output_def split: prod.split)

lemma on_input_iff: "on_input m (src, s) = (r, src', s') \<longleftrightarrow> s' = s \<and> m src = (r, src')"
  by (auto simp: on_input_def split: prod.split)

lemma respond_iff:
  "respond N st a (src, s) = (r, src', s') \<longleftrightarrow>
     src' = src \<and> write_message (wr_response N) (wr_ops N) (st_handle st) a s = (r, s')"
  by (simp add: respond_def on_output_iff)

text \<open>The ways a connection can go.\<close>

lemma handle_connection_cases:
  assumes "handle_connection N euid allowed st (src, s) = (r, src', s')"
  obtains (early) e where "r = Inl e" "src' = src" "s' = s" "e \<noteq> PeerRejected uid"
  | (stranger) peer x where "st_credentials st = Inr peer" "peer_uid peer \<noteq> allowed" "src' = src"
      "write_message (wr_response N) (wr_ops N) (st_handle st) peer_rejection s = (x, s')"
      "r = (case x of Inl e \<Rightarrow> Inl e | Inr _ \<Rightarrow> Inl (PeerRejected (peer_uid peer)))"
  | (unread) peer e where "st_credentials st = Inr peer" "peer_uid peer = allowed"
      "read_message (wr_request N) src = (Inl e, src')" "r = Inl e" "s' = s"
  | (answered) peer request where "st_credentials st = Inr peer" "peer_uid peer = allowed"
      "read_message (wr_request N) src = (Inr request, src')"
      "write_message (wr_response N) (wr_ops N) (st_handle st) (answer_request euid peer request) s = (r, s')"
proof (cases "\<exists>e. st_read_timeout st = Inl e \<or> st_write_timeout st = Inl e \<or> (\<exists>m. st_credentials st = Inl m)")
  case True
  then show thesis
    using assms early by (auto simp: handle_connection_def andthen_def map_err_def split: sum.splits)
next
  case False
  then obtain peer where ok: "st_read_timeout st = Inr ()" "st_write_timeout st = Inr ()" "st_credentials st = Inr peer"
    by (metis (full_types) old.unit.exhaust sum.exhaust)
  show thesis
  proof (cases "peer_uid peer = allowed")
    case False
    obtain x s1 where w: "write_message (wr_response N) (wr_ops N) (st_handle st) peer_rejection s = (x, s1)" by fastforce
    show ?thesis
      by (rule stranger [OF ok(3) False, of x])
         (use assms ok False w in
           \<open>auto simp: handle_connection_def andthen_def map_err_def respond_def on_output_def split: sum.splits\<close>)
  next
    case True
    obtain x src1 where rd: "read_message (wr_request N) src = (x, src1)" by fastforce
    have run: "(case x of Inl e \<Rightarrow> (Inl e, src1, s) | Inr q \<Rightarrow> respond N st (answer_request euid peer q) (src1, s)) = (r, src', s')"
      using assms ok True rd by (auto simp: handle_connection_def andthen_def map_err_def on_input_def split: sum.splits)
    show ?thesis
    proof (cases x)
      case (Inl e)
      then show ?thesis using unread [OF ok(3) True] rd run by simp
    next
      case (Inr q)
      then show ?thesis using answered [OF ok(3) True] rd run by (simp add: respond_iff)
    qed
  qed
qed

section \<open>Properties\<close>


definition demo_peer :: peer_identity where
  "demo_peer = \<lparr>peer_pid = 9, peer_uid = 1000, peer_gid = 1000\<rparr>"

definition demo_responses :: "daemon_response json_codec" where
  "demo_responses =
     \<lparr>json_to_vec = (\<lambda>a. if a = status_answer 1000 demo_peer then Inr [1] else if a = peer_rejection then Inr [2] else Inl ''unsupported''),
      json_from_slice = (\<lambda>p. if p = [1] then Inr (status_answer 1000 demo_peer)
                             else if p = [2] then Inr peer_rejection else Inl ''syntax'')\<rparr>"

lemma demo_responses_round_trips: "json_round_trips demo_responses"
  by (auto simp: json_round_trips_def demo_responses_def)

definition demo_wire :: "(unit, bytes) wire" where
  "demo_wire = \<lparr>wr_request = demo_json, wr_response = demo_responses, wr_ops = vec_ops\<rparr>"

definition demo_stream :: "unit stream" where
  "demo_stream = \<lparr>st_handle = (), st_read_timeout = Inr (), st_write_timeout = Inr (), st_credentials = Inr demo_peer\<rparr>"

lemma demo_parts:
  "wr_request demo_wire = demo_json" "wr_response demo_wire = demo_responses" "wr_ops demo_wire = vec_ops"
  "st_handle demo_stream = ()" "st_read_timeout demo_stream = Inr ()" "st_write_timeout demo_stream = Inr ()"
  "st_credentials demo_stream = Inr demo_peer"
  by (simp_all add: demo_wire_def demo_stream_def)

lemma demo_sink: "byte_sink (wr_ops demo_wire) (\<lambda>_ v. v) (\<lambda>_ _. True)"
  using vec.byte_sink_axioms by (simp add: demo_parts)

definition demo_request_bytes :: bytes where
  "demo_request_bytes = message_frame (u32_to_be (ucast (1 :: u16)))"

lemma demo_request_sent: "write_message demo_json vec_ops () (StatusRequest protocol_version) [] = (Inr (), demo_request_bytes)"
  by (simp add: demo_message_sent protocol_version_def demo_request_bytes_def)

lemma demo_request_read:
  "\<exists>src'. read_message demo_json (bytes_source demo_request_bytes) = (Inr (StatusRequest protocol_version), src')"
proof -
  have "fits_frame p" if "length p = 4" for p using that by (cases p) (auto simp: fits_frame_def max_frame_bytes_eq)
  then have fits: "fits_frame (u32_to_be (ucast (1 :: u16)))" by simp
  obtain src' where "read_message demo_json (bytes_source demo_request_bytes) =
      (map_err (\<lambda>e. Protocol (''invalid JSON message: '' @ e)) (json_from_slice demo_json (u32_to_be (ucast (1 :: u16)))), src')"
    by (rule read_message_frame [OF plain_bytes_source _ fits, where rest = "[]"]) (simp_all add: demo_request_bytes_def)
  moreover have "json_from_slice demo_json (u32_to_be (ucast (1 :: u16))) = Inr (StatusRequest protocol_version)"
  proof -
    have "json_to_vec demo_json (StatusRequest 1) = Inr (u32_to_be (ucast (1 :: u16)))" by (simp add: demo_json_def)
    then show ?thesis using demo_json_round_trips by (simp add: json_round_trips_def protocol_version_def)
  qed
  ultimately show ?thesis by (auto simp: map_err_def)
qed

lemma demo_answer_sent:
  "write_message demo_responses vec_ops () (status_answer 1000 demo_peer) [] = (Inr (), message_frame [1])"
  by (simp add: write_message_def demo_responses_def vec_ops_def andthen_def action_err_apply map_err_def message_frame_def
      max_frame_bytes_eq)

lemma demo_served:
  "\<exists>src'. handle_connection demo_wire 1000 1000 demo_stream (bytes_source demo_request_bytes, []) =
     (Inr (), src', message_frame [1])"
proof -
  have "peer_uid demo_peer = 1000" by (simp add: demo_peer_def)
  then show ?thesis
    using demo_request_read demo_answer_sent
    by (auto simp: handle_connection_def andthen_def map_err_def demo_parts on_input_def respond_def on_output_def
        answer_request_def)
qed


text \<open>
  C38: the handshake.  When what the client wrote arrives at the daemon and what the daemon wrote
  arrives at the client, in whatever pieces, and the daemon has served the connection, the client's
  query returns the daemon's status with the identity the kernel gave for the client.  A client of
  another UID that was rejected is told so.
\<close>

theorem status_handshake:
  assumes "byte_sink (wr_ops C) ccontent clive" "clive (st_handle c) t" "ccontent (st_handle c) t = []"
    and "byte_sink (wr_ops D) dcontent dlive" "dlive (st_handle d) s" "dcontent (st_handle d) s = []"
    and "wr_request D = wr_request C" "wr_response D = wr_response C"
    and "json_round_trips (wr_request C)" "json_round_trips (wr_response C)"
    and "st_read_timeout c = Inr ()" "st_write_timeout c = Inr ()" "st_credentials d = Inr peer"
    and "write_message (wr_request C) (wr_ops C) (st_handle c) (StatusRequest protocol_version) t = (Inr (), t')"
    and "plain_source dsrc" "source_data dsrc = ccontent (st_handle c) t'"
    and "handle_connection D euid allowed d (dsrc, s) = (r, dsrc', s')"
    and "plain_source csrc" "source_data csrc = dcontent (st_handle d) s'"
  shows "(r = Inr () \<longrightarrow> peer_uid peer = allowed \<and>
      fst (exchange_status C c (csrc, t)) =
        Inr \<lparr>ds_protocol_version = protocol_version, ds_daemon_version = cargo_pkg_version, ds_daemon_uid = euid,
             ds_peer = peer, ds_capabilities = alpha_status_only\<rparr>) \<and>
    (r = Inl (PeerRejected (peer_uid peer)) \<longrightarrow> peer_uid peer \<noteq> allowed \<longrightarrow>
      fst (exchange_status C c (csrc, t)) =
        Inl (Protocol ''daemon rejected request (PeerRejected): kernel-authenticated peer UID is not allowed''))"
proof -
  have client: "fst (exchange_status C c (csrc, t)) = accept_response a" if "read_message (wr_response C) csrc = (Inr a, csrc')"
    for a csrc'
    using assms(11,12,14) that by (simp add: exchange_status_def andthen_def map_err_def on_output_def on_input_def)
  have received: "\<exists>csrc'. read_message (wr_response C) csrc = (Inr a, csrc')"
    if sent: "write_message (wr_response D) (wr_ops D) (st_handle d) a s = (Inr (), s')" for a
  proof -
    obtain p where p: "json_to_vec (wr_response D) a = Inr p" "fits_frame p" "dcontent (st_handle d) s' = message_frame p"
      using byte_sink.write_message_Inr [OF assms(4,5) sent] assms(6) by (metis append_Nil)
    obtain csrc' where "read_message (wr_response C) csrc =
        (map_err (\<lambda>e. Protocol (''invalid JSON message: '' @ e)) (json_from_slice (wr_response C) p), csrc')"
      by (rule read_message_frame [OF assms(18) _ p(2), where rest = "[]"]) (use assms(19) p(3) in auto)
    then show ?thesis using assms(8,10) p(1) by (auto simp: json_round_trips_def map_err_def)
  qed
  from assms(17) show ?thesis
  proof (cases rule: handle_connection_cases [where uid = "peer_uid peer"])
    case (stranger peer' x)
    show ?thesis
    proof (cases x)
      case (Inr u)
      then obtain csrc' where "read_message (wr_response C) csrc = (Inr peer_rejection, csrc')"
        using received stranger(4) by auto
      from client [OF this] show ?thesis
        using stranger assms(13) Inr by (simp add: peer_rejection_def accept_response_def error_code_debug_def)
    next
      case (Inl e)
      have "e \<noteq> PeerRejected (peer_uid peer)"
        using stranger(4) Inl by (auto simp: write_message_def andthen_def action_err_apply map_err_def
            split: sum.splits if_splits prod.splits)
      then show ?thesis using stranger(5) Inl by auto
    qed
  next
    case (answered peer' request)
    have same: "peer' = peer" using answered(1) assms(13) by simp
    obtain p where p: "json_to_vec (wr_request C) (StatusRequest protocol_version) = Inr p" "fits_frame p"
        "ccontent (st_handle c) t' = message_frame p"
      using byte_sink.write_message_Inr [OF assms(1,2,14)] assms(3) by (metis append_Nil)
    obtain src1 where "read_message (wr_request D) dsrc =
        (map_err (\<lambda>e. Protocol (''invalid JSON message: '' @ e)) (json_from_slice (wr_request D) p), src1)"
      by (rule read_message_frame [OF assms(15) _ p(2), where rest = "[]"]) (use assms(16) p(3) in auto)
    then have request: "request = StatusRequest protocol_version"
      using answered(3) assms(7,9) p(1) by (auto simp: json_round_trips_def map_err_def)
    show ?thesis
    proof (cases r)
      case (Inr u)
      then obtain csrc' where "read_message (wr_response C) csrc = (Inr (answer_request euid peer' request), csrc')"
        using received answered(4) by auto
      from client [OF this] show ?thesis
        using answered(2) same request Inr by (simp add: answer_request_def status_answer_def accept_response_def)
    qed (use answered(2) same in auto)
  qed (use assms(13) in auto)
qed

theorem status_handshake_witness:
  "fst (exchange_status demo_wire demo_stream (bytes_source (message_frame [1]), [])) =
     Inr \<lparr>ds_protocol_version = protocol_version, ds_daemon_version = cargo_pkg_version, ds_daemon_uid = 1000,
          ds_peer = demo_peer, ds_capabilities = alpha_status_only\<rparr>"
proof -
  obtain src' where run: "handle_connection demo_wire 1000 1000 demo_stream (bytes_source demo_request_bytes, []) =
     (Inr (), src', message_frame [1])" using demo_served by blast
  have sent: "write_message (wr_request demo_wire) (wr_ops demo_wire) (st_handle demo_stream)
      (StatusRequest protocol_version) [] = (Inr (), demo_request_bytes)"
    using demo_request_sent by (simp add: demo_parts)
  show ?thesis
    using status_handshake [OF demo_sink _ _ demo_sink _ _ refl refl _ _ demo_parts(5-7) sent plain_bytes_source _ run
        plain_bytes_source]
    by (simp add: demo_parts demo_json_round_trips demo_responses_round_trips)
qed

section \<open>The accept loop\<close>

text \<open>A turn in which the loop goes on.\<close>

definition goes_on :: "('h, 's) turn \<Rightarrow> bool" where
  "goes_on t \<longleftrightarrow> \<not> tn_stop t \<and> (case tn_accept t of Inl e \<Rightarrow> io_kind e = WouldBlock | Inr _ \<Rightarrow> True)"

fun connections :: "('h, 's) turn list \<Rightarrow> nat" where
  "connections [] = 0"
| "connections (t # ts) = (case tn_accept t of Inl _ \<Rightarrow> 0 | Inr _ \<Rightarrow> 1) + connections ts"

text \<open>
  No connection stops the daemon.  Through any number of turns in which connections come, of
  whatever peer, with whatever bytes, errors and timeouts, or none come, the loop goes on, and in the
  turn after the stop flag is set it returns \<open>Ok\<close>; every accepted connection has been served.
\<close>

theorem serve_loop_stops:
  assumes "\<forall>t \<in> set ts. goes_on t" "tn_stop t"
  shows "\<exists>log w'. serve_loop N allowed (ts @ t # rest) w = (Some (Inr ()), log, w') \<and> length log = connections ts"
  using assms(1)
proof (induction ts arbitrary: w)
  case Nil
  then show ?case using assms(2) by (simp add: Let_def)
next
  case (Cons u ts)
  obtain log w' where "serve_loop N allowed (ts @ t # rest) (tn_outside u w) = (Some (Inr ()), log, w')"
    "length log = connections ts"
    using Cons by fastforce
  then show ?case using Cons.prems by (auto simp: goes_on_def Let_def split: sum.splits)
qed

theorem serve_loop_stops_witness:
  "\<exists>log w'. serve_loop demo_wire 1000
     [\<lparr>tn_outside = (\<lambda>w. w), tn_stop = False, tn_accept = Inr (demo_stream, [Chunk [0, 0]], [])\<rparr>,
      \<lparr>tn_outside = (\<lambda>w. w), tn_stop = True, tn_accept = Inl unexpected_eof\<rparr>] demo_world =
     (Some (Inr ()), log, w') \<and> length log = 1"
proof -
  let ?t = "\<lparr>tn_outside = (\<lambda>w :: world. w), tn_stop = False, tn_accept = Inr (demo_stream, [Chunk [0, 0]], [])\<rparr> :: (unit, bytes) turn"
  let ?u = "\<lparr>tn_outside = (\<lambda>w :: world. w), tn_stop = True, tn_accept = Inl unexpected_eof\<rparr> :: (unit, bytes) turn"
  have "\<forall>t \<in> set [?t]. goes_on t" "tn_stop ?u" by (simp_all add: goes_on_def)
  from serve_loop_stops [OF this, of demo_wire 1000 "[]" demo_world] show ?thesis by simp
qed

end
