(* ===== verification/Terminal.thy ===== *)
theory Terminal
  imports Runner
begin

text \<open>
  The console of the command line: printing, the prompts for passwords (the \<open>rpassword\<close> crate is a
  parameter), reading a line, and the text functions of \<open>std\<close> it goes through: UTF-8 validation,
  \<open>str::trim\<close> and \<open>env::var\<close>.
\<close>

section \<open>Text\<close>

definition string_of :: "bytes \<Rightarrow> string" where
  "string_of bs = map (\<lambda>b. char_of (unat b)) bs"

text \<open>The ranges of the bytes that must follow a first byte of a UTF-8 sequence.\<close>

definition utf8_ranges :: "u8 \<Rightarrow> (u8 \<times> u8) list option" where
  "utf8_ranges b =
     (if b < 128 then Some []
      else if 194 \<le> b \<and> b \<le> 223 then Some [(128, 191)]
      else if b = 224 then Some [(160, 191), (128, 191)]
      else if b = 237 then Some [(128, 159), (128, 191)]
      else if 225 \<le> b \<and> b \<le> 239 then Some [(128, 191), (128, 191)]
      else if b = 240 then Some [(144, 191), (128, 191), (128, 191)]
      else if 241 \<le> b \<and> b \<le> 243 then Some [(128, 191), (128, 191), (128, 191)]
      else if b = 244 then Some [(128, 143), (128, 191), (128, 191)]
      else None)"

fun utf8_from :: "(u8 \<times> u8) list \<Rightarrow> bytes \<Rightarrow> bool" where
  "utf8_from [] [] = True"
| "utf8_from (_ # _) [] = False"
| "utf8_from [] (b # bs) = (case utf8_ranges b of None \<Rightarrow> False | Some rs \<Rightarrow> utf8_from rs bs)"
| "utf8_from ((lo, hi) # rs) (b # bs) = (lo \<le> b \<and> b \<le> hi \<and> utf8_from rs bs)"

definition is_utf8 :: "bytes \<Rightarrow> bool" where "is_utf8 bs = utf8_from [] bs"

text \<open>The encodings of the characters with the property \<open>White_Space\<close>.\<close>

definition white_space :: "bytes list" where
  "white_space =
     [[9], [10], [11], [12], [13], [32], [194, 133], [194, 160], [225, 154, 128]] @
     map (\<lambda>k. [226, 128, of_nat k]) [128..<139] @
     [[226, 128, 168], [226, 128, 169], [226, 128, 175], [226, 129, 159], [227, 128, 128]]"

function strip :: "bytes list \<Rightarrow> bytes \<Rightarrow> bytes" where
  "strip ps bs =
     (case find (\<lambda>p. p \<noteq> [] \<and> prefix p bs) ps of
        None \<Rightarrow> bs
      | Some p \<Rightarrow> strip ps (drop (length p) bs))"
  by pat_completeness auto
termination
proof (relation "measure (\<lambda>(ps, bs). length bs)")
  fix ps :: "bytes list" and bs p :: bytes
  assume "find (\<lambda>p. p \<noteq> [] \<and> prefix p bs) ps = Some p"
  then have "p \<noteq> []" "prefix p bs" by (auto simp: find_Some_iff)
  then have "0 < length p" "length p \<le> length bs" by (auto dest: prefix_length_le)
  then have "length bs - length p < length bs" by linarith
  then show "((ps, drop (length p) bs), (ps, bs)) \<in> measure (\<lambda>(ps, bs). length bs)" by simp
qed simp

declare strip.simps [simp del]

definition trim :: "string \<Rightarrow> string" where
  "trim s = string_of (rev (strip (map rev white_space) (rev (strip white_space (as_bytes s)))))"

text \<open>\<open>env::var(name).ok()\<close>\<close>

definition env_var :: "string \<Rightarrow> world \<Rightarrow> string option" where
  "env_var name w =
     (case w_env w name of None \<Rightarrow> None | Some s \<Rightarrow> if is_utf8 (as_bytes s) then Some s else None)"

text \<open>Decimal printing of a signed number.\<close>

definition show_i32 :: "i32 \<Rightarrow> string" where
  "show_i32 n = (if sint n < 0 then ''-'' @ show_nat (nat (- sint n)) else show_nat (nat (sint n)))"

section \<open>The console\<close>

definition print :: "string \<Rightarrow> (world, 'e, unit) action" where
  "print s = (\<lambda>w. (Inr (), w\<lparr>w_stdout := w_stdout w @ s\<rparr>))"

definition println :: "string \<Rightarrow> (world, 'e, unit) action" where
  "println s = print (s @ [CHR 0x0A])"

text \<open>\<open>prompt_password\<close> of \<open>rpassword\<close>, and the bytes of the next line of the standard input.\<close>

record terminal =
  tm_password :: "string \<Rightarrow> string os"
  tm_line :: "bytes os"

text \<open>While the user types, files may change; this process and its locks do not.\<close>

definition terminal_documented :: "terminal \<Rightarrow> bool" where
  "terminal_documented T \<longleftrightarrow>
     (\<forall>w. wf_world w \<longrightarrow> (\<forall>s. elsewhere w (snd (tm_password T s w))) \<and> elsewhere w (snd (tm_line T w)))"

definition read_line :: "terminal \<Rightarrow> string os" where
  "read_line T =
     andthen (tm_line T)
       (\<lambda>b. if is_utf8 b then ok (string_of b)
            else err (os_error InvalidData ''stream did not contain valid UTF-8''))"

section \<open>Trimming a name\<close>

lemma string_of_bytes [simp]: "string_of (as_bytes s) = s"
  by (induction s) (auto simp: string_of_def as_bytes_def unat_of_char)

lemma strip_none: "find (\<lambda>p. p \<noteq> [] \<and> prefix p bs) ps = None \<Longrightarrow> strip ps bs = bs"
  by (simp add: strip.simps [of ps bs])

text \<open>A byte that no pattern begins with stops the stripping at once.\<close>

lemma strip_at: "\<forall>p \<in> set ps. p = [] \<or> hd p \<noteq> b \<Longrightarrow> strip ps (b # bs) = b # bs"
  by (rule strip_none) (auto simp: find_None_iff prefix_Cons)

lemma strip_front:
  assumes "[b] \<in> set ps" "\<forall>p \<in> set ps. p \<noteq> [] \<longrightarrow> hd p = b \<longrightarrow> p = [b]"
  shows "strip ps (b # bs) = strip ps bs"
proof -
  let ?P = "\<lambda>p. p \<noteq> [] \<and> prefix p (b # bs)"
  have "?P [b]" by simp
  then have "find ?P ps \<noteq> None" using assms(1) by (auto simp: find_None_iff)
  then obtain q where q: "find ?P ps = Some q" by blast
  then have "q \<in> set ps" "q \<noteq> []" "prefix q (b # bs)" by (auto simp: find_Some_iff)
  then have "hd q = b" by (auto simp: prefix_Cons)
  then have "q = [b]" using assms(2) \<open>q \<in> set ps\<close> \<open>q \<noteq> []\<close> by blast
  then show ?thesis using q by (simp add: strip.simps [of ps "b # bs"])
qed

text \<open>A valid user name is what trimming leaves of the line it was typed on.\<close>

lemma white_space_bytes: "\<forall>p \<in> set white_space. p \<noteq> [] \<and> (length p = 1 \<or> 128 \<le> last p) \<and>
    \<not> is_username_byte (hd p) \<and> \<not> is_username_byte (last p)"
  by code_simp

lemma trim_typed:
  assumes "is_valid_username u"
  shows "trim (u @ [CHR 0x0A]) = u"
proof -
  let ?b = "as_bytes u"
  have u: "?b \<noteq> []" "\<forall>b \<in> set ?b. is_username_byte b"
    using assms by (auto simp: is_valid_username_iff as_bytes_def)
  obtain c cs where c: "?b = c # cs" using u(1) by (cases ?b) auto
  obtain d ds where d: "rev ?b = d # ds" using u(1) by (cases "rev ?b") auto
  have cd: "is_username_byte c" "is_username_byte d"
    using u(2) c d by (metis list.set_intros(1), metis list.set_intros(1) set_rev)
  have no_front: "strip white_space (?b @ [10]) = ?b @ [10]"
    using strip_at [of white_space c "cs @ [10]"] white_space_bytes cd(1) c by auto
  have newline: "strip (map rev white_space) (10 # rev ?b) = strip (map rev white_space) (rev ?b)"
  proof (rule strip_front)
    show "[10] \<in> set (map rev white_space)" by (simp add: white_space_def)
    show "\<forall>p \<in> set (map rev white_space). p \<noteq> [] \<longrightarrow> hd p = 10 \<longrightarrow> p = [10]" by code_simp
  qed
  have no_back: "strip (map rev white_space) (rev ?b) = rev ?b"
    unfolding d by (rule strip_at) (use white_space_bytes cd(2) in \<open>auto simp: hd_rev\<close>)
  have "as_bytes (u @ [CHR 0x0A]) = ?b @ [10]" by (simp add: as_bytes_def)
  then show ?thesis by (simp add: trim_def no_front newline no_back)
qed

end
