(* ===== verification/Cli.thy ===== *)
theory Cli
  imports Terminal Daemon
begin

text \<open>
  \<open>src/main.rs\<close> and \<open>src/bin/codex-vaultd.rs\<close>: what the two programs do with a command that \<open>clap\<close> has
  parsed.  Everything outside is in one record: the crates, the programs and signals of the host, the
  terminal, and how the daemon is reached.
\<close>

section \<open>Commands\<close>

datatype user_command = Add string | Passwd string | ListUsers

datatype daemon_command = Status "path option" bool

datatype cli_command =
    Init
  | User user_command
  | DaemonCommand daemon_command
  | RunCommand "string option" "string list"

record ('t, 'c, 'h, 's) outside =
  out_crates :: "'t crates"
  out_programs :: "'c programs"
  out_signals :: signals_lib
  out_terminal :: terminal
  out_wire :: "('h, 's) wire"
  out_connect :: "path \<Rightarrow> ('h stream \<times> source \<times> 's) os"
  out_status_pretty :: "daemon_status \<Rightarrow> string + string"

section \<open>\<open>codex-vault\<close>\<close>

definition capability_label :: "capability_state \<Rightarrow> string" where
  "capability_label state = (case state of Enabled \<Rightarrow> ''enabled'' | Disabled \<Rightarrow> ''disabled'')"

definition prompt_username :: "terminal \<Rightarrow> string os" where
  "prompt_username T =
     andthen (print ''Username: '')
       (\<lambda>_. andthen (sys (ok ())) (\<lambda>_. andthen (read_line T) (\<lambda>username. ok (trim username))))"

definition prompt_password :: "terminal \<Rightarrow> string \<Rightarrow> bytes vault_os" where
  "prompt_password T label = andthen (action_err Io (tm_password T label)) (\<lambda>s. ok (as_bytes s))"

definition print_lines :: "string list \<Rightarrow> unit vault_os" where
  "print_lines ls = foldr (\<lambda>l m. andthen (println l) (\<lambda>_. m)) ls (ok ())"

definition execute_init :: "vault_store \<Rightarrow> i32 vault_os" where
  "execute_init store =
     andthen (initialize store) (\<lambda>_. andthen (println ''Codex Vault initialized.'') (\<lambda>_. ok 0))"

definition execute_add :: "('t, 'c, 'h, 's) outside \<Rightarrow> vault_store \<Rightarrow> string \<Rightarrow> i32 vault_os" where
  "execute_add E store username =
     andthen (prompt_password (out_terminal E) ''New password: '')
       (\<lambda>password. andthen (prompt_password (out_terminal E) ''Confirm password: '')
         (\<lambda>confirmation.
            if password \<noteq> confirmation then err (InvalidConfiguration ''passwords do not match'')
            else andthen (add_user (out_crates E) store username password)
              (\<lambda>_. andthen (println (''Created encrypted Codex profile for '' @ username @ ''.'')) (\<lambda>_. ok 0))))"

definition execute_list :: "('t, 'c, 'h, 's) outside \<Rightarrow> vault_store \<Rightarrow> i32 vault_os" where
  "execute_list E store =
     andthen (list_users (out_crates E) store)
       (\<lambda>users. andthen (if users = [] then println ''No users.'' else print_lines users) (\<lambda>_. ok 0))"

definition execute_passwd :: "('t, 'c, 'h, 's) outside \<Rightarrow> vault_store \<Rightarrow> string \<Rightarrow> i32 vault_os" where
  "execute_passwd E store username =
     andthen (prompt_password (out_terminal E) ''Current password: '')
       (\<lambda>current. andthen (prompt_password (out_terminal E) ''New password: '')
         (\<lambda>new_password. andthen (prompt_password (out_terminal E) ''Confirm new password: '')
           (\<lambda>confirmation.
              if new_password \<noteq> confirmation then err (InvalidConfiguration ''passwords do not match'')
              else andthen (rotate_password (out_crates E) store username current new_password)
                (\<lambda>_. andthen (println (''Updated password for '' @ username @ ''.'')) (\<lambda>_. ok 0)))))"

definition status_lines :: "path \<Rightarrow> daemon_status \<Rightarrow> string list" where
  "status_lines socket status =
     [''Daemon: reachable'',
      ''Socket: '' @ path_display socket,
      ''Protocol: '' @ show_nat (unat (ds_protocol_version status)),
      ''Daemon version: '' @ ds_daemon_version status,
      ''Daemon UID: '' @ show_nat (unat (ds_daemon_uid status)),
      ''Peer credentials: pid='' @ show_i32 (peer_pid (ds_peer status)) @
        '' uid='' @ show_nat (unat (peer_uid (ds_peer status))) @
        '' gid='' @ show_nat (unat (peer_gid (ds_peer status))),
      ''Capabilities: peer-credentials=yes pam='' @ capability_label (cap_pam_authentication (ds_capabilities status)) @
        '' dedicated-uid='' @ capability_label (cap_dedicated_uid (ds_capabilities status)) @
        '' encrypted-mount='' @ capability_label (cap_encrypted_mount (ds_capabilities status))]"

definition execute_status :: "('t, 'c, 'h, 's) outside \<Rightarrow> path option \<Rightarrow> bool \<Rightarrow> i32 vault_os" where
  "execute_status E socket json =
     andthen (case socket of None \<Rightarrow> default_daemon_socket | Some p \<Rightarrow> ok p)
       (\<lambda>socket. andthen (query_daemon_status (out_wire E) (out_connect E) socket)
         (\<lambda>status. andthen
            (if json
             then andthen (lift_result (map_err Serialization (out_status_pretty E status))) println
             else print_lines (status_lines socket status))
            (\<lambda>_. ok 0)))"

definition execute_run ::
  "('t, 'c, 'h, 's) outside \<Rightarrow> vault_store \<Rightarrow> string option \<Rightarrow> string list \<Rightarrow> i32 vault_os" where
  "execute_run E store user codex_arguments =
     andthen (\<lambda>w. case (case user of Some u \<Rightarrow> Some u | None \<Rightarrow> env_var ''CODEX_VAULT_USER'' w) of
         Some username \<Rightarrow> (Inr username, w)
       | None \<Rightarrow> action_err Io (prompt_username (out_terminal E)) w)
       (\<lambda>username. andthen (prompt_password (out_terminal E) ''Password: '')
         (\<lambda>password. run_codex (out_crates E) (out_programs E) (out_signals E) store username password codex_arguments))"

definition execute :: "('t, 'c, 'h, 's) outside \<Rightarrow> cli_command \<Rightarrow> i32 vault_os" where
  "execute E command =
     andthen from_environment
       (\<lambda>store. case command of
          Init \<Rightarrow> execute_init store
        | User (Add username) \<Rightarrow> execute_add E store username
        | User ListUsers \<Rightarrow> execute_list E store
        | User (Passwd username) \<Rightarrow> execute_passwd E store username
        | DaemonCommand (Status socket json) \<Rightarrow> execute_status E socket json
        | RunCommand user codex_arguments \<Rightarrow> execute_run E store user codex_arguments)"

text \<open>What \<open>main\<close> writes to the standard error and exits with.\<close>

definition main_exit :: "vault_error + i32 \<Rightarrow> string \<times> i32" where
  "main_exit r =
     (case r of
        Inr code \<Rightarrow> ([], code)
      | Inl error \<Rightarrow> (''codex-vault: '' @ vault_error_display error @ [CHR 0x0A], 1))"

section \<open>\<open>codex-vaultd\<close>\<close>

record vaultd_cli =
  vd_socket :: "path option"
  vd_once :: bool

definition vaultd_execute ::
  "(i32 \<Rightarrow> unit os) \<Rightarrow> ('h, 's) wire \<Rightarrow> ('h, 's) turn list \<Rightarrow> (world \<Rightarrow> world) \<times> (io_error + 'h stream \<times> source \<times> 's) \<Rightarrow>
     vaultd_cli \<Rightarrow> ('s served list \<times> bool) vault_os" where
  "vaultd_execute register N turns accepted cli =
     andthen (for_current_user (vd_socket cli))
       (\<lambda>config. andthen (println (''codex-vaultd starting on '' @ path_display (dc_socket_path config)))
         (\<lambda>_. if vd_once cli
              then andthen (serve_daemon_once N config (fst accepted) (snd accepted)) (\<lambda>_. ok ([], True))
              else serve_daemon register N config turns))"

text \<open>What \<open>main\<close> of the daemon does with the result.\<close>

definition vaultd_exit :: "vault_error + 'a \<Rightarrow> string \<times> i32" where
  "vaultd_exit r =
     (case r of
        Inr _ \<Rightarrow> ([], 0)
      | Inl error \<Rightarrow> (''codex-vaultd: '' @ vault_error_display error @ [CHR 0x0A], 1))"

end
