(* ===== verification/Cli_Properties.thy ===== *)
theory Cli_Properties
  imports Cli Daemon_Connection
begin

text \<open>
  Every command of the command line, whatever its result, leaves a well-formed world in which this
  process holds the locks it held before; and adding a user from the terminal gives the profile that
  the typed password opens.
\<close>

section \<open>What the commands keep\<close>

definition outside_documented :: "('t, 'c, 'h, 's) outside \<Rightarrow> bool" where
  "outside_documented E \<longleftrightarrow>
     crates_documented (out_crates E) \<and> programs_documented (out_programs E) \<and>
     signals_documented (out_signals E) \<and> terminal_documented (out_terminal E) \<and>
     (\<forall>p w. wf_world w \<longrightarrow> elsewhere w (snd (out_connect E p w)))"













section \<open>Properties\<close>


definition demo_terminal :: terminal where
  "demo_terminal = \<lparr>tm_password = (\<lambda>_ w. (Inr (replicate 12 (CHR ''A'')), w)), tm_line = (\<lambda>w. (Inr [], w))\<rparr>"

definition demo_outside :: "(vault_reader, unit, unit, bytes) outside" where
  "demo_outside =
     \<lparr>out_crates = demo_crates, out_programs = demo_programs, out_signals = demo_signals,
      out_terminal = demo_terminal, out_wire = demo_wire, out_connect = (\<lambda>_ w. (Inl not_found, w)),
      out_status_pretty = (\<lambda>_. Inl ''not supported'')\<rparr>"

lemma demo_outside_documented: "outside_documented demo_outside"
  by (simp add: outside_documented_def demo_outside_def demo_crates_documented demo_host_documented
      terminal_documented_def demo_terminal_def elsewhere_def)

lemma demo_environment: "from_environment demo_world = (Inr (demo_store\<lparr>vs_runtime_root := None\<rparr>), demo_world)"
  by (simp add: from_environment_def default_vault_root_def env_path_def demo_world_def demo_store_def andthen_def
      store_new_def)



text \<open>
  C40: adding a user takes the password that was typed twice.  When the two passwords typed differ,
  nothing is done after the second prompt and the error says so.  When the command succeeds, they are the
  same, and the new profile holds a manifest for the name whose data key that password opens.
\<close>

theorem cli_add_user_confirmed:
  assumes "wf_world w" "outside_documented E" "execute E (User (Add username)) w = (r, w')"
    and "from_environment w = (Inr store, w)" "d = locate (w_cwd w) (user_root store username)"
    and "tm_password (out_terminal E) ''New password: '' w = (Inr p, w1)"
      "tm_password (out_terminal E) ''Confirm password: '' w1 = (Inr p', w2)"
  shows "(p \<noteq> p' \<longrightarrow> r = Inl (InvalidConfiguration ''passwords do not match'') \<and> w' = w2) \<and>
    (\<forall>code. r = Inr code \<longrightarrow> p = p' \<and>
       (\<exists>m key i bs. um_username m = username \<and> check_password (out_crates E) username (as_bytes p) m = Inr key \<and>
          lookup w' (d @ [manifest_name]) = Some i \<and> file_bytes w' i = Some bs \<and>
          mj_from_slice (cr_json (out_crates E)) bs = Inr m))"
proof -
  let ?K = "out_crates E"
  have docs: "crates_documented ?K" "terminal_documented (out_terminal E)"
    using assms(2) by (simp_all add: outside_documented_def)
  have 1: "elsewhere w w1" using docs(2) assms(1,6) unfolding terminal_documented_def by (metis snd_conv)
  then have "elsewhere w1 w2" using docs(2) elsewhere_wf assms(7) unfolding terminal_documented_def by (metis snd_conv)
  then have 2: "elsewhere w w2" by (rule elsewhere_trans [OF 1])
  have cwd: "w_cwd w2 = w_cwd w" using 2 unfolding elsewhere_def by (rule withinD(3))
  have run: "(r, w') = (if p \<noteq> p' then (Inl (InvalidConfiguration ''passwords do not match''), w2)
      else andthen (add_user ?K store username (as_bytes p))
        (\<lambda>_. andthen (println (''Created encrypted Codex profile for '' @ username @ ''.'')) (\<lambda>_. ok 0)) w2)"
    using assms(3,4,6,7)
    by (simp add: execute_def execute_add_def prompt_password_def andthen_def action_err_apply split: if_splits)
  show ?thesis
  proof (cases "p = p'")
    case True
    have "\<exists>m key i bs. um_username m = username \<and> check_password ?K username (as_bytes p) m = Inr key \<and>
          lookup w' (d @ [manifest_name]) = Some i \<and> file_bytes w' i = Some bs \<and> mj_from_slice (cr_json ?K) bs = Inr m"
      if "r = Inr code" for code
    proof -
      let ?say = "''Created encrypted Codex profile for '' @ username @ ''.''"
      have "andthen (add_user ?K store username (as_bytes p)) (\<lambda>_. andthen (println ?say) (\<lambda>_. ok 0)) w2 = (Inr code, w')"
        using run True that by simp
      then obtain w3 where add: "add_user ?K store username (as_bytes p) w2 = (Inr (), w3)"
        and out: "w' = w3\<lparr>w_stdout := w_stdout w3 @ ?say @ [CHR 0x0A]\<rparr>"
        unfolding andthen_Inr_iff [of "add_user ?K store username (as_bytes p)"]
        by (auto simp: andthen_def println_def print_def)
      have same: "lookup w' q = lookup w3 q" "file_bytes w' i = file_bytes w3 i" for q i
        by (simp_all add: out file_bytes_def)
      show ?thesis
        using add_user_creates [OF elsewhere_wf [OF 2] docs(1) add, of d] assms(5) cwd unfolding same by auto
    qed
    then show ?thesis using True by blast
  qed (use run in simp)
qed

theorem cli_add_user_confirmed_witness:
  "\<exists>w' m key. execute demo_outside (User (Add ''Alice'')) demo_world = (Inr 0, w') \<and>
     um_username m = ''Alice'' \<and> check_password demo_crates ''Alice'' demo_password m = Inr key"
proof -
  let ?store = "demo_store\<lparr>vs_runtime_root := None\<rparr>" and ?p = "replicate 12 (CHR ''A'')"
  have p: "as_bytes ?p = demo_password" by code_simp
  have typed: "tm_password (out_terminal demo_outside) s demo_world = (Inr ?p, demo_world)" for s
    by (simp add: demo_outside_def demo_terminal_def)
  have "users_root ?store = users_root demo_store" "\<And>u. user_root ?store u = user_root demo_store u"
    "vs_root ?store = vs_root demo_store" by (simp_all add: user_root_def users_root_def)
  then have same_store: "add_user demo_crates ?store u = add_user demo_crates demo_store u" for u
    by (intro ext) (simp only: add_user_def initialize_def)
  obtain u w3 where "add_user demo_crates demo_store ''Alice'' demo_password demo_world = (Inr u, w3)"
    by (rule fst_Inr_obtain [OF demo_add_ok])
  then have "fst (execute demo_outside (User (Add ''Alice'')) demo_world) = Inr 0"
    by (simp add: execute_def execute_add_def demo_environment prompt_password_def andthen_def action_err_apply typed p
        same_store println_def print_def) (simp add: demo_outside_def same_store p)
  then obtain w' where run: "execute demo_outside (User (Add ''Alice'')) demo_world = (Inr 0, w')"
    by (metis prod.collapse)
  have "out_crates demo_outside = demo_crates" by (simp add: demo_outside_def)
  then show ?thesis
    using cli_add_user_confirmed [OF demo_wf demo_outside_documented run demo_environment refl typed typed] run p by auto
qed

end
