(* ===== verification/Spec2Isabelle.thy ===== *)
theory Spec2Isabelle
  imports Vault_Stream Key_Wrap Daemon_Protocol Store_Reopening Store_System Runner Daemon_Socket Daemon_Connection Cli_Properties
begin

text \<open>
  A model of codex-vault, a Rust program that keeps the state directory of the Codex command line
  encrypted at rest, one profile for each application-level user.  A profile is a directory with a
  manifest (the public metadata and the data key, wrapped under a key derived from the password), a
  state file (a tar archive, encrypted frame by frame under the data key) and a lock file.  Unlocking
  opens the data key, takes the lock and unpacks the state into a private runtime directory; the
  runner starts the real program there, and closing packs the directory into a new state file and
  gives the lock up.  A separate daemon answers status requests on a Unix domain socket.

  \<^bold>\<open>Foundations.\<close>
  \<open>Vault_Prelude\<close>: machine integers, byte strings and their encodings, results and fallible stateful
  computations, where \<open>andthen\<close> is the \<open>?\<close> operator.  \<open>Result_Triples\<close>: a program logic for them, the
  triples and the invariants \<open>keeps\<close>.  \<open>Vault_Error\<close>: \<open>src/error.rs\<close> and \<open>std::io::Error\<close>.  \<open>Rust_Io\<close>:
  readers as scripts of what their reads deliver, and the interface \<open>byte_sink\<close> of writers;
  \<open>Vault_Writer\<close> extends it to \<open>reliable_sink\<close>.  A byte vector and an open file of the host interpret
  both.  \<open>Host_Path\<close>, \<open>Host_Os\<close>: paths and the host, that is names, inodes, open files, locks and the
  process, where every system call takes a tick and every tick may hold a fault.  \<open>Host_Frame\<close>: what each call may change
  (\<open>within\<close>).  \<open>Host_Sockets\<close>: Unix domain sockets.  \<open>Crates\<close>: the crates of the store as parameters with
  their documented behaviour as predicates.

  \<^bold>\<open>The encrypted stream\<close> (\<open>src/crypto/vault_stream.rs\<close>).
  \<open>Frame_Format\<close> has the layout and the nonces, \<open>Vault_Writer\<close> and \<open>Vault_Reader\<close> the two state machines
  with one definition for each part of a method.  \<open>Stream_Grammar\<close> defines the format as a grammar; the
  reader accepts exactly its byte strings (\<open>Stream_Tampering\<close>, \<open>Vault_Stream\<close>), the writer makes the one
  string for its input however the calls split it, truncated, extended and rearranged vaults are
  refused, and under an authentic cipher only what was sealed is accepted.  \<open>Writer_Frame\<close> and
  \<open>Stream_Soundness\<close> are what the archive needs of the two.

  \<^bold>\<open>Keys and metadata\<close> (\<open>src/manifest.rs\<close>, \<open>src/crypto/kdf.rs\<close>, \<open>src/crypto/key_wrap.rs\<close>).
  \<open>Manifest\<close>, \<open>Kdf\<close> and \<open>Key_Wrap\<close>: validation, injectivity of the associated data (the interface
  \<open>self_delimiting\<close>), bounds of the derivation, and what wrapping and opening a key guarantee.

  \<^bold>\<open>Files\<close> (\<open>src/config.rs\<close>, \<open>src/archive.rs\<close>).
  \<open>Config_Paths\<close>: the private directories and the choice of the runtime root.  \<open>Archive\<close> and
  \<open>Archive_Properties\<close>: sealing a directory into a state file, which replaces the old one at once or not at
  all, and unsealing one, which is confined to its destination and authenticated.

  \<^bold>\<open>The store\<close> (\<open>src/store.rs\<close>).
  \<open>Store\<close> has every operation.  \<open>Store_Frame\<close>, \<open>Store_Locks\<close>, \<open>Store_Session\<close>, \<open>Store_Writes\<close>,
  \<open>Store_Creation\<close> and \<open>Store_Outcomes\<close> show, in this order, what the calls change, what taking the lock gives,
  what a session has, how the manifest is replaced, how a profile is made, and how each operation ends;
  \<open>Store_Properties\<close> states the results.  \<open>Store_Examples\<close> and \<open>Store_Runs\<close> evaluate the operations on a
  small world with executable crates.  \<open>Store_System\<close> puts the operations together as a step relation,
  with several vaults open and others acting in between, and has the invariant of all its reachable
  states (the interface \<open>preserved\<close>): every open vault holds the lock of its profile, and no profile is open twice.
  \<open>Store_Progress\<close> shows that the store lets its user in: without faults to come, the password of a sound
  profile unlocks it; it rests on \<open>Host_Progress\<close> (calls that succeed) and \<open>Stream_Delivery\<close> (reads of a good
  vault never fail, the coinductive contract \<open>delivers\<close>).  \<open>Store_Reopening\<close> follows a session from unlock
  over the program to close and shows that the next unlock succeeds on what was sealed.

  \<^bold>\<open>The programs\<close> (\<open>src/runner.rs\<close>, \<open>src/daemon_protocol.rs\<close>, \<open>src/daemon.rs\<close>, \<open>src/main.rs\<close>,
  \<open>src/bin/codex-vaultd.rs\<close>).
  \<open>Runner\<close>: a vault that was unlocked is closed on every path.  \<open>Daemon_Protocol\<close>: the messages and their
  frames.  \<open>Daemon\<close>: the daemon and its client; \<open>Daemon_Socket\<close> shows what binding and ending it
  change, \<open>Daemon_Connection\<close> what is said on a connection and that no connection ends the loop.
  \<open>Terminal\<close>, \<open>Cli\<close>: the console and the commands from what \<open>clap\<close> has parsed on; \<open>Cli_Properties\<close>
  shows that every command leaves the locks and the process as they were.

  \<^bold>\<open>Parameters.\<close>
  The crates \<open>aes-gcm\<close>, \<open>argon2\<close>, \<open>base64\<close>, \<open>getrandom\<close>, \<open>uuid\<close>, \<open>tar\<close>, \<open>tempfile\<close>, \<open>fs2\<close>, \<open>serde_json\<close>,
  \<open>signal-hook\<close>, \<open>nix\<close>, \<open>rpassword\<close>, and the programs that are run.  Theorems that need more of them than
  their types name it: decryption inverts encryption, an authentic cipher opens only what was sealed,
  a lock is held by one descriptor at a time, and the like; \<open>crates_work\<close> and \<open>archive_restores\<close> say
  that they succeed when nothing is in their way.  The examples satisfy these conditions
  together.

  \<^bold>\<open>Bounds.\<close>
  Integers have the widths of the code, so overflows are those of the code.  Loops are recursions over
  lists or have measures; the loop over the entries of an archive runs on fuel, and its fuel is shown
  to suffice.  Symbolic links are followed forty times, as on Linux.

  \<^bold>\<open>Not modelled.\<close>
  Zeroization of secrets, which nothing can observe.  Argument parsing by \<open>clap\<close>, the module
  declarations of \<open>src/lib.rs\<close> and \<open>src/crypto/mod.rs\<close>, the tests, and the branches for other targets than Linux.
  Panics of \<open>println!\<close> when the standard output fails.  Of the host: an ancestor of a path that is a
  symbolic link (\<open>..\<close> and the last component are resolved, ancestors are taken by name), access checks
  on opening and connecting, more than one file system, reuse of inode and descriptor numbers, and
  \<open>remove_dir_all\<close> in several steps.  Other processes act between the operations of the store, while the
  user types, while a program runs and between the turns of the daemon, not within an operation.  Time
  passes only as the script of a connection says: a timeout is an error in it.
\<close>

end
